(* ===== verification/Prelude.thy ===== *)
theory Prelude
  imports Main "HOL-Library.Word" "HOL-Library.Monad_Syntax"
begin

text \<open>
  What every component shares: the names of the machine integer types, byte-addressed
  memory with 64-bit wrap-around addresses, little-endian loads and stores, and the
  generic lemmas on lists, words and memory that the component proofs rest on. The
  collection \<open>mem_simps\<close> holds the read-over-write facts.
\<close>

unbundle bit_operations_syntax

type_synonym byte = "8 word"
type_synonym u16 = "16 word"
type_synonym u32 = "32 word"
type_synonym u64 = "64 word"
type_synonym addr = "64 word"
type_synonym memory = "addr \<Rightarrow> byte"

named_theorems mem_simps

section \<open>Byte-addressed memory\<close>

text \<open>
  \<open>read_bytes\<close> and \<open>write_bytes\<close> walk upwards from an address, as the byte loops and
  \<open>memcmp\<close>/\<open>memcpy\<close> of the code do; the address wraps at \<open>2 ^ 64\<close>.
\<close>

primrec read_bytes :: "memory \<Rightarrow> addr \<Rightarrow> nat \<Rightarrow> byte list" where
  "read_bytes m a 0 = []"
| "read_bytes m a (Suc n) = m a # read_bytes m (a + 1) n"

primrec write_bytes :: "memory \<Rightarrow> addr \<Rightarrow> byte list \<Rightarrow> memory" where
  "write_bytes m a [] = m"
| "write_bytes m a (b # bs) = write_bytes (m(a := b)) (a + 1) bs"

text \<open>Little-endian byte order of the x86-64 loads and stores.\<close>

definition le_bytes :: "nat \<Rightarrow> 'a::len word \<Rightarrow> byte list" where
  "le_bytes n w = map (\<lambda>i. ucast (drop_bit (8 * i) w)) [0..<n]"

primrec le_word :: "byte list \<Rightarrow> 'a::len word" where
  "le_word [] = 0"
| "le_word (b # bs) = ucast b OR push_bit 8 (le_word bs)"

definition load16 :: "memory \<Rightarrow> addr \<Rightarrow> u16" where
  "load16 m a = le_word (read_bytes m a 2)"

definition load32 :: "memory \<Rightarrow> addr \<Rightarrow> u32" where
  "load32 m a = le_word (read_bytes m a 4)"

definition load64 :: "memory \<Rightarrow> addr \<Rightarrow> u64" where
  "load64 m a = le_word (read_bytes m a 8)"

text \<open>Pointers are compared by their distance: \<open>offset a x\<close> is how far \<open>x\<close> is above \<open>a\<close>.\<close>

definition offset :: "addr \<Rightarrow> addr \<Rightarrow> nat" where
  "offset a x = unat (x - a)"

definition in_range :: "addr \<Rightarrow> nat \<Rightarrow> addr \<Rightarrow> bool" where
  "in_range a n x \<longleftrightarrow> offset a x < n"

section \<open>Lemmas on words\<close>

lemma offset_same [simp]: "offset a a = 0"
  by (simp add: offset_def)

lemma unat_u64_lt [simp]: "unat (x :: u64) < 18446744073709551616"
  using unsigned_less [of x, where ?'a = nat] by simp

lemma offset_lt [simp]: "offset a x < 18446744073709551616"
  by (simp add: offset_def)

lemma unat_of_nat_u64: "n < 2 ^ 64 \<Longrightarrow> unat (of_nat n :: u64) = n"
  by (simp add: unat_of_nat)

lemma offset_eq_0_iff [simp]: "offset a x = 0 \<longleftrightarrow> x = a"
  by (simp add: offset_def unat_eq_0)

lemma offset_inj: "offset a x = offset a y \<longleftrightarrow> x = y"
  by (simp add: offset_def word_unat_eq_iff [symmetric])

lemma add_offset [simp]: "a + of_nat (offset a x) = x"
  by (simp add: offset_def)

lemma offset_add_nat: "n < 2 ^ 64 \<Longrightarrow> offset a (a + of_nat n) = n"
  by (simp add: offset_def unat_of_nat_u64)

lemma offset_plus_word: "offset a (a + w) = unat w"
  by (simp add: offset_def)

lemma offset_Suc: "x \<noteq> a \<Longrightarrow> offset a x = Suc (offset (a + 1) x)"
proof -
  assume "x \<noteq> a"
  then have nz: "x - a \<noteq> 0" by simp
  have eq: "x - (a + 1) = (x - a) - 1" by simp
  have "0 < unat (x - a)" using nz by (simp add: unat_gt_0)
  then show ?thesis
    using unat_minus_one [OF nz] unfolding offset_def eq by simp
qed

lemma offset_pred [simp]: "offset (a + 1) a = 18446744073709551615"
proof -
  have "a - (a + 1) = (- 1 :: u64)" by simp
  moreover have "unat (- 1 :: u64) = 18446744073709551615" by (simp add: unsigned_minus_1_eq_mask mask_eq_exp_minus_1)
  ultimately show ?thesis unfolding offset_def by simp
qed

lemma offset_shift_nat:
  assumes "n + offset a x < 2 ^ 64"
  shows "offset (a - of_nat n) x = n + offset a x"
proof -
  have "x - (a - of_nat n) = of_nat (n + offset a x)"
    using add_offset [of a x] by (simp add: algebra_simps)
  then show ?thesis using assms unfolding offset_def [of "a - of_nat n"]
    by (simp only: unat_of_nat_u64)
qed

section \<open>Lemmas on memory\<close>

lemma length_read_bytes [simp]: "length (read_bytes m a n) = n"
  by (induction n arbitrary: a) simp_all

lemma nth_read_bytes: "i < n \<Longrightarrow> read_bytes m a n ! i = m (a + of_nat i)"
proof (induction n arbitrary: a i)
  case (Suc n)
  then show ?case by (cases i) (simp_all add: algebra_simps)
qed simp

lemma read_bytes_map: "read_bytes m a n = map (\<lambda>i. m (a + of_nat i)) [0..<n]"
  by (rule nth_equalityI) (simp_all add: nth_read_bytes)

lemma read_bytes_cong:
  "(\<And>i. i < n \<Longrightarrow> m (a + of_nat i) = m' (a + of_nat i)) \<Longrightarrow> read_bytes m a n = read_bytes m' a n"
  by (simp add: read_bytes_map)

lemma read_bytes_append:
  "read_bytes m a (n + k) = read_bytes m a n @ read_bytes m (a + of_nat n) k"
  by (induction n arbitrary: a) (simp_all add: algebra_simps)

lemma write_bytes_apply:
  assumes "length bs \<le> 2 ^ 64"
  shows "write_bytes m a bs x = (if offset a x < length bs then bs ! offset a x else m x)"
  using assms
proof (induction bs arbitrary: m a)
  case (Cons b bs)
  show ?case
  proof (cases "x = a")
    case True
    have "\<not> offset (a + 1) a < length bs" using Cons.prems by simp
    with Cons True show ?thesis by simp
  next
    case False
    with Cons show ?thesis by (simp add: offset_Suc)
  qed
qed simp

lemma write_bytes_outside [mem_simps]:
  "length bs \<le> 2 ^ 64 \<Longrightarrow> length bs \<le> offset a x \<Longrightarrow> write_bytes m a bs x = m x"
  by (simp add: write_bytes_apply)

lemma read_write_bytes [mem_simps]:
  assumes "length bs \<le> 2 ^ 64"
  shows "read_bytes (write_bytes m a bs) a (length bs) = bs"
proof (rule nth_equalityI)
  fix i assume "i < length (read_bytes (write_bytes m a bs) a (length bs))"
  then have i: "i < length bs" by simp
  with assms have "offset a (a + of_nat i) = i" by (simp add: offset_add_nat)
  with i assms show "read_bytes (write_bytes m a bs) a (length bs) ! i = bs ! i"
    by (simp add: nth_read_bytes write_bytes_apply)
qed simp

lemma read_bytes_write_disjoint [mem_simps]:
  assumes "length bs \<le> 2 ^ 64"
    and "\<And>i. i < n \<Longrightarrow> length bs \<le> offset a (b + of_nat i)"
  shows "read_bytes (write_bytes m a bs) b n = read_bytes m b n"
  using assms by (intro read_bytes_cong) (simp add: write_bytes_outside)

lemma write_read_bytes_same:
  "n \<le> 2 ^ 64 \<Longrightarrow> write_bytes m a (read_bytes m a n) = m"
  by (rule ext) (simp add: write_bytes_apply nth_read_bytes)

lemma write_bytes_append:
  "write_bytes m a (xs @ ys) = write_bytes (write_bytes m a xs) (a + of_nat (length xs)) ys"
  by (induction xs arbitrary: m a) (simp_all add: algebra_simps)

lemma write_bytes_overwrite:
  "length xs = length ys \<Longrightarrow> length ys \<le> 2 ^ 64 \<Longrightarrow>
   write_bytes (write_bytes m a xs) a ys = write_bytes m a ys"
  by (rule ext) (simp add: write_bytes_apply)

section \<open>Little-endian encoding\<close>

lemma length_le_bytes [simp]: "length (le_bytes n w) = n"
  by (simp add: le_bytes_def)

lemma nth_le_bytes: "i < n \<Longrightarrow> le_bytes n w ! i = ucast (drop_bit (8 * i) w)"
  by (simp add: le_bytes_def)

lemma bit_le_word:
  "bit (le_word bs :: 'a::len word) k \<longleftrightarrow>
     k < LENGTH('a) \<and> k div 8 < length bs \<and> bit (bs ! (k div 8)) (k mod 8)"
proof (induction bs arbitrary: k)
  case (Cons b bs)
  show ?case
  proof (cases "k < 8")
    case True
    then show ?thesis by (auto simp: bit_simps)
  next
    case False
    then obtain j where j: "k = 8 + j" by (metis le_add_diff_inverse not_less)
    have nb: "\<not> bit b (8 + j)" using bit_imp_le_length [of b "8 + j"] by auto
    have "(8 + j) div 8 = Suc (j div 8)" by simp
    then show ?thesis using j nb Cons.IH [of j]
      by (auto simp: bit_simps)
  qed
qed simp

lemma le_word_le_bytes:
  fixes w :: "'a::len word"
  assumes "LENGTH('a) \<le> 8 * n"
  shows "le_word (le_bytes n w) = w"
proof (rule bit_word_eqI)
  fix k assume k: "k < LENGTH('a)"
  then have "k div 8 < n" using assms by simp
  moreover have "8 * (k div 8) + k mod 8 = k" by simp
  ultimately show "bit (le_word (le_bytes n w) :: 'a word) k = bit w k"
    using k by (simp add: bit_le_word nth_le_bytes bit_simps)
qed

lemma le_bytes_le_word:
  assumes "8 * length bs \<le> LENGTH('a::len)"
  shows "le_bytes (length bs) (le_word bs :: 'a word) = bs"
proof (rule nth_equalityI)
  fix i assume "i < length (le_bytes (length bs) (le_word bs :: 'a word))"
  then have i: "i < length bs" by simp
  show "le_bytes (length bs) (le_word bs :: 'a word) ! i = bs ! i"
  proof (rule bit_word_eqI)
    fix k assume "k < LENGTH(8)"
    then have k: "k < 8" by simp
    then have "(8 * i + k) div 8 = i" "(8 * i + k) mod 8 = k" by simp_all
    moreover have "8 * i + k < LENGTH('a)" using i k assms by simp
    ultimately show "bit (le_bytes (length bs) (le_word bs :: 'a word) ! i) k = bit (bs ! i) k"
      using i k by (simp add: nth_le_bytes bit_simps bit_le_word)
  qed
qed simp

lemma if_bothI: "P a \<Longrightarrow> P b \<Longrightarrow> P (if c then a else b)"
  by simp

section \<open>Increments, sums and distances\<close>

lemma word_inc:
  assumes "(a::u64) < b"
  shows "a < a + 1" and "a + 1 \<le> b" and "a \<le> x \<Longrightarrow> x \<noteq> a \<Longrightarrow> a + 1 \<le> x"
  using assms by uint_arith+

lemma unat_plus_u64: "unat (a :: u64) + unat b < 2 ^ 64 \<Longrightarrow> unat (a + b) = unat a + unat b"
  by (simp add: unat_word_ariths)

lemma unat_minus_u64: "unat (b :: u64) \<le> unat a \<Longrightarrow> unat (a - b) = unat a - unat b"
  by (simp add: unat_sub word_le_nat_alt)

lemma offset_trans: "offset a p + offset p x < 2 ^ 64 \<Longrightarrow> offset a x = offset a p + offset p x"
  using unat_plus_u64 [of "p - a" "x - p"] by (simp add: offset_def)

section \<open>Parts of memory\<close>

lemma write_bytes_keep:
  assumes "length xs + k \<le> 2 ^ 64"
  shows "write_bytes m a (xs @ read_bytes m (a + of_nat (length xs)) k) = write_bytes m a xs"
proof
  fix x
  show "write_bytes m a (xs @ read_bytes m (a + of_nat (length xs)) k) x = write_bytes m a xs x"
  proof (cases "offset a x < length xs + k")
    case True
    have "a + of_nat (length xs) + of_nat (offset a x - length xs) = x" if "length xs \<le> offset a x"
      using that add_offset [of a x] by (simp add: algebra_simps)
    then show ?thesis using assms True by (simp add: write_bytes_apply nth_append nth_read_bytes)
  next
    case False
    then show ?thesis using assms by (simp add: write_bytes_apply)
  qed
qed

lemma read_bytes_split: "k \<le> n \<Longrightarrow> read_bytes m a n = read_bytes m a k @ read_bytes m (a + of_nat k) (n - k)"
  using read_bytes_append [of m a k "n - k"] by simp

lemma read_bytes_prefix: "read_bytes m a n = xs @ ys \<Longrightarrow> read_bytes m a (length xs) = xs \<and> read_bytes m (a + of_nat (length xs)) (length ys) = ys"
proof -
  assume a: "read_bytes m a n = xs @ ys"
  then have "n = length xs + length ys" by (metis length_append length_read_bytes)
  then have "read_bytes m a (length xs) @ read_bytes m (a + of_nat (length xs)) (length ys) = xs @ ys"
    using a by (simp add: read_bytes_append)
  then show ?thesis by simp
qed

lemma load32_le_bytes: "read_bytes m a 4 = le_bytes 4 d \<Longrightarrow> load32 m a = d"
  by (simp add: load32_def le_word_le_bytes)

lemma load16_le_bytes: "read_bytes m a 2 = le_bytes 2 d \<Longrightarrow> load16 m a = d"
  by (simp add: load16_def le_word_le_bytes)

lemma load64_le_bytes: "read_bytes m a 8 = le_bytes 8 d \<Longrightarrow> load64 m a = d"
  by (simp add: load64_def le_word_le_bytes)

text \<open>Two ranges of memory without a common address.\<close>

definition apart :: "addr \<Rightarrow> nat \<Rightarrow> addr \<Rightarrow> nat \<Rightarrow> bool" where
  "apart a n b k \<longleftrightarrow> (\<forall>i < n. \<forall>j < k. a + of_nat i \<noteq> b + of_nat j)"

lemma apart_sym: "apart a n b k \<longleftrightarrow> apart b k a n"
  unfolding apart_def by metis

lemma apart_offset:
  assumes "apart a n b k" and "j < k"
  shows "n \<le> offset a (b + of_nat j)"
proof (rule ccontr)
  assume "\<not> n \<le> offset a (b + of_nat j)"
  then have "a + of_nat (offset a (b + of_nat j)) \<noteq> b + of_nat j" using assms unfolding apart_def by (meson not_le)
  then show False by simp
qed

lemma apart_sub: "apart a n b k \<Longrightarrow> i + n' \<le> n \<Longrightarrow> j + k' \<le> k \<Longrightarrow> apart (a + of_nat i) n' (b + of_nat j) k'"
  unfolding apart_def
proof (intro allI impI)
  fix i' j' :: nat assume a: "\<forall>i<n. \<forall>j<k. a + of_nat i \<noteq> b + of_nat j" "i + n' \<le> n" "j + k' \<le> k" "i' < n'" "j' < k'"
  then have "i + i' < n" "j + j' < k" by linarith+
  then have "a + of_nat (i + i') \<noteq> b + of_nat (j + j')" using a(1) by blast
  then show "a + of_nat i + of_nat i' \<noteq> b + of_nat j + of_nat j'" by (simp add: algebra_simps)
qed

lemma read_write_apart [mem_simps]:
  "apart a (length bs) b n \<Longrightarrow> length bs \<le> 2 ^ 64 \<Longrightarrow> read_bytes (write_bytes m a bs) b n = read_bytes m b n"
  by (rule read_bytes_write_disjoint) (simp_all add: apart_offset)

lemma offset_advance: "k \<le> offset a x \<Longrightarrow> offset (a + of_nat k) x = offset a x - k"
proof -
  assume k: "k \<le> offset a x"
  then have u: "unat (of_nat k :: u64) = k" using offset_lt [of a x] by (simp add: unat_of_nat_u64 del: offset_lt)
  show ?thesis using unat_minus_u64 [of "of_nat k" "x - a"] k u by (simp add: offset_def diff_diff_eq)
qed

lemma apart_next:
  assumes "n + k \<le> 2 ^ 64"
  shows "apart a n (a + of_nat n) k"
  unfolding apart_def
proof (intro allI impI)
  fix i j :: nat assume "i < n" "j < k"
  then have "offset a (a + of_nat i) = i" "offset a (a + of_nat (n + j)) = n + j"
    using assms by (simp_all add: offset_add_nat del: of_nat_add)
  then show "a + of_nat i \<noteq> a + of_nat n + of_nat j" using \<open>i < n\<close> by (auto simp: add.assoc)
qed

lemma apartI: "n \<le> offset a b \<Longrightarrow> k \<le> offset b a \<Longrightarrow> apart a n b k"
  unfolding apart_def
proof (intro allI impI notI)
  fix i j :: nat
  assume h: "n \<le> offset a b" "k \<le> offset b a" "i < n" "j < k" "a + of_nat i = b + of_nat j"
  show False
  proof (cases "j \<le> i")
    case True
    then have "b = a + of_nat (i - j)" using h(5) by (simp add: of_nat_diff algebra_simps)
    then have "offset a b \<le> i - j" by (simp add: offset_def unat_of_nat)
    then show False using h(1,3) True by simp
  next
    case False
    then have "a = b + of_nat (j - i)" using h(5) by (simp add: of_nat_diff algebra_simps)
    then have "offset b a \<le> j - i" by (simp add: offset_def unat_of_nat)
    then show False using h(2,4) False by simp
  qed
qed

end
