(* ===== verification/Machine.thy ===== *)
theory Machine
  imports Prelude
begin

text \<open>
  The part of the machine the patcher works on: memory, the write-protect bit of CR0, the
  interrupt flag, the spin lock that brackets kernel writes, and the kernel allocator.
  The operations are \<open>MachInfo::setInterrupts\<close>, \<open>MachInfo::setWPBit\<close> and
  \<open>MachInfo::setKernelWriting\<close> of \<open>kern_mach.cpp\<close>. The hardware and the allocator are
  parameters carried by the state: \<open>cr0_effect\<close> is what a write to CR0 leaves there (a
  hypervisor may refuse it), \<open>readonly\<close> the page protection of an address, \<open>alloc_at n\<close>
  the address the \<open>n\<close>-th allocation returns, null when it fails.

  Operations return \<open>None\<close> when they never return to their caller: a fault, a kernel
  panic, a spin on a lock that is never released.
\<close>

section \<open>State\<close>

datatype kern_return = KERN_SUCCESS | KERN_FAILURE | KERN_NOT_SUPPORTED

record machine =
  mem :: memory
  readonly :: "addr \<Rightarrow> bool"
  cr0 :: u64
  cr0_effect :: "u64 \<Rightarrow> u64 \<Rightarrow> u64"
  writeProtectionDisabled :: bool
  eflags_if :: bool
  interruptsDisabled :: bool
  kernelWriteLock :: bool
  lockHeld :: bool
  alloc_at :: "nat \<Rightarrow> addr"
  alloc_no :: nat
  m_kernel_base :: addr
  m_kernel_collection :: bool

definition CR0_WP :: u64 where
  "CR0_WP = 0x10000"

definition wp_set :: "machine \<Rightarrow> bool" where
  "wp_set m \<longleftrightarrow> cr0 m AND CR0_WP \<noteq> 0"

definition set_cr0 :: "u64 \<Rightarrow> machine \<Rightarrow> machine" where
  "set_cr0 v m = m\<lparr>cr0 := cr0_effect m (cr0 m) v\<rparr>"

text \<open>A store faults on a read-only page while CR0.WP is set.\<close>

definition store_bytes :: "addr \<Rightarrow> byte list \<Rightarrow> machine \<Rightarrow> machine option" where
  "store_bytes a bs m =
     (if wp_set m \<and> list_ex (\<lambda>i. readonly m (a + of_nat i)) [0..<length bs] then None
      else Some (m\<lparr>mem := write_bytes (mem m) a bs\<rparr>))"

text \<open>\<open>operator new\<close>, \<open>kern_os_malloc\<close> and \<open>kern_os_realloc\<close> may fail.\<close>

definition allocate :: "machine \<Rightarrow> addr \<times> machine" where
  "allocate m = (alloc_at m (alloc_no m), m\<lparr>alloc_no := Suc (alloc_no m)\<rparr>)"

section \<open>Operations\<close>

definition setInterrupts :: "bool \<Rightarrow> machine \<Rightarrow> bool \<times> machine" where
  "setInterrupts enable m = (eflags_if m \<noteq> enable, m\<lparr>eflags_if := enable\<rparr>)"

definition setWPBit :: "bool \<Rightarrow> machine \<Rightarrow> kern_return \<times> machine" where
  "setWPBit enable m =
     (if enable \<and> \<not> writeProtectionDisabled m then
        (let m1 = set_cr0 (cr0 m OR CR0_WP) m
         in (if wp_set m1 then KERN_SUCCESS else KERN_FAILURE, m1))
      else
        (let m1 = (if \<not> enable then
                     (let m2 = m\<lparr>writeProtectionDisabled := \<not> wp_set m\<rparr>
                      in if \<not> writeProtectionDisabled m2
                         then set_cr0 (cr0 m AND NOT CR0_WP) m2 else m2)
                   else m)
         in (if \<not> wp_set m1 then KERN_SUCCESS else KERN_FAILURE, m1)))"

definition IOSimpleLockLock :: "bool \<Rightarrow> machine \<Rightarrow> machine option" where
  "IOSimpleLockLock lock m =
     (if \<not> lock then Some m else if lockHeld m then None else Some (m\<lparr>lockHeld := True\<rparr>))"

definition IOSimpleLockUnlock :: "bool \<Rightarrow> machine \<Rightarrow> machine" where
  "IOSimpleLockUnlock lock m = (if lock then m\<lparr>lockHeld := False\<rparr> else m)"

definition setKernelWriting :: "bool \<Rightarrow> bool \<Rightarrow> machine \<Rightarrow> (kern_return \<times> machine) option" where
  "setKernelWriting enable lock m = do {
     m1 \<leftarrow> (if enable then do {
              ma \<leftarrow> IOSimpleLockLock lock m;
              let (changed, mb) = setInterrupts False ma;
              Some (mb\<lparr>interruptsDisabled := \<not> changed\<rparr>)
            } else Some m);
     let (st, m2) = setWPBit (\<not> enable) m1;
     let failed = (st \<noteq> KERN_SUCCESS);
     let res = (if failed then KERN_FAILURE else KERN_SUCCESS);
     let enabled = (enable \<and> \<not> failed);
     let m3 = (if \<not> enabled then
                 (let m4 = (if \<not> interruptsDisabled m2 then snd (setInterrupts True m2) else m2)
                  in IOSimpleLockUnlock lock m4)
               else m2);
     Some (res, m3)
   }"

section \<open>The write window\<close>

text \<open>
  \<open>cr0_honest\<close> is the documented behaviour of the register on bare hardware: it holds what
  was written to it.
\<close>

definition cr0_honest :: "machine \<Rightarrow> bool" where
  "cr0_honest m \<longleftrightarrow> (\<forall>old new. cr0_effect m old new = new)"

text \<open>What opening the window saves of the state before it, to be restored by closing it.\<close>

definition opened_from :: "machine \<Rightarrow> machine \<Rightarrow> bool" where
  "opened_from m0 m \<longleftrightarrow>
     \<not> wp_set m \<and> cr0_effect m = cr0_effect m0 \<and> readonly m = readonly m0 \<and>
     kernelWriteLock m = kernelWriteLock m0 \<and> alloc_at m = alloc_at m0 \<and>
     alloc_no m = alloc_no m0 \<and> m_kernel_base m = m_kernel_base m0 \<and>
     m_kernel_collection m = m_kernel_collection m0 \<and>
     lockHeld m = (kernelWriteLock m0 \<or> lockHeld m0) \<and>
     writeProtectionDisabled m = (\<not> wp_set m0) \<and> interruptsDisabled m = (\<not> eflags_if m0) \<and>
     cr0 m = cr0 m0 AND NOT CR0_WP \<and> \<not> eflags_if m"

text \<open>The state after a window was opened and closed again: only the statics may differ.\<close>

definition same_cpu :: "machine \<Rightarrow> machine \<Rightarrow> bool" where
  "same_cpu m0 m \<longleftrightarrow>
     cr0 m = cr0 m0 \<and> eflags_if m = eflags_if m0 \<and> lockHeld m = lockHeld m0 \<and>
     cr0_effect m = cr0_effect m0 \<and> readonly m = readonly m0 \<and>
     kernelWriteLock m = kernelWriteLock m0 \<and> alloc_at m = alloc_at m0 \<and>
     alloc_no m = alloc_no m0 \<and> m_kernel_base m = m_kernel_base m0 \<and>
     m_kernel_collection m = m_kernel_collection m0"

lemma bit_CR0_WP: "bit CR0_WP n \<longleftrightarrow> n = 16"
proof -
  have eq: "CR0_WP = 2 ^ 16" by (simp add: CR0_WP_def)
  show ?thesis unfolding eq bit_exp_iff by auto
qed

lemma CR0_WP_bits: "w AND CR0_WP \<noteq> 0 \<longleftrightarrow> bit w 16"
proof -
  have b: "bit (w AND CR0_WP) n \<longleftrightarrow> n = 16 \<and> bit w 16" for n
    by (auto simp: bit_and_iff bit_CR0_WP)
  show ?thesis
  proof
    assume "w AND CR0_WP \<noteq> 0"
    then obtain n where "bit (w AND CR0_WP) n" using bit_eq_iff [of "w AND CR0_WP" 0] by auto
    then show "bit w 16" using b by simp
  next
    assume "bit w 16"
    then have "bit (w AND CR0_WP) 16" using b by simp
    then show "w AND CR0_WP \<noteq> 0" by auto
  qed
qed

lemma wp_set_bit: "wp_set m \<longleftrightarrow> bit (cr0 m) 16"
  by (simp add: wp_set_def CR0_WP_bits)

lemma cr0_restore: "bit w 16 \<Longrightarrow> (w AND NOT CR0_WP) OR CR0_WP = w"
  by (rule bit_word_eqI) (auto simp: bit_simps bit_CR0_WP)

lemma cr0_cleared: "\<not> bit w 16 \<Longrightarrow> w AND NOT CR0_WP = w"
  by (rule bit_word_eqI) (auto simp: bit_simps bit_CR0_WP)

lemma bit_cr0_clear [simp]: "\<not> bit (w AND NOT CR0_WP) 16"
  by (simp add: bit_simps bit_CR0_WP)

lemma bit_cr0_or [simp]: "bit (w OR CR0_WP) 16"
  by (simp add: bit_simps bit_CR0_WP)

lemmas window_defs = setKernelWriting_def setWPBit_def setInterrupts_def IOSimpleLockLock_def
  IOSimpleLockUnlock_def set_cr0_def

lemma open_window:
  assumes "cr0_honest m" and "\<not> lockHeld m"
  shows "\<exists>m'. setKernelWriting True (kernelWriteLock m) m = Some (KERN_SUCCESS, m') \<and>
              opened_from m m' \<and> mem m' = mem m"
  using assms
  by (auto simp: window_defs wp_set_bit opened_from_def cr0_honest_def cr0_cleared Let_def)

lemma open_window_fails:
  assumes "setKernelWriting True (kernelWriteLock m) m = Some (st, m')" and "st \<noteq> KERN_SUCCESS"
    and "\<not> lockHeld m"
  shows "eflags_if m' = eflags_if m \<and> \<not> lockHeld m' \<and> mem m' = mem m \<and> wp_set m'"
  using assms by (auto simp: window_defs wp_set_def Let_def split: if_splits)

lemma close_window:
  assumes "opened_from m0 m" and "cr0_honest m0" and "\<not> lockHeld m0"
  shows "\<exists>m'. setKernelWriting False (kernelWriteLock m) m = Some (KERN_SUCCESS, m') \<and>
              same_cpu m0 m' \<and> mem m' = mem m"
  using assms
  by (auto simp: window_defs wp_set_bit opened_from_def same_cpu_def cr0_honest_def cr0_cleared
        cr0_restore Let_def)

section \<open>The interface of the window\<close>

text \<open>
  What the patcher relies on when it changes kernel memory: a window opens whenever nobody
  is in one, stores inside it do not fault, and closing it leaves the processor as it was.
\<close>

primrec put_all :: "(addr \<Rightarrow> byte list \<Rightarrow> 'm \<Rightarrow> 'm option) \<Rightarrow> (addr \<times> byte list) list \<Rightarrow> 'm \<Rightarrow> 'm option"
where
  "put_all put [] m = Some m"
| "put_all put (w # ws) m = put (fst w) (snd w) m \<bind> put_all put ws"

primrec write_all :: "memory \<Rightarrow> (addr \<times> byte list) list \<Rightarrow> memory" where
  "write_all m [] = m"
| "write_all m (w # ws) = write_all (write_bytes m (fst w) (snd w)) ws"

locale write_window =
  fixes opn :: "machine \<Rightarrow> (kern_return \<times> machine) option"
    and put :: "addr \<Rightarrow> byte list \<Rightarrow> machine \<Rightarrow> machine option"
    and cls :: "machine \<Rightarrow> (kern_return \<times> machine) option"
    and ready :: "machine \<Rightarrow> bool"
    and session :: "machine \<Rightarrow> machine \<Rightarrow> bool"
    and settled :: "machine \<Rightarrow> machine \<Rightarrow> bool"
  assumes opens: "ready m \<Longrightarrow> \<exists>m'. opn m = Some (KERN_SUCCESS, m') \<and> session m m' \<and> mem m' = mem m"
    and puts: "session m0 m \<Longrightarrow>
      \<exists>m'. put a bs m = Some m' \<and> session m0 m' \<and> mem m' = write_bytes (mem m) a bs"
    and closes: "session m0 m \<Longrightarrow> ready m0 \<Longrightarrow>
      \<exists>m'. cls m = Some (KERN_SUCCESS, m') \<and> settled m0 m' \<and> mem m' = mem m"
    and settles: "settled m0 m \<Longrightarrow> ready m0 \<Longrightarrow> ready m"
begin

lemma put_all_ok:
  "session m0 m \<Longrightarrow>
     \<exists>m'. put_all put ws m = Some m' \<and> session m0 m' \<and> mem m' = write_all (mem m) ws"
proof (induction ws arbitrary: m)
  case (Cons w ws)
  from puts [OF Cons.prems, of "fst w" "snd w"] obtain m1 where
    m1: "put (fst w) (snd w) m = Some m1" "session m0 m1" "mem m1 = write_bytes (mem m) (fst w) (snd w)"
    by blast
  then show ?case using Cons.IH [OF m1(2)] by simp
qed simp

text \<open>The bracket \<open>open; writes; close\<close> as every patching routine has it.\<close>

lemma bracket:
  assumes "ready m"
  shows "\<exists>m1 m2 m3. opn m = Some (KERN_SUCCESS, m1) \<and> put_all put ws m1 = Some m2 \<and>
     cls m2 = Some (KERN_SUCCESS, m3) \<and> settled m m3 \<and> ready m3 \<and> mem m1 = mem m \<and>
     mem m3 = write_all (mem m) ws"
proof -
  from opens [OF assms] obtain m1 where m1: "opn m = Some (KERN_SUCCESS, m1)" "session m m1"
    "mem m1 = mem m" by blast
  from put_all_ok [OF m1(2), of ws] obtain m2 where m2: "put_all put ws m1 = Some m2"
    "session m m2" "mem m2 = write_all (mem m1) ws" by blast
  from closes [OF m2(2) assms] obtain m3 where m3: "cls m2 = Some (KERN_SUCCESS, m3)"
    "settled m m3" "mem m3 = mem m2" by blast
  with m1 m2 settles [OF m3(2) assms] show ?thesis by auto
qed

end

text \<open>The bracket of \<open>kern_patcher.cpp\<close>: \<open>setKernelWriting\<close> with the patcher's own lock.\<close>

definition writing_on :: "machine \<Rightarrow> (kern_return \<times> machine) option" where
  "writing_on m = setKernelWriting True (kernelWriteLock m) m"

definition writing_off :: "machine \<Rightarrow> (kern_return \<times> machine) option" where
  "writing_off m = setKernelWriting False (kernelWriteLock m) m"

definition window_ready :: "machine \<Rightarrow> bool" where
  "window_ready m \<longleftrightarrow> cr0_honest m \<and> \<not> lockHeld m"

lemma store_in_window:
  "opened_from m0 m \<Longrightarrow> \<exists>m'. store_bytes a bs m = Some m' \<and> opened_from m0 m' \<and>
     mem m' = write_bytes (mem m) a bs"
  by (auto simp: store_bytes_def opened_from_def wp_set_def)

interpretation kw: write_window writing_on store_bytes writing_off window_ready opened_from same_cpu
proof
  show "\<exists>m'. writing_on m = Some (KERN_SUCCESS, m') \<and> opened_from m m' \<and> mem m' = mem m"
    if "window_ready m" for m
    using open_window [of m] that by (auto simp: writing_on_def window_ready_def)
  show "\<exists>m'. writing_off m = Some (KERN_SUCCESS, m') \<and> same_cpu m0 m' \<and> mem m' = mem m"
    if "opened_from m0 m" "window_ready m0" for m0 m
    using close_window [of m0 m] that by (auto simp: writing_off_def window_ready_def)
qed (auto dest: store_in_window simp: window_ready_def same_cpu_def cr0_honest_def)

section \<open>A machine at rest\<close>

text \<open>The machine the concrete instances use: write protection on, every page read-only, nobody in a window.\<close>

definition bare_machine :: "memory \<Rightarrow> machine" where
  "bare_machine m =
     \<lparr>mem = m, readonly = (\<lambda>_. True), cr0 = 0x80010033, cr0_effect = (\<lambda>_ new. new), writeProtectionDisabled = False,
      eflags_if = True, interruptsDisabled = False, kernelWriteLock = True, lockHeld = False,
      alloc_at = (\<lambda>n. 0x700000 + 64 * of_nat n), alloc_no = 0, m_kernel_base = 0, m_kernel_collection = False\<rparr>"

lemma bare_machine_mem [simp]: "mem (bare_machine m) = m"
  by (simp add: bare_machine_def)

lemma bare_machine_ready [simp]: "window_ready (bare_machine m)"
  by (simp add: window_ready_def cr0_honest_def bare_machine_def)

section \<open>Pages and stores\<close>

definition writable :: "machine \<Rightarrow> addr \<Rightarrow> nat \<Rightarrow> bool" where
  "writable m a n \<longleftrightarrow> (\<forall>i < n. \<not> readonly m (a + of_nat i))"

lemma write_all_changes:
  "\<forall>part \<in> set parts. length (snd part) \<le> 2 ^ 64 \<Longrightarrow> write_all m parts x \<noteq> m x \<Longrightarrow>
     \<exists>part \<in> set parts. offset (fst part) x < length (snd part)"
proof (induction parts arbitrary: m)
  case (Cons p ps)
  show ?case
  proof (cases "write_bytes m (fst p) (snd p) x = m x")
    case True
    then show ?thesis using Cons.IH [of "write_bytes m (fst p) (snd p)"] Cons.prems by auto
  next
    case False
    then show ?thesis using Cons.prems(1) by (auto simp: write_bytes_apply split: if_splits)
  qed
qed simp

lemma writable_list: "writable m a n \<longleftrightarrow> list_all (\<lambda>i. \<not> readonly m (a + of_nat i)) [0..<n]"
  by (auto simp: writable_def list_all_iff)

text \<open>
  C19. The bracket every patching routine uses: when nobody is in a write window and CR0 is honest,
  opening one succeeds, every store in it succeeds (also on read-only pages), and closing it leaves
  write protection, interrupts and the lock as they were, with exactly the stores in memory.
\<close>

theorem setKernelWriting_bracket:
  assumes "cr0_honest m" and "\<not> lockHeld m"
  shows "\<exists>m1 m2 m3. setKernelWriting True (kernelWriteLock m) m = Some (KERN_SUCCESS, m1) \<and>
     put_all store_bytes ws m1 = Some m2 \<and> setKernelWriting False (kernelWriteLock m2) m2 = Some (KERN_SUCCESS, m3) \<and>
     same_cpu m m3 \<and> mem m3 = write_all (mem m) ws"
proof -
  obtain m1 m2 m3 where "writing_on m = Some (KERN_SUCCESS, m1)" "put_all store_bytes ws m1 = Some m2"
    "writing_off m2 = Some (KERN_SUCCESS, m3)" "same_cpu m m3" "mem m3 = write_all (mem m) ws"
    using kw.bracket [of m ws] assms by (auto simp: window_ready_def)
  then show ?thesis by (auto simp: writing_on_def writing_off_def)
qed

theorem setKernelWriting_bracket_witness:
  "\<exists>m1 m2 m3. setKernelWriting True True (bare_machine (\<lambda>_. 0)) = Some (KERN_SUCCESS, m1) \<and>
     put_all store_bytes [(0x1000, [0x90])] m1 = Some m2 \<and>
     setKernelWriting False (kernelWriteLock m2) m2 = Some (KERN_SUCCESS, m3) \<and> mem m3 0x1000 = 0x90 \<and>
     wp_set m3 = wp_set (bare_machine (\<lambda>_. 0))"
proof -
  have "cr0_honest (bare_machine (\<lambda>_. 0))" "\<not> lockHeld (bare_machine (\<lambda>_. 0))"
    by (simp_all add: cr0_honest_def bare_machine_def)
  from setKernelWriting_bracket [OF this, of "[(0x1000, [0x90])]"] show ?thesis
    by (auto simp: same_cpu_def wp_set_def bare_machine_def [of "\<lambda>_. 0"])
qed

text \<open>
  C36. When the processor (a hypervisor, say) refuses to clear write protection, opening a window
  fails, memory is unchanged, write protection is still on, and interrupts and the lock are as before.
\<close>

theorem setKernelWriting_refused:
  assumes "wp_set m" and "\<And>new. cr0_effect m (cr0 m) new = cr0 m" and "\<not> lockHeld m"
  shows "\<exists>m'. setKernelWriting True (kernelWriteLock m) m = Some (KERN_FAILURE, m') \<and> mem m' = mem m \<and>
    wp_set m' \<and> eflags_if m' = eflags_if m \<and> \<not> lockHeld m' \<and> (\<forall>a bs. bs \<noteq> [] \<and> readonly m a \<longrightarrow> store_bytes a bs m' = None)"
  using assms
  by (cases "eflags_if m"; cases "kernelWriteLock m")
     (auto simp: window_defs wp_set_def Let_def store_bytes_def list_ex_iff dest: bspec [of _ _ 0])

theorem setKernelWriting_refused_witness:
  "\<exists>m'. setKernelWriting True True ((bare_machine (\<lambda>_. 0))\<lparr>cr0_effect := \<lambda>old _. old\<rparr>) = Some (KERN_FAILURE, m') \<and>
     store_bytes 0x1000 [0x90] m' = None"
proof -
  let ?m = "(bare_machine (\<lambda>_. 0))\<lparr>cr0_effect := \<lambda>old _. old\<rparr>"
  have "wp_set ?m" "cr0_effect ?m (cr0 ?m) new = cr0 ?m" "\<not> lockHeld ?m" "kernelWriteLock ?m" "readonly ?m 0x1000" for new
    by (simp_all add: bare_machine_def wp_set_def CR0_WP_def)
  then show ?thesis using setKernelWriting_refused [of ?m] by auto
qed

end
