(* ===== verification/Mach_Info.thy ===== *)
theory Mach_Info
  imports Machine
begin

text \<open>
  \<open>MachInfo\<close> of \<open>kern_mach.cpp\<close>: what is known about the Mach-O image of the kernel or of a
  kext, and the operations that read it out of memory: the kernel base search, the load
  command walks, the address slots, the running addresses, the UUID check and the symbol
  lookup. Structures are read at their byte offsets in the x86-64 layout, the only one
  modelled. Reading memory never faults in the model.
\<close>

section \<open>Layout of the Mach-O structures\<close>

definition MH_MAGIC_64 :: u32 where "MH_MAGIC_64 = 0xfeedfacf"
definition MH_FILESET :: u32 where "MH_FILESET = 0xc"
definition LC_SYMTAB :: u32 where "LC_SYMTAB = 0x2"
definition LC_SEGMENT_64 :: u32 where "LC_SEGMENT_64 = 0x19"
definition LC_UUID :: u32 where "LC_UUID = 0x1b"
definition N_STAB :: byte where "N_STAB = 0xe0"
definition HeaderSize :: u64 where "HeaderSize = 8192"
definition KASLRAlignment :: u64 where "KASLRAlignment = 0x100000"

definition sizeof_mach_header :: u64 where "sizeof_mach_header = 32"
definition sizeof_load_command :: u64 where "sizeof_load_command = 8"
definition sizeof_segment_command :: u64 where "sizeof_segment_command = 72"
definition sizeof_section :: u64 where "sizeof_section = 80"
definition sizeof_nlist :: u64 where "sizeof_nlist = 16"

definition mh_magic :: "memory \<Rightarrow> addr \<Rightarrow> u32" where "mh_magic m h = load32 m h"
definition mh_filetype :: "memory \<Rightarrow> addr \<Rightarrow> u32" where "mh_filetype m h = load32 m (h + 12)"
definition mh_ncmds :: "memory \<Rightarrow> addr \<Rightarrow> u32" where "mh_ncmds m h = load32 m (h + 16)"
definition mh_sizeofcmds :: "memory \<Rightarrow> addr \<Rightarrow> u32" where "mh_sizeofcmds m h = load32 m (h + 20)"
definition mh_flags :: "memory \<Rightarrow> addr \<Rightarrow> u32" where "mh_flags m h = load32 m (h + 24)"
definition mh_reserved :: "memory \<Rightarrow> addr \<Rightarrow> u32" where "mh_reserved m h = load32 m (h + 28)"

definition lc_cmd :: "memory \<Rightarrow> addr \<Rightarrow> u32" where "lc_cmd m c = load32 m c"
definition lc_cmdsize :: "memory \<Rightarrow> addr \<Rightarrow> u64" where "lc_cmdsize m c = ucast (load32 m (c + 4))"

definition seg_name :: "addr \<Rightarrow> addr" where "seg_name c = c + 8"
definition seg_vmaddr :: "memory \<Rightarrow> addr \<Rightarrow> u64" where "seg_vmaddr m c = load64 m (c + 24)"
definition seg_vmsize :: "memory \<Rightarrow> addr \<Rightarrow> u64" where "seg_vmsize m c = load64 m (c + 32)"
definition seg_fileoff :: "memory \<Rightarrow> addr \<Rightarrow> u64" where "seg_fileoff m c = load64 m (c + 40)"
definition seg_filesize :: "memory \<Rightarrow> addr \<Rightarrow> u64" where "seg_filesize m c = load64 m (c + 48)"
definition seg_nsects :: "memory \<Rightarrow> addr \<Rightarrow> u32" where "seg_nsects m c = load32 m (c + 64)"

definition sect_addr :: "memory \<Rightarrow> addr \<Rightarrow> u64" where "sect_addr m s = load64 m (s + 32)"
definition sect_size :: "memory \<Rightarrow> addr \<Rightarrow> u64" where "sect_size m s = load64 m (s + 40)"

definition sym_symoff :: "memory \<Rightarrow> addr \<Rightarrow> u32" where "sym_symoff m c = load32 m (c + 8)"
definition sym_nsyms :: "memory \<Rightarrow> addr \<Rightarrow> u32" where "sym_nsyms m c = load32 m (c + 12)"
definition sym_stroff :: "memory \<Rightarrow> addr \<Rightarrow> u32" where "sym_stroff m c = load32 m (c + 16)"
definition sym_strsize :: "memory \<Rightarrow> addr \<Rightarrow> u32" where "sym_strsize m c = load32 m (c + 20)"

definition n_strx :: "memory \<Rightarrow> addr \<Rightarrow> u64" where "n_strx m n = ucast (load32 m n)"
definition n_type :: "memory \<Rightarrow> addr \<Rightarrow> byte" where "n_type m n = m (n + 4)"
definition n_value :: "memory \<Rightarrow> addr \<Rightarrow> u64" where "n_value m n = load64 m (n + 8)"

text \<open>\<open>strncmp(a, s, n) == 0\<close> for a string in memory and a literal.\<close>

fun strncmp_eq :: "memory \<Rightarrow> addr \<Rightarrow> string \<Rightarrow> nat \<Rightarrow> bool" where
  "strncmp_eq m a s 0 = True"
| "strncmp_eq m a [] (Suc n) = (m a = 0)"
| "strncmp_eq m a (c # cs) (Suc n) = (m a = of_char c \<and> strncmp_eq m (a + 1) cs n)"

text \<open>\<open>isAligned\<close> for a load command, whose alignment is 4.\<close>

definition isAligned :: "addr \<Rightarrow> bool" where
  "isAligned p \<longleftrightarrow> p mod 4 = 0"

section \<open>State\<close>

text \<open>
  The prelink information a kernel cache carries: for each image its bundle identifier and
  its source address, load address and size, each missing when the property list lacks it.
  An entry that is not a dictionary is \<open>None\<close>.
\<close>

record prelink_image =
  pi_identifier :: "string option"
  pi_source_addr :: "u64 option"
  pi_load_addr :: "u64 option"
  pi_size :: "u32 option"

record prelink_info =
  pl_images :: "prelink_image option list option"
  pl_kaslr_offsets :: bool

text \<open>
  What the running kernel fixes or provides: its version, the address of \<open>IOLog\<close>, the boot
  arguments (what \<open>PE_parse_boot_argn\<close> leaves in a character buffer of a given size, in an
  integer, and whether the argument is present at all), whether the current thread has credentials, the file system (a path gives a
  vnode, a read of a vnode the bytes it delivered or an error), the zlib decoder, what an uninitialised
  stack buffer holds, what is read from a local array after the block that declares it, and the
  property list parser.
\<close>

record kern_env =
  version_major :: nat
  version_minor :: int
  IOLog :: addr
  boot_arg_str :: "string \<Rightarrow> nat \<Rightarrow> string option"
  boot_arg_int :: "string \<Rightarrow> int option"
  checkKernelArgument :: "string \<Rightarrow> bool"
  has_credential :: bool
  vnode_lookup :: "string \<Rightarrow> nat option"
  vnode_read :: "nat \<Rightarrow> u64 \<Rightarrow> u64 \<Rightarrow> byte list option"
  allowDecompress :: bool
  decompress_zlib :: "nat \<Rightarrow> byte list \<Rightarrow> byte list"
  stack_junk :: "nat \<Rightarrow> byte"
  dead_array :: "byte list \<Rightarrow> byte list"
  OSUnserializeXML :: "byte list \<Rightarrow> prelink_info option"

definition Leopard :: nat where "Leopard = 9"
definition SnowLeopard :: nat where "SnowLeopard = 10"
definition Yosemite :: nat where "Yosemite = 14"
definition BigSur :: nat where "BigSur = 20"

record mach_info =
  running_text_addr :: addr
  disk_text_addr :: addr
  kaslr_slide :: addr
  file_buf :: addr
  prelink_dict :: "prelink_info option"
  prelink_addr :: addr
  prelink_vmaddr :: addr
  file_buf_size :: u32
  sym_buf :: addr
  sym_buf_ro :: bool
  sym_fileoff :: u64
  sym_size :: u64
  symboltable_fileoff :: u32
  symboltable_nr_symbols :: u32
  stringtable_fileoff :: u32
  stringtable_size :: u32
  running_mh :: addr
  address_slots :: addr
  address_slots_end :: addr
  fat_offset :: u64
  memory_size :: u64
  kaslr_slide_set :: bool
  allow_decompress :: bool
  prelink_slid :: bool
  kernel_collection :: bool
  self_uuid :: "u64 \<times> u64"
  isKernel :: bool
  objectId :: "string option"

definition MachInfo_create :: "bool \<Rightarrow> string option \<Rightarrow> mach_info" where
  "MachInfo_create asKernel ident =
     \<lparr>running_text_addr = 0, disk_text_addr = 0, kaslr_slide = 0, file_buf = 0, prelink_dict = None,
      prelink_addr = 0, prelink_vmaddr = 0, file_buf_size = 0, sym_buf = 0, sym_buf_ro = False, sym_fileoff = 0, sym_size = 0,
      symboltable_fileoff = 0, symboltable_nr_symbols = 0, stringtable_fileoff = 0,
      stringtable_size = 0, running_mh = 0, address_slots = 0, address_slots_end = 0,
      fat_offset = 0, memory_size = HeaderSize, kaslr_slide_set = False, allow_decompress = True,
      prelink_slid = False, kernel_collection = False, self_uuid = (0, 0), isKernel = asKernel,
      objectId = ident\<rparr>"

section \<open>Walking the load commands\<close>

text \<open>
  The checked walk over the load commands that \<open>findKernelBase\<close>, \<open>getRunningAddresses\<close> and
  \<open>getUUID\<close> share: stop at the first command that is wanted, or at one that is misaligned or
  leaves the header.
\<close>

datatype walk = Malformed | NotFound | Found addr

definition cmd_invalid :: "memory \<Rightarrow> addr \<Rightarrow> addr \<Rightarrow> bool" where
  "cmd_invalid m endaddr a \<longleftrightarrow>
     \<not> isAligned a \<or> endaddr < a + sizeof_load_command \<or> endaddr < a + lc_cmdsize m a"

primrec find_cmd :: "(addr \<Rightarrow> bool) \<Rightarrow> memory \<Rightarrow> addr \<Rightarrow> nat \<Rightarrow> addr \<Rightarrow> walk" where
  "find_cmd want m endaddr 0 a = NotFound"
| "find_cmd want m endaddr (Suc n) a =
     (if cmd_invalid m endaddr a then Malformed
      else if want a then Found a
      else find_cmd want m endaddr n (a + lc_cmdsize m a))"

definition walk_header :: "(addr \<Rightarrow> bool) \<Rightarrow> memory \<Rightarrow> addr \<Rightarrow> walk" where
  "walk_header want m h =
     find_cmd want m (h + HeaderSize) (unat (mh_ncmds m h)) (h + sizeof_mach_header)"

definition is_segment :: "string \<Rightarrow> memory \<Rightarrow> addr \<Rightarrow> bool" where
  "is_segment name m c \<longleftrightarrow> lc_cmd m c = LC_SEGMENT_64 \<and> strncmp_eq m (seg_name c) name 16"

section \<open>The kernel base\<close>

definition is_collection :: "kern_env \<Rightarrow> memory \<Rightarrow> addr \<Rightarrow> bool" where
  "is_collection env m h \<longleftrightarrow> BigSur \<le> version_major env \<and> mh_filetype m h = MH_FILESET \<and>
     mh_flags m h = 0 \<and> mh_reserved m h = 0"

definition is_kernel_header :: "memory \<Rightarrow> addr \<Rightarrow> bool" where
  "is_kernel_header m h \<longleftrightarrow> (case walk_header (is_segment ''__TEXT'' m) m h of Found _ \<Rightarrow> True | _ \<Rightarrow> False)"

definition base_step :: "kern_env \<Rightarrow> u64" where
  "base_step env = (if SnowLeopard \<le> version_major env then KASLRAlignment else 4096)"

partial_function (option) kernel_base_loop :: "kern_env \<Rightarrow> memory \<Rightarrow> addr \<Rightarrow> (addr \<times> bool) option" where
  "kernel_base_loop env m tmp =
     (if mh_magic m tmp = MH_MAGIC_64 \<and> is_collection env m tmp then Some (tmp, True)
      else if mh_magic m tmp = MH_MAGIC_64 \<and> is_kernel_header m tmp then Some (tmp, False)
      else kernel_base_loop env m (tmp - base_step env))"

declare kernel_base_loop.simps [code]

definition findKernelBase :: "kern_env \<Rightarrow> machine \<Rightarrow> mach_info \<Rightarrow> (addr \<times> machine \<times> mach_info) option" where
  "findKernelBase env mc info =
     (if m_kernel_base mc \<noteq> 0
      then Some (m_kernel_base mc, mc, info\<lparr>kernel_collection := m_kernel_collection mc\<rparr>)
      else do {
        (base, kc) \<leftarrow> kernel_base_loop env (mem mc) (IOLog env AND NOT (KASLRAlignment - 1));
        let mc1 = (if kc then mc\<lparr>m_kernel_collection := True\<rparr> else mc);
        let info1 = (if kc then info\<lparr>kernel_collection := True\<rparr> else info);
        Some (base, mc1\<lparr>m_kernel_base := base\<rparr>, info1)
      })"

section \<open>Address slots\<close>

definition getAddressSlots :: "memory \<Rightarrow> addr \<Rightarrow> addr \<Rightarrow> mach_info \<Rightarrow> kern_return \<times> mach_info" where
  "getAddressSlots m hdr segment info =
     (let sect = segment + sizeof_segment_command;
          cmdsend = hdr + sizeof_mach_header + ucast (mh_sizeofcmds m hdr) in
      if seg_nsects m segment = 0 then (KERN_FAILURE, info)
      else if sect_addr m sect < cmdsend then (KERN_FAILURE, info)
      else
        (let info1 = info\<lparr>address_slots := cmdsend, address_slots_end := sect_addr m sect\<rparr>;
             lastsect = sect + of_nat (unat (seg_nsects m segment) - 1) * sizeof_section;
             last_slot_start = sect_addr m lastsect + sect_size m lastsect;
             last_slot_end = seg_vmaddr m segment + seg_vmsize m segment
         in if last_slot_start > seg_vmaddr m segment \<and>
               last_slot_end - last_slot_start > address_slots_end info1 - address_slots info1
            then (KERN_SUCCESS, info1\<lparr>address_slots := last_slot_start, address_slots_end := last_slot_end\<rparr>)
            else (KERN_SUCCESS, info1)))"

definition getAddressSlot :: "mach_info \<Rightarrow> addr \<times> mach_info" where
  "getAddressSlot info =
     (if address_slots info \<noteq> 0 \<and> address_slots info + 8 \<le> address_slots_end info
      then (address_slots info, info\<lparr>address_slots := address_slots info + 8\<rparr>)
      else (0, info))"

section \<open>Running addresses\<close>

text \<open>The unchecked walk over the outer header of a kernel collection.\<close>

primrec kc_find_inner :: "memory \<Rightarrow> nat \<Rightarrow> addr \<Rightarrow> addr" where
  "kc_find_inner m 0 a = 0"
| "kc_find_inner m (Suc n) a =
     (if is_segment ''__TEXT_EXEC'' m a then seg_vmaddr m a
      else kc_find_inner m n (a + lc_cmdsize m a))"

text \<open>One load command of the inner image: slots, symbols, and the end of the image so far.\<close>

definition kc_command :: "memory \<Rightarrow> addr \<Rightarrow> addr \<Rightarrow> addr \<Rightarrow> addr \<times> mach_info \<Rightarrow> addr \<times> mach_info" where
  "kc_command m inner slide a st =
     (case st of (last_addr, info) \<Rightarrow>
      (if lc_cmd m a = LC_SEGMENT_64 then
         (let info1 = (if strncmp_eq m (seg_name a) ''__TEXT'' 16 \<and> (slide \<noteq> 0 \<or> isKernel info)
                       then snd (getAddressSlots m inner a info) else info) in
          if sym_buf info1 = 0 \<and> strncmp_eq m (seg_name a) ''__LINKEDIT'' 16 then
            (last_addr, info1\<lparr>sym_buf := seg_vmaddr m a, sym_fileoff := seg_fileoff m a,
                sym_size := seg_vmsize m a, sym_buf_ro := True\<rparr>)
          else if seg_vmaddr m a + seg_vmsize m a > last_addr then
            (seg_vmaddr m a + seg_vmsize m a, info1)
          else (last_addr, info1))
       else if symboltable_fileoff info = 0 \<and> lc_cmd m a = LC_SYMTAB then
         (last_addr, info\<lparr>symboltable_fileoff := sym_symoff m a,
             symboltable_nr_symbols := sym_nsyms m a, stringtable_fileoff := sym_stroff m a\<rparr>)
       else (last_addr, info)))"

primrec kc_walk :: "memory \<Rightarrow> addr \<Rightarrow> addr \<Rightarrow> nat \<Rightarrow> addr \<Rightarrow> addr \<times> mach_info \<Rightarrow> addr \<times> mach_info" where
  "kc_walk m inner slide 0 a st = st"
| "kc_walk m inner slide (Suc n) a st =
     kc_walk m inner slide n (a + lc_cmdsize m a) (kc_command m inner slide a st)"

definition kc_image :: "memory \<Rightarrow> addr \<Rightarrow> addr \<Rightarrow> mach_info \<Rightarrow> kern_return \<times> mach_info" where
  "kc_image m inner slide info =
     (let (last_addr, info1) = kc_walk m inner slide (unat (mh_ncmds m inner))
            (inner + sizeof_mach_header) (0, info) in
      if sym_buf info1 = 0 \<or> symboltable_fileoff info1 = 0 then (KERN_FAILURE, info1)
      else if last_addr < inner then (KERN_FAILURE, info1)
      else (KERN_SUCCESS, info1\<lparr>kaslr_slide_set := True, prelink_slid := True, running_mh := inner,
              memory_size := last_addr - inner\<rparr>))"

definition kcGetRunningAddresses :: "kern_env \<Rightarrow> addr \<Rightarrow> machine \<Rightarrow> mach_info
    \<Rightarrow> (kern_return \<times> machine \<times> mach_info) option" where
  "kcGetRunningAddresses env slide mc info = do {
     (base, mc1, info1) \<leftarrow> (if slide \<noteq> 0 then Some (slide, mc, info) else findKernelBase env mc info);
     if base = 0 then Some (KERN_FAILURE, mc1, info1)
     else do {
       let m = mem mc1;
       let inner = (if isKernel info1
                    then kc_find_inner m (unat (mh_ncmds m base)) (base + sizeof_mach_header)
                    else base);
       if inner = 0 then Some (KERN_FAILURE, mc1, info1)
       else (let (r, info2) = kc_image m inner slide info1 in Some (r, mc1, info2))
     }
   }"

definition running_reset :: "bool \<Rightarrow> mach_info \<Rightarrow> mach_info" where
  "running_reset force info =
     (if force then info\<lparr>kaslr_slide_set := False, running_mh := 0, running_text_addr := 0,
                         memory_size := 0\<rparr>
      else info)"

text \<open>The \<open>__TEXT\<close> command of the running image; \<open>None\<close> is the early failure return.\<close>

definition running_text :: "memory \<Rightarrow> addr \<Rightarrow> mach_info \<Rightarrow> mach_info option" where
  "running_text m base info =
     (if base = 0 then Some info
      else case walk_header (is_segment ''__TEXT'' m) m base of
             Malformed \<Rightarrow> None
           | NotFound \<Rightarrow> Some info
           | Found c \<Rightarrow> Some (snd (getAddressSlots m base c
                 (info\<lparr>running_text_addr := seg_vmaddr m c, running_mh := base\<rparr>))))"

definition running_slide :: "addr \<Rightarrow> mach_info \<Rightarrow> kern_return \<times> mach_info" where
  "running_slide slide info =
     (if running_text_addr info \<noteq> 0 \<and> running_mh info \<noteq> 0 then
        (KERN_SUCCESS,
         info\<lparr>kaslr_slide := (if slide = 0 then running_text_addr info - disk_text_addr info
                              else if prelink_slid info then prelink_vmaddr info else slide),
              kaslr_slide_set := True\<rparr>)
      else (KERN_FAILURE, info))"

definition getRunningAddresses :: "kern_env \<Rightarrow> addr \<Rightarrow> u64 \<Rightarrow> bool \<Rightarrow> machine \<Rightarrow> mach_info
    \<Rightarrow> (kern_return \<times> machine \<times> mach_info) option" where
  "getRunningAddresses env slide sz force mc info0 =
     (let info1 = running_reset force info0 in
      if kaslr_slide_set info1 then Some (KERN_SUCCESS, mc, info1)
      else do {
        let info2 = (if sz > 0 then info1\<lparr>memory_size := sz\<rparr> else info1);
        (base, mc1, info3) \<leftarrow> (if slide \<noteq> 0 then Some (slide, mc, info2) else findKernelBase env mc info2);
        if kernel_collection info3 \<and> sym_buf info3 = 0
        then kcGetRunningAddresses env slide mc1 info3
        else (case running_text (mem mc1) base info3 of
                None \<Rightarrow> Some (KERN_FAILURE, mc1, info3)
              | Some info4 \<Rightarrow> (let (r, info5) = running_slide slide info4 in Some (r, mc1, info5)))
      })"

definition setRunningAddresses :: "addr \<Rightarrow> u64 \<Rightarrow> mach_info \<Rightarrow> kern_return \<times> mach_info" where
  "setRunningAddresses slide sz info =
     (KERN_SUCCESS, info\<lparr>memory_size := sz, kaslr_slide := slide, kaslr_slide_set := True\<rparr>)"

definition getRunningPosition :: "mach_info \<Rightarrow> addr \<times> u64" where
  "getRunningPosition info =
     (running_mh info, if memory_size info > 0 then memory_size info else HeaderSize)"

section \<open>Identity of the image\<close>

definition getUUID :: "memory \<Rightarrow> addr \<Rightarrow> addr" where
  "getUUID m header =
     (if header = 0 then 0
      else case walk_header (\<lambda>c. lc_cmd m c = LC_UUID) m header of Found c \<Rightarrow> c + 8 | _ \<Rightarrow> 0)"

definition loadUUID :: "kern_env \<Rightarrow> memory \<Rightarrow> addr \<Rightarrow> mach_info \<Rightarrow> bool \<times> mach_info" where
  "loadUUID env m header info =
     (if version_major env < Leopard then (True, info)
      else let p = getUUID m header in
           if p \<noteq> 0 then (True, info\<lparr>self_uuid := (load64 m p, load64 m (p + 8))\<rparr>) else (False, info))"

definition isCurrentBinary :: "kern_env \<Rightarrow> addr \<Rightarrow> machine \<Rightarrow> mach_info
    \<Rightarrow> (bool \<times> machine \<times> mach_info) option" where
  "isCurrentBinary env base mc info =
     (if kernel_collection info then Some (True, mc, info)
      else if version_major env < Leopard then Some (True, mc, info)
      else do {
        (b, mc1, info1) \<leftarrow> (if base \<noteq> 0 then Some (base, mc, info) else findKernelBase env mc info);
        let u = (if b \<noteq> 0 then getUUID (mem mc1) b else 0);
        Some (u \<noteq> 0 \<and> self_uuid info1 = (load64 (mem mc1) u, load64 (mem mc1) (u + 8)), mc1, info1)
      })"

section \<open>Symbols\<close>

definition header_command :: "memory \<Rightarrow> addr \<Rightarrow> mach_info \<Rightarrow> mach_info" where
  "header_command m a info =
     (if lc_cmd m a = LC_SEGMENT_64 then
        (if strncmp_eq m (seg_name a) ''__TEXT'' 16 then info\<lparr>disk_text_addr := seg_vmaddr m a\<rparr>
         else if strncmp_eq m (seg_name a) ''__LINKEDIT'' 16
         then info\<lparr>sym_fileoff := seg_fileoff m a, sym_size := seg_filesize m a\<rparr>
         else info)
      else if lc_cmd m a = LC_SYMTAB then
        info\<lparr>symboltable_fileoff := sym_symoff m a, symboltable_nr_symbols := sym_nsyms m a,
             stringtable_fileoff := sym_stroff m a, stringtable_size := sym_strsize m a\<rparr>
      else info)"

primrec header_walk :: "memory \<Rightarrow> addr \<Rightarrow> nat \<Rightarrow> addr \<Rightarrow> mach_info \<Rightarrow> mach_info" where
  "header_walk m endaddr 0 a info = info"
| "header_walk m endaddr (Suc n) a info =
     (if cmd_invalid m endaddr a then info
      else header_walk m endaddr n (a + lc_cmdsize m a) (header_command m a info))"

definition processMachHeader :: "memory \<Rightarrow> addr \<Rightarrow> mach_info \<Rightarrow> mach_info" where
  "processMachHeader m header info =
     header_walk m (header + HeaderSize) (unat (mh_ncmds m header)) (header + sizeof_mach_header) info"

text \<open>The scan of the symbol table for \<open>symbol\<close>, with the bounds checks of the code.\<close>

primrec symbol_scan :: "memory \<Rightarrow> mach_info \<Rightarrow> addr \<Rightarrow> addr \<Rightarrow> string \<Rightarrow> nat \<Rightarrow> addr \<Rightarrow> addr" where
  "symbol_scan m info strlist endaddr symbol 0 nl = 0"
| "symbol_scan m info strlist endaddr symbol (Suc n) nl =
     (if nl + sizeof_nlist \<le> endaddr then
        (let symbolStr = strlist + n_strx m nl; symlen = length symbol + 1 in
         if symbolStr + of_nat symlen \<le> endaddr \<and> n_type m nl AND N_STAB = 0 \<and>
            strncmp_eq m symbolStr symbol symlen
         then n_value m nl + kaslr_slide info
         else symbol_scan m info strlist endaddr symbol n (nl + sizeof_nlist))
      else 0)"

definition solveSymbol :: "memory \<Rightarrow> mach_info \<Rightarrow> string \<Rightarrow> addr" where
  "solveSymbol m info symbol =
     (if sym_buf info = 0 then 0
      else if symboltable_fileoff info = 0 then 0
      else if \<not> kaslr_slide_set info then 0
      else
        (let nl = sym_buf info + (ucast (symboltable_fileoff info) - sym_fileoff info);
             strlist = sym_buf info + (ucast (stringtable_fileoff info) - sym_fileoff info);
             endaddr = sym_buf info + sym_size info
         in if sym_buf info \<le> nl \<and> sym_buf info \<le> strlist
            then symbol_scan m info strlist endaddr symbol (unat (symboltable_nr_symbols info)) nl
            else 0))"

definition freeFileBufferResources :: "mach_info \<Rightarrow> mach_info" where
  "freeFileBufferResources info = info\<lparr>file_buf := 0, prelink_dict := None\<rparr>"

definition MachInfo_deinit :: "mach_info \<Rightarrow> mach_info" where
  "MachInfo_deinit info = (freeFileBufferResources info)\<lparr>sym_buf := 0\<rparr>"

section \<open>Strings and walks\<close>

lemma strncmp_eq_full:
  "strncmp_eq m a s (Suc (length s)) \<longleftrightarrow> read_bytes m a (Suc (length s)) = map of_char s @ [0]"
  by (induction s arbitrary: a) auto

lemma strncmp_eq_room:
  "length s < n \<Longrightarrow> strncmp_eq m a s n \<longleftrightarrow> read_bytes m a (Suc (length s)) = map of_char s @ [0]"
proof (induction s arbitrary: a n)
  case Nil
  then show ?case by (cases n) auto
next
  case (Cons c cs)
  then show ?case by (cases n) auto
qed

text \<open>The \<open>n\<close>-th load command behind \<open>a\<close>.\<close>

primrec nth_cmd :: "memory \<Rightarrow> addr \<Rightarrow> nat \<Rightarrow> addr" where
  "nth_cmd m a 0 = a"
| "nth_cmd m a (Suc k) = nth_cmd m (a + lc_cmdsize m a) k"

lemma find_cmd_Found:
  "find_cmd want m endaddr n a = Found c \<Longrightarrow>
     \<exists>k<n. c = nth_cmd m a k \<and> want c \<and> \<not> cmd_invalid m endaddr c \<and>
           (\<forall>j<k. \<not> want (nth_cmd m a j) \<and> \<not> cmd_invalid m endaddr (nth_cmd m a j))"
proof (induction n arbitrary: a)
  case (Suc n)
  show ?case
  proof (cases "cmd_invalid m endaddr a \<or> want a")
    case True
    then show ?thesis using Suc.prems by (intro exI [of _ 0]) (auto split: if_splits)
  next
    case False
    then have "find_cmd want m endaddr n (a + lc_cmdsize m a) = Found c" using Suc.prems by simp
    from Suc.IH [OF this] obtain k where k: "k < n" "c = nth_cmd m (a + lc_cmdsize m a) k" "want c"
      "\<not> cmd_invalid m endaddr c" "\<forall>j<k. \<not> want (nth_cmd m (a + lc_cmdsize m a) j) \<and>
         \<not> cmd_invalid m endaddr (nth_cmd m (a + lc_cmdsize m a) j)" by blast
    then show ?thesis using False
      by (intro exI [of _ "Suc k"]) (auto simp: less_Suc_eq_0_disj)
  qed
qed simp

lemma find_cmd_hit:
  "k < n \<Longrightarrow> want (nth_cmd m a k) \<Longrightarrow> \<forall>j\<le>k. \<not> cmd_invalid m endaddr (nth_cmd m a j) \<Longrightarrow>
     \<forall>j<k. \<not> want (nth_cmd m a j) \<Longrightarrow> find_cmd want m endaddr n a = Found (nth_cmd m a k)"
proof (induction k arbitrary: n a)
  case 0
  then show ?case by (cases n) auto
next
  case (Suc k)
  then obtain n' where n: "n = Suc n'" by (cases n) auto
  have "\<not> cmd_invalid m endaddr a" "\<not> want a" using Suc.prems(3,4) by (metis le0 nth_cmd.simps(1), metis zero_less_Suc nth_cmd.simps(1))
  moreover have "find_cmd want m endaddr n' (a + lc_cmdsize m a) = Found (nth_cmd m (a + lc_cmdsize m a) k)"
    using Suc.prems n by (intro Suc.IH) (auto simp: Suc_le_eq dest: spec [of _ "Suc _"])
  ultimately show ?case using n by simp
qed

section \<open>The kernel base search\<close>

definition is_base :: "kern_env \<Rightarrow> memory \<Rightarrow> addr \<Rightarrow> bool" where
  "is_base env m h \<longleftrightarrow> mh_magic m h = MH_MAGIC_64 \<and> (is_collection env m h \<or> is_kernel_header m h)"

lemma kernel_base_loop_base:
  "is_base env m t \<Longrightarrow> kernel_base_loop env m t = Some (t, is_collection env m t)"
  by (subst kernel_base_loop.simps) (auto simp: is_base_def)

lemma kernel_base_loop_next:
  "\<not> is_base env m t \<Longrightarrow> kernel_base_loop env m t = kernel_base_loop env m (t - base_step env)"
  by (subst kernel_base_loop.simps) (auto simp: is_base_def)

text \<open>The search returns as soon as there is a header at one of the probed addresses.\<close>

lemma kernel_base_loop_returns:
  "is_base env m (t - of_nat k * base_step env) \<Longrightarrow>
     (\<And>j. j < k \<Longrightarrow> \<not> is_base env m (t - of_nat j * base_step env)) \<Longrightarrow>
     kernel_base_loop env m t =
       Some (t - of_nat k * base_step env, is_collection env m (t - of_nat k * base_step env))"
proof (induction k arbitrary: t)
  case 0
  then show ?case by (simp add: kernel_base_loop_base)
next
  case (Suc k)
  have eq: "t - of_nat (Suc j) * base_step env = t - base_step env - of_nat j * base_step env" for j
    by (simp add: algebra_simps)
  have "\<not> is_base env m t" using Suc.prems(2) [of 0] by simp
  then have "kernel_base_loop env m t = kernel_base_loop env m (t - base_step env)"
    by (rule kernel_base_loop_next)
  also have "\<dots> = Some (t - of_nat (Suc k) * base_step env,
      is_collection env m (t - of_nat (Suc k) * base_step env))"
    unfolding eq
  proof (rule Suc.IH)
    show "is_base env m (t - base_step env - of_nat k * base_step env)"
      using Suc.prems(1) unfolding eq .
    show "\<not> is_base env m (t - base_step env - of_nat j * base_step env)" if "j < k" for j
      using Suc.prems(2) [of "Suc j"] that unfolding eq by simp
  qed
  finally show ?case .
qed

lemma kernel_base_loop_sound:
  assumes "kernel_base_loop env m t = Some r"
  shows "is_base env m (fst r) \<and> (snd r \<longleftrightarrow> is_collection env m (fst r))"
  using assms
  by (rule kernel_base_loop.raw_induct
        [of "\<lambda>env m t r. is_base env m (fst r) \<and> (snd r \<longleftrightarrow> is_collection env m (fst r))", rotated])
     (auto simp: is_base_def split: if_splits)

section \<open>Address slots\<close>

lemma getAddressSlot_ok:
  assumes "getAddressSlot info = (slot, info')" and "slot \<noteq> 0"
    and "address_slots info \<le> address_slots info + 8"
  shows "slot = address_slots info \<and> slot + 8 = address_slots info' \<and>
    address_slots_end info' = address_slots_end info \<and> address_slots info' \<le> address_slots_end info'"
  using assms by (auto simp: getAddressSlot_def split: if_splits)

lemma getAddressSlot_none:
  "getAddressSlot info = (0, info') \<Longrightarrow> info' = info"
  by (auto simp: getAddressSlot_def split: if_splits)

text \<open>The first gap is the one between the load commands and the first section.\<close>

lemma getAddressSlots_region:
  assumes "getAddressSlots m hdr seg info = (KERN_SUCCESS, info')"
  shows "(address_slots info' = hdr + sizeof_mach_header + ucast (mh_sizeofcmds m hdr) \<and>
          address_slots_end info' = sect_addr m (seg + sizeof_segment_command) \<and>
          address_slots info' \<le> address_slots_end info') \<or>
         (\<exists>sect. address_slots info' = sect_addr m sect + sect_size m sect \<and>
          address_slots_end info' = seg_vmaddr m seg + seg_vmsize m seg \<and>
          seg_vmaddr m seg < address_slots info')"
  using assms by (auto simp: getAddressSlots_def Let_def split: if_splits)

section \<open>Symbol lookup\<close>

definition symbol_entry :: "memory \<Rightarrow> addr \<Rightarrow> addr \<Rightarrow> string \<Rightarrow> addr \<Rightarrow> bool" where
  "symbol_entry m strlist endaddr symbol nl \<longleftrightarrow>
     strlist + n_strx m nl + of_nat (length symbol + 1) \<le> endaddr \<and> n_type m nl AND N_STAB = 0 \<and>
     read_bytes m (strlist + n_strx m nl) (Suc (length symbol)) = map of_char symbol @ [0]"

definition nth_nlist :: "addr \<Rightarrow> nat \<Rightarrow> addr" where
  "nth_nlist nl k = nl + of_nat k * sizeof_nlist"

lemma nth_nlist_simps [simp]: "nth_nlist nl 0 = nl" "nth_nlist (nl + sizeof_nlist) k = nth_nlist nl (Suc k)"
  by (simp_all add: nth_nlist_def algebra_simps)

lemma symbol_scan_Suc:
  "symbol_scan m info strlist endaddr symbol (Suc n) nl =
     (if endaddr < nl + sizeof_nlist then 0
      else if symbol_entry m strlist endaddr symbol nl then n_value m nl + kaslr_slide info
      else symbol_scan m info strlist endaddr symbol n (nl + sizeof_nlist))"
  by (simp add: symbol_entry_def strncmp_eq_full Let_def not_less [symmetric])

declare symbol_scan.simps(2) [simp del]

lemma symbol_scan_hit:
  "k < n \<Longrightarrow> symbol_entry m strlist endaddr symbol (nth_nlist nl k) \<Longrightarrow>
     (\<And>j. j < k \<Longrightarrow> \<not> symbol_entry m strlist endaddr symbol (nth_nlist nl j)) \<Longrightarrow>
     (\<And>j. j \<le> k \<Longrightarrow> nth_nlist nl j + sizeof_nlist \<le> endaddr) \<Longrightarrow>
     symbol_scan m info strlist endaddr symbol n nl = n_value m (nth_nlist nl k) + kaslr_slide info"
proof (induction k arbitrary: n nl)
  case 0
  then obtain n' where "n = Suc n'" by (cases n) auto
  then show ?case using 0 0(4) [of 0] by (auto simp: symbol_scan_Suc)
next
  case (Suc k)
  then obtain n' where n: "n = Suc n'" by (cases n) auto
  have "symbol_scan m info strlist endaddr symbol n' (nl + sizeof_nlist) =
      n_value m (nth_nlist (nl + sizeof_nlist) k) + kaslr_slide info"
    using Suc.prems n by (intro Suc.IH) simp_all
  then show ?case using n Suc.prems(3) [of 0] Suc.prems(4) [of 0] by (auto simp: symbol_scan_Suc)
qed

lemma symbol_scan_sound:
  "symbol_scan m info strlist endaddr symbol n nl = v \<Longrightarrow> v \<noteq> 0 \<Longrightarrow>
     \<exists>k<n. symbol_entry m strlist endaddr symbol (nth_nlist nl k) \<and>
           v = n_value m (nth_nlist nl k) + kaslr_slide info"
proof (induction n arbitrary: nl)
  case (Suc n)
  show ?case
  proof (cases "symbol_entry m strlist endaddr symbol nl")
    case True
    then show ?thesis using Suc.prems by (intro exI [of _ 0]) (auto simp: symbol_scan_Suc split: if_splits)
  next
    case False
    then have "symbol_scan m info strlist endaddr symbol n (nl + sizeof_nlist) = v"
      using Suc.prems by (auto simp: symbol_scan_Suc split: if_splits)
    from Suc.IH [OF this Suc.prems(2)] show ?thesis by auto
  qed
qed simp

section \<open>Properties\<close>

lemma symbol_scan_absent:
  "(\<And>k. k < n \<Longrightarrow> \<not> symbol_entry m strlist endaddr symbol (nth_nlist nl k)) \<Longrightarrow>
     symbol_scan m info strlist endaddr symbol n nl = 0"
proof (induction n arbitrary: nl)
  case (Suc n)
  have "symbol_scan m info strlist endaddr symbol n (nl + sizeof_nlist) = 0"
    using Suc.prems by (intro Suc.IH) (metis Suc_less_eq nth_nlist_simps(2))
  then show ?case using Suc.prems [of 0] by (simp add: symbol_scan_Suc)
qed simp

text \<open>The tables of a symbol lookup: first entry, strings, end.\<close>

definition symtab_entry :: "mach_info \<Rightarrow> nat \<Rightarrow> addr" where
  "symtab_entry info k = nth_nlist (sym_buf info + (ucast (symboltable_fileoff info) - sym_fileoff info)) k"

definition symtab_names :: "memory \<Rightarrow> mach_info \<Rightarrow> string \<Rightarrow> nat \<Rightarrow> bool" where
  "symtab_names m info symbol k \<longleftrightarrow>
     symbol_entry m (sym_buf info + (ucast (stringtable_fileoff info) - sym_fileoff info))
       (sym_buf info + sym_size info) symbol (symtab_entry info k)"

definition symtab_ready :: "mach_info \<Rightarrow> bool" where
  "symtab_ready info \<longleftrightarrow> sym_buf info \<noteq> 0 \<and> symboltable_fileoff info \<noteq> 0 \<and> kaslr_slide_set info \<and>
     sym_buf info \<le> sym_buf info + (ucast (symboltable_fileoff info) - sym_fileoff info) \<and>
     sym_buf info \<le> sym_buf info + (ucast (stringtable_fileoff info) - sym_fileoff info)"

text \<open>
  C20. \<open>solveSymbol\<close> on an image whose tables were loaded: the value of the first table entry that has
  exactly the wanted name and is no debugging entry, slid by the KASLR offset, provided the table up to
  it lies in the symbol buffer; and 0 when no entry has that name.
\<close>

theorem solveSymbol_first:
  assumes "symtab_ready info"
  shows "(\<forall>k < unat (symboltable_nr_symbols info). symtab_names m info symbol k \<and>
       (\<forall>j < k. \<not> symtab_names m info symbol j) \<and>
       (\<forall>j \<le> k. symtab_entry info j + sizeof_nlist \<le> sym_buf info + sym_size info) \<longrightarrow>
       solveSymbol m info symbol = n_value m (symtab_entry info k) + kaslr_slide info) \<and>
    ((\<forall>k < unat (symboltable_nr_symbols info). \<not> symtab_names m info symbol k) \<longrightarrow> solveSymbol m info symbol = 0)"
proof -
  let ?n = "unat (symboltable_nr_symbols info)"
  let ?nl = "sym_buf info + (ucast (symboltable_fileoff info) - sym_fileoff info)"
  let ?str = "sym_buf info + (ucast (stringtable_fileoff info) - sym_fileoff info)"
  have eq: "solveSymbol m info symbol = symbol_scan m info ?str (sym_buf info + sym_size info) symbol ?n ?nl"
    using assms by (simp add: solveSymbol_def symtab_ready_def Let_def)
  show ?thesis unfolding eq symtab_names_def symtab_entry_def
    using symbol_scan_hit [of _ ?n m ?str "sym_buf info + sym_size info" symbol ?nl info]
      symbol_scan_absent [of ?n m ?str "sym_buf info + sym_size info" symbol ?nl info] by blast
qed

text \<open>A symbol buffer at 0x1000 with one entry, named \<open>_f\<close>, and a string table at 0x1010.\<close>

definition one_symbol :: memory where
  "one_symbol = write_bytes (\<lambda>_. 0) 0x1000
     ([0x01, 0, 0, 0, 0x0F, 0x01, 0, 0] @ le_bytes 8 (0x500 :: u64) @ [0, 0x5F, 0x66, 0])"

definition one_symbol_info :: mach_info where
  "one_symbol_info = (MachInfo_create False None)\<lparr>sym_buf := 0x1000, sym_fileoff := 0x100, sym_size := 0x20,
     symboltable_fileoff := 0x100, symboltable_nr_symbols := 1, stringtable_fileoff := 0x110, kaslr_slide := 0x2000,
     kaslr_slide_set := True\<rparr>"

theorem solveSymbol_first_witness:
  "solveSymbol one_symbol one_symbol_info ''_f'' = 0x2500 \<and> solveSymbol one_symbol one_symbol_info ''_g'' = 0"
proof -
  have r: "symtab_ready one_symbol_info" by code_simp
  have f: "symtab_names one_symbol one_symbol_info ''_f'' 0" "\<not> symtab_names one_symbol one_symbol_info ''_g'' 0"
    "symtab_entry one_symbol_info 0 + sizeof_nlist \<le> sym_buf one_symbol_info + sym_size one_symbol_info"
    "n_value one_symbol (symtab_entry one_symbol_info 0) + kaslr_slide one_symbol_info = 0x2500" by code_simp+
  have n: "unat (symboltable_nr_symbols one_symbol_info) = 1" by (simp add: one_symbol_info_def)
  show ?thesis using solveSymbol_first [OF r, of one_symbol "''_f''"] solveSymbol_first [OF r, of one_symbol "''_g''"] f n by simp
qed

text \<open>The addresses the search for the kernel base looks at.\<close>

definition base_probe :: "kern_env \<Rightarrow> nat \<Rightarrow> addr" where
  "base_probe env j = (IOLog env AND NOT (KASLRAlignment - 1)) - of_nat j * base_step env"

text \<open>
  C22. The search for the kernel base returns as soon as one of the addresses it probes holds a kernel or
  kernel collection header: the result is the first such address, the answer is remembered, and asking
  again gives it at once.
\<close>

theorem findKernelBase_finds:
  assumes "m_kernel_base mc = 0" and "is_base env (mem mc) (base_probe env k)"
    and "\<And>j. j < k \<Longrightarrow> \<not> is_base env (mem mc) (base_probe env j)" and "base_probe env k \<noteq> 0"
  shows "\<exists>mc' info'. findKernelBase env mc info = Some (base_probe env k, mc', info') \<and> mem mc' = mem mc \<and>
    (kernel_collection info' \<longleftrightarrow> kernel_collection info \<or> is_collection env (mem mc) (base_probe env k)) \<and>
    (\<forall>env2 info2. \<exists>info3. findKernelBase env2 mc' info2 = Some (base_probe env k, mc', info3))"
proof -
  have "kernel_base_loop env (mem mc) (IOLog env AND NOT (KASLRAlignment - 1)) =
      Some (base_probe env k, is_collection env (mem mc) (base_probe env k))"
    using kernel_base_loop_returns assms(2,3) unfolding base_probe_def by blast
  then show ?thesis using assms(1,4) by (auto simp: findKernelBase_def)
qed

text \<open>A Big Sur kernel whose collection header is one step below \<open>IOLog\<close>.\<close>

definition kc_env :: kern_env where
  "kc_env = \<lparr>version_major = 20, version_minor = 0, IOLog = 0x312345, boot_arg_str = (\<lambda>_ _. None), boot_arg_int = (\<lambda>_. None),
     checkKernelArgument = (\<lambda>_. False), has_credential = True, vnode_lookup = (\<lambda>_. None), vnode_read = (\<lambda>_ _ _. None),
     allowDecompress = True, decompress_zlib = (\<lambda>_ _. []), stack_junk = (\<lambda>_. 0), dead_array = (\<lambda>bs. bs),
     OSUnserializeXML = (\<lambda>_. None)\<rparr>"

definition kc_memory :: memory where
  "kc_memory = write_bytes (write_bytes (\<lambda>_. 0) 0x200000 [0xCF, 0xFA, 0xED, 0xFE]) 0x20000C [0x0C]"

theorem findKernelBase_finds_witness:
  "\<exists>mc' info'. findKernelBase kc_env (bare_machine kc_memory) (MachInfo_create True None) = Some (0x200000, mc', info') \<and>
     kernel_collection info'"
proof -
  have p: "base_probe kc_env 1 = 0x200000" "\<not> is_base kc_env kc_memory (base_probe kc_env 0)"
    "is_base kc_env kc_memory (base_probe kc_env 1)" "is_collection kc_env kc_memory (base_probe kc_env 1)" by code_simp+
  have "m_kernel_base (bare_machine kc_memory) = 0" by (simp add: bare_machine_def)
  then show ?thesis using findKernelBase_finds [of "bare_machine kc_memory" kc_env 1 "MachInfo_create True None"] p by auto
qed

text \<open>The first \<open>n\<close> slots handed out.\<close>

primrec take_slots :: "nat \<Rightarrow> mach_info \<Rightarrow> addr list" where
  "take_slots 0 info = []"
| "take_slots (Suc n) info = (let (slot, info') = getAddressSlot info in slot # take_slots n info')"

text \<open>
  C23. Address slots are handed out one after the other, eight bytes each, from the region found by
  \<open>getAddressSlots\<close>, so that no two overlap and none leaves the region; once it is used up every
  further request gives 0.
\<close>

theorem getAddressSlot_disjoint:
  assumes "0 < address_slots info" and "address_slots info \<le> address_slots_end info" and "unat (address_slots_end info) + 8 < 2 ^ 64"
  shows "take_slots n info =
    (let k = min n ((unat (address_slots_end info) - unat (address_slots info)) div 8)
     in map (\<lambda>i. address_slots info + 8 * of_nat i) [0..<k] @ replicate (n - k) 0)"
  using assms
proof (induction n arbitrary: info)
  case (Suc n)
  let ?a = "address_slots info" and ?e = "address_slots_end info"
  have le: "unat ?a \<le> unat ?e" using Suc.prems(2) by (simp add: word_le_nat_alt)
  have u: "unat (?a + 8) = unat ?a + 8" using Suc.prems(3) le unat_plus_u64 [of ?a 8] by simp
  show ?case
  proof (cases "?a + 8 \<le> ?e")
    case True
    let ?i = "info\<lparr>address_slots := ?a + 8\<rparr>"
    have r: "unat ?a + 8 \<le> unat ?e" using True u by (simp add: word_le_nat_alt)
    then have d: "(unat ?e - unat ?a) div 8 = Suc ((unat ?e - (unat ?a + 8)) div 8)" by auto
    have "0 < ?a + 8" using u by (metis add_is_0 unat_0 word_neq_0_conv zero_neq_numeral)
    then have ih: "take_slots n ?i = (let k = min n ((unat ?e - (unat ?a + 8)) div 8)
        in map (\<lambda>i. ?a + 8 + 8 * of_nat i) [0..<k] @ replicate (n - k) 0)"
      using Suc.IH [of ?i] Suc.prems True u by simp
    have sh: "map (\<lambda>i. ?a + 8 * of_nat i) [0..<Suc k] = ?a # map (\<lambda>i. ?a + 8 + 8 * of_nat i) [0..<k]" for k
      by (simp add: map_upt_Suc algebra_simps del: upt_Suc)
    have "take_slots (Suc n) info = ?a # take_slots n ?i" using True Suc.prems(1) by (auto simp: getAddressSlot_def)
    then show ?thesis unfolding ih d Let_def min_Suc_Suc sh by simp
  next
    case False
    then have "unat ?e < unat ?a + 8" using u by (simp add: word_le_nat_alt not_le)
    then have z: "(unat ?e - unat ?a) div 8 = 0" by simp
    have "take_slots j info = replicate j 0" for j using False by (induction j) (simp_all add: getAddressSlot_def)
    then show ?thesis by (simp only: z min_0R Let_def) simp
  qed
qed simp

theorem getAddressSlot_disjoint_witness:
  "take_slots 3 ((MachInfo_create True None)\<lparr>address_slots := 0x1000, address_slots_end := 0x1014\<rparr>) = [0x1000, 0x1008, 0]"
  using getAddressSlot_disjoint [of "(MachInfo_create True None)\<lparr>address_slots := 0x1000, address_slots_end := 0x1014\<rparr>" 3]
  by (simp add: min_def upt_rec)

end
