(* ===== verification/Kern_Util.thy ===== *)
theory Kern_Util
  imports Prelude
begin

text \<open>
  The string and bit-field helpers of \<open>kern_util.cpp\<close> and \<open>Headers/kern_util.hpp\<close>. A C string
  is the list of its characters without the terminator, a position in it a number.
\<close>

section \<open>Strings\<close>

text \<open>The character \<open>needle[i]\<close>, with the terminator behind the end.\<close>

definition c_at :: "string \<Rightarrow> nat \<Rightarrow> char" where
  "c_at s i = (if i < length s then s ! i else CHR 0x00)"

text \<open>\<open>i\<close> characters of the needle are matched, \<open>pos\<close> is how far the stack pointer moved.\<close>

fun strstr_loop :: "string \<Rightarrow> nat \<Rightarrow> nat \<Rightarrow> nat \<Rightarrow> string \<Rightarrow> nat option" where
  "strstr_loop needle len i pos [] = None"
| "strstr_loop needle len i pos (c # stack) =
     (if c = c_at needle i then
        (if Suc i = len then Some (Suc pos - len) else strstr_loop needle len (Suc i) (Suc pos) stack)
      else strstr_loop needle len 0 (Suc pos) stack)"

definition strstr :: "string \<Rightarrow> string \<Rightarrow> nat \<Rightarrow> nat option" where
  "strstr stack needle len0 =
     (let len = (if len0 = 0 then length needle else len0)
      in if len = 0 then Some 0 else strstr_loop needle len 0 0 stack)"

fun strrchr_loop :: "char \<Rightarrow> nat \<Rightarrow> nat option \<Rightarrow> string \<Rightarrow> nat option" where
  "strrchr_loop ch pos r [] = (if ch = CHR 0x00 then Some pos else r)"
| "strrchr_loop ch pos r (c # cs) = strrchr_loop ch (Suc pos) (if c = ch then Some pos else r) cs"

definition strrchr :: "string option \<Rightarrow> char \<Rightarrow> nat option" where
  "strrchr stack ch = (case stack of None \<Rightarrow> None | Some s \<Rightarrow> strrchr_loop ch 0 None s)"

section \<open>Alignment, versions and bit fields\<close>

definition parseModuleVersion :: "string \<Rightarrow> int" where
  "parseModuleVersion v =
     (let digit = (\<lambda>i. int (of_char (c_at v i)) - 48) in digit 0 * 100 + digit 2 * 10 + digit 4)"

definition alignValue :: "u64 \<Rightarrow> u64 \<Rightarrow> u64" where
  "alignValue sz align = (sz + align - 1) AND NOT (align - 1)"

definition getBit :: "nat \<Rightarrow> 'a::len word" where
  "getBit n = push_bit n 1"

definition getBitMask :: "nat \<Rightarrow> nat \<Rightarrow> 'a::len word" where
  "getBitMask hi lo = (getBit hi OR (getBit hi - 1)) AND NOT (getBit lo - 1)"

definition getBitField :: "'a::len word \<Rightarrow> nat \<Rightarrow> nat \<Rightarrow> 'a word" where
  "getBitField so hi lo = drop_bit lo (so AND getBitMask hi lo)"

definition setBitField :: "'a::len word \<Rightarrow> nat \<Rightarrow> nat \<Rightarrow> 'a word" where
  "setBitField so hi lo = push_bit lo so AND getBitMask hi lo"

primrec findNotEquals :: "'a list \<Rightarrow> 'a \<Rightarrow> bool" where
  "findNotEquals [] v = False"
| "findNotEquals (x # xs) v = (if x \<noteq> v then True else findNotEquals xs v)"

section \<open>What they compute\<close>

text \<open>The invariant of the search: the last \<open>i\<close> characters read are the first \<open>i\<close> of the needle.\<close>

lemma strstr_loop_sound:
  "strstr_loop needle len i pos stack = Some p \<Longrightarrow> len \<le> length needle \<Longrightarrow> i < len \<Longrightarrow>
     length pre = pos \<Longrightarrow> i \<le> pos \<Longrightarrow> drop (pos - i) pre = take i needle \<Longrightarrow>
     p + len \<le> length (pre @ stack) \<and> take len (drop p (pre @ stack)) = take len needle"
proof (induction stack arbitrary: i pos pre)
  case (Cons c stack)
  show ?case
  proof (cases "c = c_at needle i")
    case True
    have nx: "drop (Suc pos - Suc i) (pre @ [c]) = take (Suc i) needle"
      using Cons.prems True by (simp add: take_Suc_conv_app_nth c_at_def)
    show ?thesis
    proof (cases "Suc i = len")
      case last: True
      then have p: "p = Suc pos - len" using Cons.prems(1) True by simp
      have "take len (drop p ((pre @ [c]) @ stack)) = take len (drop p (pre @ [c]))"
        using p Cons.prems(4,5) last by simp
      also have "\<dots> = take len needle" using nx p last by simp
      finally show ?thesis using p Cons.prems(4,5) last by simp
    next
      case False
      then show ?thesis using Cons.IH [of "Suc i" "Suc pos" "pre @ [c]"] Cons.prems True nx by simp
    qed
  next
    case False
    then show ?thesis using Cons.IH [of 0 "Suc pos" "pre @ [c]"] Cons.prems by simp
  qed
qed simp

lemma strrchr_loop_absent: "ch \<noteq> CHR 0x00 \<Longrightarrow> ch \<notin> set s \<Longrightarrow> strrchr_loop ch pos r s = r"
  by (induction s arbitrary: pos r) auto

lemma strrchr_loop_last:
  "ch \<noteq> CHR 0x00 \<Longrightarrow> ch \<notin> set b \<Longrightarrow> strrchr_loop ch pos r (a @ ch # b) = Some (pos + length a)"
  by (induction a arbitrary: pos r) (auto simp: strrchr_loop_absent)

lemma bit_getBitMask:
  "bit (getBitMask hi lo :: 'a::len word) n \<longleftrightarrow> lo \<le> n \<and> n \<le> hi \<and> n < LENGTH('a)"
  if "hi < LENGTH('a)" and "lo \<le> hi"
proof -
  have hi: "bit (getBit hi - 1 :: 'a word) n \<longleftrightarrow> n < hi \<and> n < LENGTH('a)"
    using that by (simp add: getBit_def push_bit_of_1 mask_eq_exp_minus_1 [symmetric] bit_mask_iff conj_commute)
  have lo: "bit (getBit lo - 1 :: 'a word) n \<longleftrightarrow> n < lo \<and> n < LENGTH('a)"
    using that by (simp add: getBit_def push_bit_of_1 mask_eq_exp_minus_1 [symmetric] bit_mask_iff conj_commute)
  have one: "bit (getBit hi :: 'a word) n \<longleftrightarrow> n = hi \<and> n < LENGTH('a)"
    by (auto simp: getBit_def push_bit_of_1 bit_exp_iff)
  show ?thesis using that hi lo one by (auto simp: getBitMask_def bit_simps)
qed

lemma findNotEquals_iff: "findNotEquals xs v \<longleftrightarrow> (\<exists>x \<in> set xs. x \<noteq> v)"
  by (induction xs) auto

text \<open>
  A value put into a bit field comes back out of it, reduced to the width of the field, and putting
  it there sets no bit outside the field.
\<close>

theorem setBitField_getBitField:
  fixes v :: "'a::len word"
  assumes "hi < LENGTH('a)" and "lo \<le> hi"
  shows "getBitField (setBitField v hi lo) hi lo = take_bit (Suc hi - lo) v \<and>
    setBitField v hi lo AND NOT (getBitMask hi lo) = 0"
proof
  show "getBitField (setBitField v hi lo) hi lo = take_bit (Suc hi - lo) v"
    by (rule bit_word_eqI) (use assms in \<open>auto simp: getBitField_def setBitField_def bit_simps bit_getBitMask\<close>)
  show "setBitField v hi lo AND NOT (getBitMask hi lo) = 0"
    by (rule bit_word_eqI) (auto simp: setBitField_def bit_simps)
qed

theorem setBitField_getBitField_witness: "getBitField (setBitField (0x1F :: 32 word) 7 4) 7 4 = 0xF"
  using setBitField_getBitField [of 7 4 "0x1F :: 32 word"] by simp

text \<open>
  C40. What \<open>strstr\<close> returns is an occurrence of the needle inside the string; but a mismatch restarts
  the search behind the character that did not match, so that occurrences which overlap a failed
  attempt are missed: \<open>cd\<close> is not found in \<open>ccd\<close>.
\<close>

theorem strstr_sound_incomplete:
  assumes "strstr stack needle 0 = Some p" and "c \<noteq> d"
  shows "p + length needle \<le> length stack \<and> take (length needle) (drop p stack) = needle \<and>
    strstr [c, c, d] [c, d] 0 = None \<and> take 2 (drop 1 [c, c, d]) = [c, d]"
proof -
  have "p + length needle \<le> length stack \<and> take (length needle) (drop p stack) = needle"
  proof (cases "needle = []")
    case False
    then show ?thesis using strstr_loop_sound [of needle "length needle" 0 0 stack p "[]"] assms(1)
      by (simp add: strstr_def Let_def)
  qed (use assms(1) in \<open>simp add: strstr_def\<close>)
  then show ?thesis using assms(2) by (simp add: strstr_def c_at_def numeral_2_eq_2)
qed

theorem strstr_sound_incomplete_witness:
  "strstr ''kernel'' ''ne'' 0 = Some 3 \<and> take 2 (drop 3 ''kernel'') = ''ne'' \<and> strstr ''aab'' ''ab'' 0 = None"
proof -
  have "strstr ''kernel'' ''ne'' 0 = Some 3" by code_simp
  from strstr_sound_incomplete [OF this, of "CHR ''a''" "CHR ''b''"] this show ?thesis by (simp add: numeral_2_eq_2)
qed

end
