(* ===== verification/Lzvn.thy ===== *)
theory Lzvn
  imports Prelude
begin

text \<open>
  The LZVN decoder \<open>lzvn.c\<close>. The source is the list of bytes from the source pointer to the end, the destination is the
  whole buffer and a position in it. Loads and stores outside a buffer give \<open>None\<close>. Copies are those of the code: eight bytes at
  a time away from the ends of the buffers, where they may write past the copied part, and byte by byte near them.
\<close>

section \<open>Loads, stores and copies\<close>

definition load_bytes :: "byte list \<Rightarrow> nat \<Rightarrow> nat \<Rightarrow> byte list option" where
  "load_bytes bs i n = (if i + n \<le> length bs then Some (take n (drop i bs)) else None)"

definition store_at :: "byte list \<Rightarrow> nat \<Rightarrow> byte list \<Rightarrow> byte list option" where
  "store_at bs i x = (if i + length x \<le> length bs then Some (take i bs @ x @ drop (i + length x) bs) else None)"

text \<open>
  The loops of the code copy \<open>w\<close> bytes a round, eight or one: \<open>s\<close> is the source of a literal, \<open>d\<close> the destination, written
  from \<open>pos\<close> on. A match reads what is \<open>D\<close> bytes before, in the destination.
\<close>

function literal_copy :: "nat \<Rightarrow> byte list \<Rightarrow> byte list \<Rightarrow> nat \<Rightarrow> nat \<Rightarrow> nat \<Rightarrow> byte list option" where
  "literal_copy w s d pos n i =
     (if i < n \<and> 0 < w
      then do { x \<leftarrow> load_bytes s i w; d1 \<leftarrow> store_at d (pos + i) x; literal_copy w s d1 pos n (i + w) }
      else Some d)"
  by pat_completeness auto
termination by (relation "measure (\<lambda>(w, s, d, pos, n, i). n - i)") auto

definition load_back :: "byte list \<Rightarrow> nat \<Rightarrow> nat \<Rightarrow> nat \<Rightarrow> byte list option" where
  "load_back d i D w = (if D \<le> i then load_bytes d (i - D) w else None)"

function match_copy :: "nat \<Rightarrow> byte list \<Rightarrow> nat \<Rightarrow> nat \<Rightarrow> nat \<Rightarrow> nat \<Rightarrow> byte list option" where
  "match_copy w d pos D n i =
     (if i < n \<and> 0 < w
      then do { x \<leftarrow> load_back d (pos + i) D w; d1 \<leftarrow> store_at d (pos + i) x; match_copy w d1 pos D n (i + w) }
      else Some d)"
  by pat_completeness auto
termination by (relation "measure (\<lambda>(w, d, pos, D, n, i). n - i)") auto

declare literal_copy.simps [simp del] match_copy.simps [simp del]

section \<open>Opcodes\<close>

datatype opcode = sml_d | med_d | lrg_d | pre_d | sml_m | lrg_m | sml_l | lrg_l | nop | eos | udef

definition opc_row :: "opcode \<Rightarrow> opcode list" where
  "opc_row x = [sml_d, sml_d, sml_d, sml_d, sml_d, sml_d, x, lrg_d]"

definition opc_tbl :: "opcode list" where
  "opc_tbl =
     opc_row eos @ opc_row nop @ opc_row nop @ concat (replicate 5 (opc_row udef)) @
     concat (replicate 6 (opc_row pre_d)) @ replicate 16 udef @ concat (replicate 4 (opc_row pre_d)) @
     replicate 32 med_d @ concat (replicate 2 (opc_row pre_d)) @ replicate 16 udef @
     lrg_l # replicate 15 sml_l @ lrg_m # replicate 15 sml_m"

definition extract_bits :: "nat \<Rightarrow> nat \<Rightarrow> nat \<Rightarrow> nat" where
  "extract_bits container lsb wid = container div 2 ^ lsb mod 2 ^ wid"

text \<open>The operand bytes are loads like the others: \<open>src_ptr[i]\<close>, and \<open>load2(&src_ptr[1])\<close>.\<close>

definition load_byte :: "byte list \<Rightarrow> nat \<Rightarrow> nat option" where
  "load_byte s i = map_option (\<lambda>x. unat (hd x)) (load_bytes s i 1)"

definition load2 :: "byte list \<Rightarrow> nat \<Rightarrow> nat option" where
  "load2 s i = map_option (\<lambda>x. unat (x ! 0) + 256 * unat (x ! 1)) (load_bytes s i 2)"

text \<open>What an opcode asks for: \<open>opc_len\<close>, \<open>L\<close>, \<open>M\<close> and \<open>D\<close> for a literal and a match, the like for one of them, or nothing.\<close>

datatype action = Both nat nat nat nat | Match nat nat | Literal nat nat | Skip | Finish | Stop | Undone

text \<open>
  \<open>Stop\<close> is a truncated source. \<open>Undone\<close> is an undefined opcode or a truncated end of stream, which return before
  the positions are saved. \<open>d\<close> is the distance of the last match.
\<close>

definition lzvn_op :: "byte list \<Rightarrow> nat \<Rightarrow> action option" where
  "lzvn_op s d = do {
     opc \<leftarrow> load_byte s 0;
     let n = length s;
     case opc_tbl ! opc of
       sml_d \<Rightarrow> (let L = extract_bits opc 6 2; M = extract_bits opc 3 3 + 3 in
         if n \<le> 2 + L then Some Stop
         else do { b \<leftarrow> load_byte s 1; Some (Both 2 L M (extract_bits opc 0 3 * 256 + b)) })
     | med_d \<Rightarrow> (let L = extract_bits opc 3 2 in
         if n \<le> 3 + L then Some Stop
         else do {
           opc23 \<leftarrow> load2 s 1;
           Some (Both 3 L (extract_bits opc 0 3 * 4 + extract_bits opc23 0 2 + 3) (extract_bits opc23 2 14))
         })
     | lrg_d \<Rightarrow> (let L = extract_bits opc 6 2; M = extract_bits opc 3 3 + 3 in
         if n \<le> 3 + L then Some Stop else do { D \<leftarrow> load2 s 1; Some (Both 3 L M D) })
     | pre_d \<Rightarrow> (let L = extract_bits opc 6 2; M = extract_bits opc 3 3 + 3 in
         if n \<le> 1 + L then Some Stop else Some (Both 1 L M d))
     | sml_m \<Rightarrow> if n \<le> 1 then Some Stop else Some (Match 1 (extract_bits opc 0 4))
     | lrg_m \<Rightarrow> if n \<le> 2 then Some Stop else do { b \<leftarrow> load_byte s 1; Some (Match 2 (b + 16)) }
     | sml_l \<Rightarrow> Some (Literal 1 (extract_bits opc 0 4))
     | lrg_l \<Rightarrow> if n \<le> 2 then Some Stop else do { b \<leftarrow> load_byte s 1; Some (Literal 2 (b + 16)) }
     | nop \<Rightarrow> if n \<le> 1 then Some Stop else Some Skip
     | eos \<Rightarrow> if n < 8 then Some Undone else Some Finish
     | udef \<Rightarrow> Some Undone
   }"

section \<open>The decoder\<close>

record lzvn_decoder_state =
  v_src :: "byte list"
  v_buf :: "byte list"
  v_dst :: nat
  v_L :: nat
  v_M :: nat
  v_D :: nat
  d_prev :: nat
  end_of_stream :: bool

text \<open>A copy either ends the decoder, in a state, or goes on with source, destination and position.\<close>

type_synonym progress = "(lzvn_decoder_state + byte list \<times> byte list \<times> nat) option"

definition lzvn_stop :: "lzvn_decoder_state \<Rightarrow> byte list \<Rightarrow> byte list \<Rightarrow> nat \<Rightarrow> nat \<Rightarrow> nat \<Rightarrow> nat \<Rightarrow> progress" where
  "lzvn_stop st s d pos L M D = Some (Inl (st\<lparr>v_src := s, v_buf := d, v_dst := pos, v_L := L, v_M := M, v_D := D\<rparr>))"

definition copy_match :: "lzvn_decoder_state \<Rightarrow> byte list \<Rightarrow> byte list \<Rightarrow> nat \<Rightarrow> nat \<Rightarrow> nat \<Rightarrow> progress" where
  "copy_match st s d pos M D =
     (let room = length d - pos in
      if room \<ge> M + 7 \<and> D \<ge> 8 then do { d1 \<leftarrow> match_copy 8 d pos D M 0; Some (Inr (s, d1, pos + M)) }
      else if M \<le> room then do { d1 \<leftarrow> match_copy 1 d pos D M 0; Some (Inr (s, d1, pos + M)) }
      else do { d1 \<leftarrow> match_copy 1 d pos D room 0; lzvn_stop st s d1 (pos + room) 0 (M - room) D })"

definition copy_literal_and_match :: "lzvn_decoder_state \<Rightarrow> byte list \<Rightarrow> byte list \<Rightarrow> nat \<Rightarrow> nat \<Rightarrow> nat \<Rightarrow> nat \<Rightarrow> nat
    \<Rightarrow> progress" where
  "copy_literal_and_match st s0 d pos opc_len L M D =
     (let s = drop opc_len s0; room = length d - pos; wide = (room \<ge> 4 \<and> length s \<ge> 4) in
      if wide \<or> L \<le> room then do {
        d1 \<leftarrow> (if wide then load_bytes s 0 4 \<bind> store_at d pos else literal_copy 1 s d pos L 0);
        if room < L \<or> length s < L then None
        else if D > pos + L \<or> D = 0 then Some (Inl (st\<lparr>v_buf := d1\<rparr>))
        else copy_match st (drop L s) d1 (pos + L) M D
      }
      else do {
        d1 \<leftarrow> literal_copy 1 s d pos room 0;
        lzvn_stop st (drop room s) d1 (pos + room) (L - room) M D
      })"

definition copy_literal :: "lzvn_decoder_state \<Rightarrow> byte list \<Rightarrow> byte list \<Rightarrow> nat \<Rightarrow> nat \<Rightarrow> nat \<Rightarrow> nat \<Rightarrow> progress" where
  "copy_literal st s0 d pos opc_len L D =
     (if length s0 \<le> opc_len + L then Some (Inl (st\<lparr>v_buf := d\<rparr>))
      else
        (let s = drop opc_len s0; room = length d - pos in
         if room \<ge> L + 7 \<and> length s \<ge> L + 7 then do { d1 \<leftarrow> literal_copy 8 s d pos L 0; Some (Inr (drop L s, d1, pos + L)) }
         else if L \<le> room then do { d1 \<leftarrow> literal_copy 1 s d pos L 0; Some (Inr (drop L s, d1, pos + L)) }
         else do { d1 \<leftarrow> literal_copy 1 s d pos room 0; lzvn_stop st (drop room s) d1 (pos + room) (L - room) 0 D }))"

definition lzvn_step :: "lzvn_decoder_state \<Rightarrow> byte list \<Rightarrow> byte list \<Rightarrow> nat \<Rightarrow> nat \<Rightarrow> progress" where
  "lzvn_step st0 s d pos D =
     (let st = st0\<lparr>v_src := s, v_buf := d, v_dst := pos, d_prev := D\<rparr> in
      lzvn_op s D \<bind> (\<lambda>act. case act of
        Both opc_len L M D1 \<Rightarrow> copy_literal_and_match st s d pos opc_len L M D1
      | Match opc_len M \<Rightarrow> copy_match st (drop opc_len s) d pos M D
      | Literal opc_len L \<Rightarrow> copy_literal st s d pos opc_len L D
      | Skip \<Rightarrow> Some (Inr (drop 1 s, d, pos))
      | Finish \<Rightarrow> Some (Inl (st\<lparr>v_src := drop 8 s, end_of_stream := True\<rparr>))
      | Stop \<Rightarrow> Some (Inl st)
      | Undone \<Rightarrow> Some (Inl (st0\<lparr>v_buf := d\<rparr>))))"

text \<open>The distance after a step, for the opcodes that set it.\<close>

definition lzvn_dist :: "byte list \<Rightarrow> nat \<Rightarrow> nat" where
  "lzvn_dist s D = (case lzvn_op s D of Some (Both _ _ _ D1) \<Rightarrow> D1 | _ \<Rightarrow> D)"

partial_function (option) lzvn_loop :: "lzvn_decoder_state \<Rightarrow> byte list \<Rightarrow> byte list \<Rightarrow> nat \<Rightarrow> nat \<Rightarrow> lzvn_decoder_state option" where
  "lzvn_loop st s d pos D =
     lzvn_step st s d pos D \<bind> (\<lambda>r.
       case r of
         Inl st1 \<Rightarrow> Some st1
       | Inr (s1, d1, pos1) \<Rightarrow> lzvn_loop (st\<lparr>v_src := s, v_buf := d, v_dst := pos, d_prev := D\<rparr>) s1 d1 pos1 (lzvn_dist s D))"

declare lzvn_loop.simps [code]

definition lzvn_decode :: "lzvn_decoder_state \<Rightarrow> lzvn_decoder_state option" where
  "lzvn_decode st =
     (if v_src st = [] \<or> v_dst st = length (v_buf st) then Some st
      else if v_L st \<noteq> 0 \<or> v_M st \<noteq> 0 then
        (let L = v_L st; M = v_M st; D = v_D st; st1 = st\<lparr>v_L := 0, v_M := 0, v_D := 0\<rparr> in
         (if M = 0 then copy_literal st1 (v_src st) (v_buf st) (v_dst st) 0 L D
          else if L = 0 then copy_match st1 (v_src st) (v_buf st) (v_dst st) M D
          else copy_literal_and_match st1 (v_src st) (v_buf st) (v_dst st) 0 L M D) \<bind> (\<lambda>r.
           case r of Inl st2 \<Rightarrow> Some st2 | Inr (s, d, pos) \<Rightarrow> lzvn_loop st1 s d pos D))
      else lzvn_loop st (v_src st) (v_buf st) (v_dst st) (d_prev st))"

text \<open>The buffer after decoding and the number of bytes decoded.\<close>

definition lzvn_decode_buffer :: "byte list \<Rightarrow> byte list \<Rightarrow> (nat \<times> byte list) option" where
  "lzvn_decode_buffer dst src =
     map_option (\<lambda>st. (v_dst st, v_buf st))
       (lzvn_decode \<lparr>v_src = src, v_buf = dst, v_dst = 0, v_L = 0, v_M = 0, v_D = 0, d_prev = 0, end_of_stream = False\<rparr>)"

text \<open>The call of the decoder in the decompression, on a buffer whose bytes \<open>junk\<close> are what the
  allocation left there. The decoder always returns (shown in \<open>Lzvn_Correct\<close>), so there is no third case.\<close>

definition lzvn_output :: "(nat \<Rightarrow> byte) \<Rightarrow> nat \<Rightarrow> byte list \<Rightarrow> byte list" where
  "lzvn_output junk dstlen src =
     (case lzvn_decode_buffer (map junk [0..<dstlen]) src of Some (n, buf) \<Rightarrow> take n buf | None \<Rightarrow> [])"

end
