(* ===== verification/Compression.thy ===== *)
theory Compression
  imports Lzvn
begin

text \<open>
  \<open>kern_compression.cpp\<close>: the LZSS decoder and the dispatch over the compression modes. The LZVN
  decoder is that of \<open>Lzvn\<close>; zlib is a parameter, a function from the output limit and the source to
  the bytes it produces. The ring buffer of the decoder is a map from positions to bytes; the
  code leaves its last part uninitialised, which is the parameter \<open>junk\<close>.
\<close>

definition ModeLZVN :: u32 where "ModeLZVN = 0x6E767A6C"
definition ModeLZSS :: u32 where "ModeLZSS = 0x73737A6C"
definition ModeZLIB :: u32 where "ModeZLIB = 0x9C787A6C"

definition RBSIZE :: nat where "RBSIZE = 4096"
definition UPLIM :: nat where "UPLIM = 18"
definition THRESHOLD :: nat where "THRESHOLD = 2"

text \<open>Output so far, ring buffer and write position.\<close>

record lzss =
  lz_out :: "byte list"
  lz_text :: "nat \<Rightarrow> byte"
  lz_r :: nat

definition lzss_put :: "byte \<Rightarrow> lzss \<Rightarrow> lzss" where
  "lzss_put c st = st\<lparr>lz_out := lz_out st @ [c], lz_text := (lz_text st)(lz_r st := c),
     lz_r := Suc (lz_r st) mod RBSIZE\<rparr>"

text \<open>The copy of a match, which stops when the output is full.\<close>

primrec lzss_copy :: "nat \<Rightarrow> nat \<Rightarrow> nat \<Rightarrow> lzss \<Rightarrow> lzss" where
  "lzss_copy dstlen i 0 st = st"
| "lzss_copy dstlen i (Suc n) st =
     (if length (lz_out st) < dstlen
      then lzss_copy dstlen (Suc i) n (lzss_put (lz_text st (i mod RBSIZE)) st)
      else st)"

text \<open>A flag byte is read when the eight flags of the last one are used up.\<close>

definition lzss_flags :: "u32 \<Rightarrow> byte list \<Rightarrow> (u32 \<times> byte list) option" where
  "lzss_flags flags src =
     (let fl = drop_bit 1 flags in
      if fl AND 0x100 = 0 then (case src of [] \<Rightarrow> None | c # s \<Rightarrow> Some (ucast c OR 0xFF00, s))
      else Some (fl, src))"

lemma lzss_flags_length: "lzss_flags fl src = Some (fl', src') \<Longrightarrow> length src' \<le> length src"
  by (auto simp: lzss_flags_def Let_def split: if_splits list.splits)

definition match_pos :: "byte \<Rightarrow> byte \<Rightarrow> nat" where
  "match_pos i j = unat i + 256 * (unat j div 16)"

definition match_len :: "byte \<Rightarrow> nat" where
  "match_len j = unat j mod 16 + THRESHOLD + 1"

function lzss_loop :: "nat \<Rightarrow> u32 \<Rightarrow> byte list \<Rightarrow> lzss \<Rightarrow> byte list" where
  "lzss_loop dstlen flags src st =
     (case lzss_flags flags src of
        None \<Rightarrow> lz_out st
      | Some (fl, s) \<Rightarrow>
          if fl AND 1 \<noteq> 0 then
            (case s of
               [] \<Rightarrow> lz_out st
             | c # s' \<Rightarrow> if length (lz_out st) < dstlen then lzss_loop dstlen fl s' (lzss_put c st)
                         else lz_out st)
          else
            (case s of
               i # j # s' \<Rightarrow>
                 lzss_loop dstlen fl s' (lzss_copy dstlen (match_pos i j) (match_len j) st)
             | _ \<Rightarrow> lz_out st))"
  by pat_completeness auto
termination
  by (relation "measure (\<lambda>(dstlen, flags, src, st). length src)")
     (auto dest: lzss_flags_length)

declare lzss_loop.simps [simp del]

definition lzss_init :: "(nat \<Rightarrow> byte) \<Rightarrow> lzss" where
  "lzss_init junk = \<lparr>lz_out = [], lz_text = (\<lambda>i. if i < RBSIZE - UPLIM then 0x20 else junk i),
     lz_r = RBSIZE - UPLIM\<rparr>"

definition decompress_lzss :: "(nat \<Rightarrow> byte) \<Rightarrow> nat \<Rightarrow> byte list \<Rightarrow> byte list" where
  "decompress_lzss junk dstlen src = lzss_loop dstlen 0 src (lzss_init junk)"

text \<open>
  \<open>decompressInternal\<close> on a fresh buffer: the bytes written, or \<open>None\<close> when the size is checked
  and is not the expected one.
\<close>

definition decompressInternal :: "(nat \<Rightarrow> byte list \<Rightarrow> byte list) \<Rightarrow> (nat \<Rightarrow> byte) \<Rightarrow> u32 \<Rightarrow> nat \<Rightarrow> byte list \<Rightarrow> bool \<Rightarrow> byte list option" where
  "decompressInternal zlib junk compression dstlen src checkResult =
     (let out = (if compression = ModeLZSS then decompress_lzss junk dstlen src
                 else if compression = ModeLZVN then lzvn_output junk dstlen src
                 else if compression = ModeZLIB then zlib dstlen src
                 else [])
      in if \<not> checkResult \<or> length out = dstlen then Some out else None)"

section \<open>The decoder stays inside its buffers\<close>

lemma lzss_copy_length:
  "length (lz_out st) \<le> dstlen \<Longrightarrow>
     length (lz_out st) \<le> length (lz_out (lzss_copy dstlen i n st)) \<and>
     length (lz_out (lzss_copy dstlen i n st)) \<le> dstlen"
proof (induction n arbitrary: i st)
  case (Suc n)
  then show ?case using Suc.IH [of "lzss_put (lz_text st (i mod RBSIZE)) st" "Suc i"]
    by (auto simp: lzss_put_def)
qed simp

lemma lzss_loop_length:
  "length (lz_out st) \<le> dstlen \<Longrightarrow> length (lzss_loop dstlen flags src st) \<le> dstlen"
proof (induction dstlen flags src st rule: lzss_loop.induct)
  case (1 dstlen flags src st)
  show ?case
    by (subst lzss_loop.simps)
       (use 1 lzss_copy_length in \<open>auto split: option.splits list.splits simp: lzss_put_def\<close>)
qed

end
