(* ===== verification/Mach_Load.thy ===== *)
theory Mach_Load
  imports Mach_Info Kern_Util Compression
begin

text \<open>
  The second half of \<open>MachInfo\<close> (\<open>kern_mach.cpp\<close>): loading the symbols of an image. The
  image comes from the running kernel collection, from a file (thin, fat or compressed) or
  from the prelinked kernel. The file system, zlib and the property list parser
  are the parameters of \<open>kern_env\<close>. Buffers are stretches of memory at the address the
  allocator returned.
\<close>

section \<open>Buffers and files\<close>

definition BufferMax :: u64 where
  "BufferMax = 1024 * 1024 * 1024"

definition Buffer_create :: "u64 \<Rightarrow> machine \<Rightarrow> addr \<times> machine" where
  "Buffer_create sz mc = (if sz > BufferMax then (0, mc) else allocate mc)"

text \<open>
  \<open>FileIO::readFileData\<close>: false is an error of the read, true success. A short read leaves
  what it delivered in the buffer and is an error.
\<close>

definition readFileData :: "kern_env \<Rightarrow> addr \<Rightarrow> u64 \<Rightarrow> u64 \<Rightarrow> nat \<Rightarrow> machine \<Rightarrow> (bool \<times> machine) option" where
  "readFileData env buffer off sz vnode mc =
     (case vnode_read env vnode off sz of
        None \<Rightarrow> Some (False, mc)
      | Some bs \<Rightarrow> do {
          mc1 \<leftarrow> store_bytes buffer (take (unat sz) bs) mc;
          Some (unat sz \<le> length bs, mc1)
        })"

definition OSSwapInt32 :: "u32 \<Rightarrow> u32" where
  "OSSwapInt32 w = le_word (rev (le_bytes 4 w))"

definition MH_MAGIC :: u32 where "MH_MAGIC = 0xfeedface"
definition FAT_MAGIC :: u32 where "FAT_MAGIC = 0xcafebabe"
definition FAT_CIGAM :: u32 where "FAT_CIGAM = 0xbebafeca"
definition CPU_TYPE_X86_64 :: u32 where "CPU_TYPE_X86_64 = 0x01000007"
definition COMP_MAGIC :: u32 where "COMP_MAGIC = 0x706D6F63"
definition LC_SEGMENT :: u32 where "LC_SEGMENT = 0x1"
definition sizeof_comp_header :: u64 where "sizeof_comp_header = 384"
definition sizeof_fat_arch :: u64 where "sizeof_fat_arch = 20"
definition sizeof_fat_header :: u64 where "sizeof_fat_header = 8"

definition maybe_swap :: "bool \<Rightarrow> u32 \<Rightarrow> u32" where
  "maybe_swap b w = (if b then OSSwapInt32 w else w)"

text \<open>The first architecture of a fat header with the wanted CPU, as the address of its entry.\<close>

primrec find_arch :: "memory \<Rightarrow> bool \<Rightarrow> u32 \<Rightarrow> nat \<Rightarrow> addr \<Rightarrow> addr option" where
  "find_arch m sw cpu 0 a = None"
| "find_arch m sw cpu (Suc n) a =
     (if maybe_swap sw (load32 m a) = cpu then Some a else find_arch m sw cpu n (a + sizeof_fat_arch))"

definition fat_arch_lookup :: "memory \<Rightarrow> u32 \<Rightarrow> addr \<Rightarrow> addr option" where
  "fat_arch_lookup m cpu buffer =
     (let sw = (load32 m buffer = FAT_CIGAM); num = maybe_swap sw (load32 m (buffer + 4)) in
      if (ucast num :: u64) * sizeof_fat_arch > HeaderSize - sizeof_fat_arch then None
      else find_arch m sw cpu (unat num) (buffer + sizeof_fat_header))"

section \<open>Reading a header\<close>

text \<open>
  One pass of the loop of \<open>readMachHeader\<close> over the header at \<open>buffer\<close>: it returns, reads the
  fat slice at an offset, or has replaced the header by decompressed data and goes on.
\<close>

datatype header_step = Return kern_return | Slice u64 | Again

definition Compression_decompress :: "kern_env \<Rightarrow> u32 \<Rightarrow> u32 \<Rightarrow> byte list \<Rightarrow> byte list option" where
  "Compression_decompress env compression dstlen src =
     decompressInternal (decompress_zlib env) (stack_junk env)
       compression (unat dstlen) src True"

definition decompress_header :: "kern_env \<Rightarrow> addr \<Rightarrow> nat \<Rightarrow> u64 \<Rightarrow> machine \<Rightarrow> mach_info
    \<Rightarrow> (header_step \<times> machine \<times> mach_info) option" where
  "decompress_header env buffer vnode off mc info =
     (let m = mem mc; comp = OSSwapInt32 (load32 m (buffer + 16)); dec = OSSwapInt32 (load32 m (buffer + 12));
          compression = load32 m (buffer + 4); raw = load32 m (buffer + 12) in
      if \<not> allow_decompress info then Some (Return KERN_FAILURE, mc, info)
      else do {
        let (cbuf, mc1) = Buffer_create (ucast comp) mc;
        if cbuf = 0 then Some (Return KERN_FAILURE, mc1, info)
        else do {
          (ok, mc2) \<leftarrow> readFileData env cbuf (off + sizeof_comp_header) (ucast comp) vnode mc1;
          if \<not> ok then Some (Return KERN_FAILURE, mc2, info)
          else if \<not> (ucast raw :: u64) > HeaderSize then Some (Return KERN_FAILURE, mc2, info)
          else do {
            let (fbuf, mc3) = Buffer_create (ucast dec) mc2;
            if fbuf = 0 then Some (Return KERN_FAILURE, mc3, info\<lparr>file_buf := 0\<rparr>)
            else (case Compression_decompress env compression dec (read_bytes (mem mc3) cbuf (unat comp)) of
                None \<Rightarrow> Some (Return KERN_FAILURE, mc3, info\<lparr>file_buf := 0\<rparr>)
              | Some bs \<Rightarrow> do {
                  mc4 \<leftarrow> store_bytes fbuf bs mc3;
                  mc5 \<leftarrow> store_bytes buffer (read_bytes (mem mc4) fbuf (unat HeaderSize)) mc4;
                  Some (Again, mc5, info\<lparr>file_buf := fbuf, file_buf_size := dec\<rparr>)
                })
          }
        }
      })"

definition header_step_at :: "kern_env \<Rightarrow> addr \<Rightarrow> nat \<Rightarrow> u64 \<Rightarrow> machine \<Rightarrow> mach_info
    \<Rightarrow> (header_step \<times> machine \<times> mach_info) option" where
  "header_step_at env buffer vnode off mc info =
     (let m = mem mc; magic = load32 m buffer in
      if \<not> isAligned buffer then Some (Return KERN_FAILURE, mc, info)
      else if magic = MH_MAGIC_64 then Some (Return KERN_SUCCESS, mc, info\<lparr>fat_offset := off\<rparr>)
      else if magic = FAT_CIGAM \<or> magic = FAT_MAGIC then
        (if off \<noteq> 0 then Some (Return KERN_FAILURE, mc, info)
         else case fat_arch_lookup m CPU_TYPE_X86_64 buffer of
                None \<Rightarrow> Some (Return KERN_FAILURE, mc, info)
              | Some a \<Rightarrow> Some (Slice (ucast (maybe_swap (magic = FAT_CIGAM) (load32 m (a + 8)))), mc, info))
      else if magic = COMP_MAGIC then decompress_header env buffer vnode off mc info
      else Some (Return KERN_FAILURE, mc, info))"

text \<open>
  The loop, and the recursive call for a fat slice. A slice at offset 0 reads the same fat
  header again, for ever; so may a file that decompresses to a compressed header.
\<close>

partial_function (option) header_loop :: "kern_env \<Rightarrow> addr \<Rightarrow> nat \<Rightarrow> u64 \<Rightarrow> machine \<Rightarrow> mach_info
    \<Rightarrow> (kern_return \<times> machine \<times> mach_info) option" where
  "header_loop env buffer vnode off mc info =
     header_step_at env buffer vnode off mc info \<bind> (\<lambda>(st, mc1, info1).
       case st of
         Return r \<Rightarrow> Some (r, mc1, info1)
       | Again \<Rightarrow> header_loop env buffer vnode off mc1 info1
       | Slice off' \<Rightarrow>
           readFileData env buffer off' HeaderSize vnode mc1 \<bind> (\<lambda>(ok, mc2).
             if \<not> ok then Some (KERN_FAILURE, mc2, info1)
             else header_loop env buffer vnode off' mc2 info1))"

declare header_loop.simps [code]

definition readMachHeader :: "kern_env \<Rightarrow> addr \<Rightarrow> nat \<Rightarrow> u64 \<Rightarrow> machine \<Rightarrow> mach_info
    \<Rightarrow> (kern_return \<times> machine \<times> mach_info) option" where
  "readMachHeader env buffer vnode off mc info = do {
     (ok, mc1) \<leftarrow> readFileData env buffer off HeaderSize vnode mc;
     if \<not> ok then Some (KERN_FAILURE, mc1, info) else header_loop env buffer vnode off mc1 info
   }"

section \<open>Sections\<close>

record section_bounds =
  vmsegment :: u64
  vmsection :: u64
  sectionptr :: addr
  sectionSize :: u64

definition no_section :: section_bounds where
  "no_section = \<lparr>vmsegment = 0, vmsection = 0, sectionptr = 0, sectionSize = 0\<rparr>"

text \<open>The fields of the 64-bit and of the 32-bit segment and section structures.\<close>

definition load_word :: "bool \<Rightarrow> memory \<Rightarrow> addr \<Rightarrow> u64" where
  "load_word wide m a = (if wide then load64 m a else ucast (load32 m a))"

definition segsize :: "bool \<Rightarrow> u64" where "segsize wide = (if wide then 72 else 56)"
definition sectsize :: "bool \<Rightarrow> u64" where "sectsize wide = (if wide then 80 else 68)"
definition segnsects :: "bool \<Rightarrow> memory \<Rightarrow> addr \<Rightarrow> u32" where
  "segnsects wide m c = load32 m (c + (if wide then 64 else 48))"
definition sectlen :: "bool \<Rightarrow> memory \<Rightarrow> addr \<Rightarrow> u64" where
  "sectlen wide m s = load_word wide m (s + (if wide then 40 else 36))"
definition sectoff :: "bool \<Rightarrow> memory \<Rightarrow> addr \<Rightarrow> u64" where
  "sectoff wide m s = ucast (load32 m (s + (if wide then 48 else 40)))"

text \<open>
  The sections of one matching segment. \<open>Some\<close> is a return of \<open>findSectionBounds\<close>, \<open>None\<close> goes on
  with the next load command.
\<close>

primrec scan_sections :: "bool \<Rightarrow> memory \<Rightarrow> addr \<Rightarrow> addr \<Rightarrow> addr \<Rightarrow> string \<Rightarrow> nat \<Rightarrow> addr \<Rightarrow> section_bounds option" where
  "scan_sections wide m ptr endaddr cmd name 0 sect = None"
| "scan_sections wide m ptr endaddr cmd name (Suc n) sect =
     (if strncmp_eq m sect name 16 then
        (let sptr = ptr + sectoff wide m sect in
         if sptr + sectlen wide m sect > endaddr then Some no_section
         else Some \<lparr>vmsegment = load_word wide m (cmd + 24), vmsection = load_word wide m (sect + 32),
                    sectionptr = sptr, sectionSize = sectlen wide m sect\<rparr>)
      else scan_sections wide m ptr endaddr cmd name n (sect + sectsize wide))"

definition segment_sections :: "bool \<Rightarrow> memory \<Rightarrow> addr \<Rightarrow> addr \<Rightarrow> addr \<Rightarrow> string \<Rightarrow> string \<Rightarrow> section_bounds option" where
  "segment_sections wide m ptr endaddr cmd segname sectname =
     (let sect = cmd + segsize wide; n = segnsects wide m cmd in
      if \<not> strncmp_eq m (cmd + 8) segname 16 then None
      else if sect + sectsize wide * ucast n > endaddr then Some no_section
      else scan_sections wide m ptr endaddr cmd sectname (unat n) sect)"

primrec scan_segments :: "memory \<Rightarrow> addr \<Rightarrow> addr \<Rightarrow> string \<Rightarrow> string \<Rightarrow> nat \<Rightarrow> addr \<Rightarrow> section_bounds" where
  "scan_segments m ptr endaddr segname sectname 0 cmd = no_section"
| "scan_segments m ptr endaddr segname sectname (Suc n) cmd =
     (if cmd_invalid m endaddr cmd then no_section
      else
        (let r = (if lc_cmd m cmd = LC_SEGMENT then
                    segment_sections False m ptr endaddr cmd segname sectname
                  else if lc_cmd m cmd = LC_SEGMENT_64 then
                    segment_sections True m ptr endaddr cmd segname sectname
                  else None)
         in case r of Some b \<Rightarrow> b
            | None \<Rightarrow> scan_segments m ptr endaddr segname sectname n (cmd + lc_cmdsize m cmd)))"

text \<open>A thin image; a header with an unknown magic is walked from its own first byte.\<close>

definition thin_bounds :: "memory \<Rightarrow> addr \<Rightarrow> u64 \<Rightarrow> string \<Rightarrow> string \<Rightarrow> section_bounds" where
  "thin_bounds m ptr sourceSize segname sectname =
     (let magic = load32 m ptr;
          cmd = ptr + (if magic = MH_MAGIC_64 then 32 else if magic = MH_MAGIC then 28 else 0)
      in scan_segments m ptr (ptr + sourceSize) segname sectname (unat (mh_ncmds m ptr)) cmd)"

definition is_fat :: "memory \<Rightarrow> addr \<Rightarrow> bool" where
  "is_fat m ptr \<longleftrightarrow> load32 m ptr = FAT_CIGAM \<or> load32 m ptr = FAT_MAGIC"

text \<open>The recursive call for a fat slice has CPU 0 and refuses another fat header.\<close>

definition slice_bounds :: "memory \<Rightarrow> addr \<Rightarrow> u64 \<Rightarrow> string \<Rightarrow> string \<Rightarrow> section_bounds" where
  "slice_bounds m ptr sourceSize segname sectname =
     (if \<not> isAligned ptr \<or> sourceSize < HeaderSize then no_section
      else if is_fat m ptr then no_section
      else thin_bounds m ptr sourceSize segname sectname)"

definition findSectionBounds :: "memory \<Rightarrow> addr \<Rightarrow> u64 \<Rightarrow> string \<Rightarrow> string \<Rightarrow> u32 \<Rightarrow> section_bounds" where
  "findSectionBounds m ptr sourceSize segname sectname cpu =
     (if \<not> isAligned ptr \<or> sourceSize < HeaderSize then no_section
      else if is_fat m ptr then
        (if cpu = 0 then no_section
         else case fat_arch_lookup m cpu ptr of
                None \<Rightarrow> no_section
              | Some a \<Rightarrow>
                  (let sw = (load32 m ptr = FAT_CIGAM);
                       off = (ucast (maybe_swap sw (load32 m (a + 8))) :: u64);
                       sz = (ucast (maybe_swap sw (load32 m (a + 12))) :: u64)
                   in if off + sz > sourceSize then no_section
                      else slice_bounds m (ptr + off) (sourceSize - off) segname sectname))
      else thin_bounds m ptr sourceSize segname sectname)"

section \<open>Symbols and prelinked images\<close>

text \<open>\<open>vnode\<close> is \<open>None\<close> for an image of the prelinked kernel, which has a file buffer.\<close>

definition readSymbols :: "kern_env \<Rightarrow> nat option \<Rightarrow> machine \<Rightarrow> mach_info
    \<Rightarrow> (kern_return \<times> machine \<times> mach_info) option" where
  "readSymbols env vnode mc info = do {
     let (buf, mc1) = Buffer_create (sym_size info) mc;
     if buf = 0 then Some (KERN_FAILURE, mc1, info\<lparr>sym_buf := 0\<rparr>)
     else if file_buf info \<noteq> 0 then
       (if ucast (file_buf_size info) \<ge> sym_size info \<and>
           ucast (file_buf_size info) - sym_size info \<ge> sym_fileoff info then do {
          mc2 \<leftarrow> store_bytes buf (read_bytes (mem mc1) (file_buf info + sym_fileoff info) (unat (sym_size info))) mc1;
          Some (KERN_SUCCESS, mc2, info\<lparr>sym_buf := buf\<rparr>)
        } else Some (KERN_FAILURE, mc1, info\<lparr>sym_buf := 0\<rparr>))
     else (case vnode of
         None \<Rightarrow> None
       | Some v \<Rightarrow> do {
           (ok, mc2) \<leftarrow> readFileData env buf (fat_offset info + sym_fileoff info) (sym_size info) v mc1;
           Some (if ok then (KERN_SUCCESS, mc2, info\<lparr>sym_buf := buf\<rparr>)
                 else (KERN_FAILURE, mc2, info\<lparr>sym_buf := 0\<rparr>))
         })
   }"

definition updatePrelinkInfo :: "kern_env \<Rightarrow> memory \<Rightarrow> mach_info \<Rightarrow> mach_info" where
  "updatePrelinkInfo env m info =
     (if prelink_dict info \<noteq> None \<or> \<not> isKernel info \<or> file_buf info = 0 then info
      else
        (let fsz = (ucast (file_buf_size info) :: u64);
             b = findSectionBounds m (file_buf info) fsz ''__PRELINK_INFO'' ''__info'' CPU_TYPE_X86_64;
             startoff = (if sectionSize b \<noteq> 0 \<and> sectionptr b \<ge> file_buf info
                         then sectionptr b - file_buf info else fsz)
         in if sectionSize b > 0 \<and> fsz > startoff \<and> fsz - startoff \<ge> sectionSize b then
              (let xml = read_bytes m (sectionptr b) (unat (sectionSize b));
                   dict = (if last xml = 0 then OSUnserializeXML env xml else None)
               in case dict of
                    None \<Rightarrow> info
                  | Some d \<Rightarrow>
                      (let t = findSectionBounds m (file_buf info) fsz ''__PRELINK_TEXT'' ''__text'' CPU_TYPE_X86_64
                       in if sectionSize t \<noteq> 0 then
                            info\<lparr>prelink_dict := Some d, prelink_addr := sectionptr t,
                                 prelink_vmaddr := vmsection t, prelink_slid := pl_kaslr_offsets d\<rparr>
                          else info))
            else info))"

text \<open>
  The image list search: the result is the address and size of the image with the wanted
  identifier and the slide it was found with, \<open>None\<close> when it is absent or unusable. The array
  of images, which the code caches in statics, is the one of the prelink dictionary.
\<close>

primrec find_image_in :: "prelink_image option list \<Rightarrow> string \<Rightarrow> prelink_image option" where
  "find_image_in [] ident = None"
| "find_image_in (i # is) ident =
     (case i of
        Some im \<Rightarrow> if pi_identifier im = Some ident then Some im else find_image_in is ident
      | None \<Rightarrow> find_image_in is ident)"

definition image_position :: "mach_info \<Rightarrow> prelink_image \<Rightarrow> u32 option \<times> (addr \<times> u64) option" where
  "image_position info im =
     (case (pi_source_addr im, pi_load_addr im, pi_size im) of
        (Some saddr, Some laddr, Some sz) \<Rightarrow>
          (let fsz = (ucast (file_buf_size info) :: u64);
               imageaddr = (saddr - prelink_vmaddr info) + prelink_addr info;
               startoff = (if imageaddr \<ge> file_buf info then imageaddr - file_buf info else fsz)
           in (Some sz,
               if fsz > startoff \<and> fsz - startoff \<ge> ucast sz
               then Some (imageaddr, if \<not> prelink_slid info then kaslr_slide info else 0) else None))
      | _ \<Rightarrow> (None, None))"

text \<open>Called on the prelinked kernel \<open>pre\<close>, with the size and slide of the kext it fills in.\<close>

definition findImage :: "kern_env \<Rightarrow> memory \<Rightarrow> string \<Rightarrow> mach_info \<Rightarrow> u32 \<times> addr
    \<Rightarrow> addr \<times> (u32 \<times> addr) \<times> mach_info" where
  "findImage env m identifier pre0 out =
     (let pre = updatePrelinkInfo env m pre0; (imageSize, slide) = out in
      case prelink_dict pre of
        None \<Rightarrow> (0, out, pre)
      | Some d \<Rightarrow>
         (case pl_images d of
            None \<Rightarrow> (0, out, pre)
          | Some imgs \<Rightarrow>
             (case find_image_in imgs identifier of
                None \<Rightarrow> (0, out, pre)
              | Some im \<Rightarrow>
                 (case image_position pre im of
                    (None, _) \<Rightarrow> (0, out, pre)
                  | (Some sz, None) \<Rightarrow> (0, (sz, slide), pre)
                  | (Some sz, Some (a, sl)) \<Rightarrow> (a, (sz, sl), pre)))))"

definition initFromPrelinked :: "kern_env \<Rightarrow> mach_info option \<Rightarrow> machine \<Rightarrow> mach_info
    \<Rightarrow> (kern_return \<times> machine \<times> mach_info \<times> mach_info option) option" where
  "initFromPrelinked env prelink mc info =
     (case (prelink, objectId info) of
        (Some pre, Some ident) \<Rightarrow> do {
          let (buf, (sz, vma), pre1) = findImage env (mem mc) ident pre (file_buf_size info, prelink_vmaddr info);
          let info1 = info\<lparr>file_buf := buf, file_buf_size := sz, prelink_vmaddr := vma\<rparr>;
          if buf \<noteq> 0 \<and> ucast sz \<ge> HeaderSize then do {
            let info2 = processMachHeader (mem mc) buf info1;
            if sym_fileoff info2 \<noteq> 0 \<and> symboltable_fileoff info2 \<noteq> 0 then do {
              let (ok, info3) = loadUUID env (mem mc) buf info2;
              if ok then do {
                (r, mc1, info4) \<leftarrow> readSymbols env None mc info3;
                let info5 = (if r = KERN_SUCCESS then info4\<lparr>prelink_slid := True\<rparr> else info4);
                Some (r, mc1, info5\<lparr>file_buf := 0\<rparr>, Some pre1)
              } else Some (KERN_FAILURE, mc, info3\<lparr>file_buf := 0\<rparr>, Some pre1)
            } else Some (KERN_FAILURE, mc, info2\<lparr>file_buf := 0\<rparr>, Some pre1)
          } else Some (KERN_FAILURE, mc, info1\<lparr>file_buf := 0\<rparr>, Some pre1)
        }
      | _ \<Rightarrow> Some (KERN_FAILURE, mc, info, prelink))"

section \<open>Initialisation\<close>

definition initFromMemory :: "kern_env \<Rightarrow> machine \<Rightarrow> mach_info \<Rightarrow> (kern_return \<times> machine \<times> mach_info) option" where
  "initFromMemory env mc info =
     (if version_major env < BigSur then Some (KERN_FAILURE, mc, info)
      else do {
        (_, mc1, info1) \<leftarrow> findKernelBase env mc info;
        Some (if kernel_collection info1 then KERN_SUCCESS else KERN_FAILURE, mc1, info1)
      })"

definition PATH_MAX :: nat where "PATH_MAX = 1024"

text \<open>The names tried for one path: the two suffixed ones first when \<open>kcsuffix\<close> is given.\<close>

definition path_candidates :: "kern_env \<Rightarrow> string \<Rightarrow> string list" where
  "path_candidates env path =
     (if path = [] \<or> PATH_MAX \<le> length path then []
      else case (if Yosemite \<le> version_major env then boot_arg_str env ''kcsuffix'' 32 else None) of
             Some suffix \<Rightarrow> [take (PATH_MAX - 1) (path @ ''.'' @ suffix),
                             take (PATH_MAX - 1) (path @ ''_'' @ suffix), path]
           | None \<Rightarrow> [path])"

primrec find_executable :: "kern_env \<Rightarrow> addr \<Rightarrow> string list \<Rightarrow> machine \<Rightarrow> mach_info
    \<Rightarrow> (nat option \<times> machine \<times> mach_info) option" where
  "find_executable env hdr [] mc info = Some (None, mc, info)"
| "find_executable env hdr (path # rest) mc info =
     (case vnode_lookup env path of
        None \<Rightarrow> find_executable env hdr rest mc info
      | Some vnode \<Rightarrow> do {
          (r, mc1, info1) \<leftarrow> readMachHeader env hdr vnode 0 mc info;
          if r \<noteq> KERN_SUCCESS then find_executable env hdr rest mc1 info1
          else do {
            let (ok, info2) = loadUUID env (mem mc1) hdr info1;
            if \<not> ok then find_executable env hdr rest mc1 info2
            else if \<not> isKernel info2 then Some (Some vnode, mc1, info2)
            else do {
              (cur, mc2, info3) \<leftarrow> isCurrentBinary env 0 mc1 info2;
              if cur then Some (Some vnode, mc2, info3) else find_executable env hdr rest mc2 info3
            }
          }
        })"

definition initFromFileSystem :: "kern_env \<Rightarrow> string list \<Rightarrow> machine \<Rightarrow> mach_info
    \<Rightarrow> (kern_return \<times> machine \<times> mach_info) option" where
  "initFromFileSystem env paths mc info = do {
     let (hdr, mc1) = Buffer_create HeaderSize mc;
     if hdr = 0 then Some (KERN_FAILURE, mc1, info)
     else do {
       (found, mc2, info1) \<leftarrow> find_executable env hdr (concat (map (path_candidates env) paths)) mc1 info;
       case found of
         None \<Rightarrow> Some (KERN_FAILURE, mc2, info1)
       | Some vnode \<Rightarrow> do {
           let info2 = processMachHeader (mem mc2) hdr info1;
           if sym_fileoff info2 \<noteq> 0 \<and> symboltable_fileoff info2 \<noteq> 0
           then readSymbols env (Some vnode) mc2 info2
           else Some (KERN_FAILURE, mc2, info2)
         }
     }
   }"

text \<open>
  The prelinked kernel, when given, is another \<open>MachInfo\<close> and is returned as updated. In a
  kernel collection the code reads \<open>paths[0]\<close>, so there has to be one.
\<close>

definition MachInfo_init :: "kern_env \<Rightarrow> string list \<Rightarrow> mach_info option \<Rightarrow> machine \<Rightarrow> mach_info
    \<Rightarrow> (kern_return \<times> machine \<times> mach_info \<times> mach_info option) option" where
  "MachInfo_init env paths prelink mc info0 = do {
     (e1, mc1, info1) \<leftarrow> initFromMemory env mc (info0\<lparr>allow_decompress := allowDecompress env\<rparr>);
     inKext \<leftarrow> (if kernel_collection info1 then
                  (case paths of [] \<Rightarrow> None | p # _ \<Rightarrow> Some (strstr p ''.kext'' 0 \<noteq> None))
                else Some False);
     if inKext then Some (e1, mc1, info1, prelink)
     else if \<not> has_credential env then Some (e1, mc1, info1, prelink)
     else do {
       (e2, mc2, info2) \<leftarrow> (if sym_buf info1 = 0 then initFromFileSystem env paths mc1 info1
                             else Some (e1, mc1, info1));
       if sym_buf info2 = 0 then initFromPrelinked env prelink mc2 info2
       else Some (e2, mc2, info2, prelink)
     }
   }"

end
