(* ===== verification/Containers.thy ===== *)
theory Containers
  imports Machine
begin

text \<open>
  The containers of \<open>Headers/kern_util.hpp\<close>: the embedded vector \<open>evector_base\<close> that holds
  the patcher's Mach-O infos, patches and handlers, the \<open>CircularBuffer\<close>, and the per-thread
  store \<open>ThreadLocal\<close>. Each has an interface locale with the laws its clients rely on,
  interpreted on the operations below. Locks are not modelled: an operation is one step.
\<close>

section \<open>Embedded vector\<close>

text \<open>The elements \<open>ptr[0..cnt)\<close> and the reserved capacity; \<open>ptr\<close> is null when it is 0.\<close>

record 'a evector =
  ev_items :: "'a list"
  ev_rsvd :: nat

definition ev_empty :: "'a evector" where
  "ev_empty = \<lparr>ev_items = [], ev_rsvd = 0\<rparr>"

definition ev_size :: "'a evector \<Rightarrow> nat" where
  "ev_size v = length (ev_items v)"

definition ev_last :: "'a evector \<Rightarrow> nat" where
  "ev_last v = ev_size v - 1"

definition ev_reserve :: "nat \<Rightarrow> nat \<Rightarrow> 'a evector \<Rightarrow> machine \<Rightarrow> bool \<times> 'a evector \<times> machine" where
  "ev_reserve MUL num v m =
     (if ev_rsvd v < num then
        (let (p, m1) = allocate m
         in if p \<noteq> 0 then (True, v\<lparr>ev_rsvd := MUL * num\<rparr>, m1) else (False, v, m1))
      else (ev_rsvd v \<noteq> 0, v, m))"

definition ev_push_back :: "nat \<Rightarrow> 'a \<Rightarrow> 'a evector \<Rightarrow> machine \<Rightarrow> bool \<times> 'a evector \<times> machine" where
  "ev_push_back MUL x v m =
     (let (ok, v1, m1) = ev_reserve MUL (ev_size v + 1) v m
      in if ok then (True, v1\<lparr>ev_items := ev_items v1 @ [x]\<rparr>, m1) else (False, v1, m1))"

text \<open>\<open>deleter\<close> acts on the client's state; an index out of range reads beyond the array.\<close>

definition ev_erase :: "('a \<Rightarrow> 's \<Rightarrow> 's option) \<Rightarrow> nat \<Rightarrow> bool \<Rightarrow> 'a evector \<Rightarrow> 's \<Rightarrow> ('a evector \<times> 's) option" where
  "ev_erase deleter index free v s =
     (if ev_size v \<le> index then None
      else do {
        s1 \<leftarrow> deleter (ev_items v ! index) s;
        let xs = take index (ev_items v) @ drop (Suc index) (ev_items v);
        Some (v\<lparr>ev_items := xs, ev_rsvd := (if free \<and> xs = [] then 0 else ev_rsvd v)\<rparr>, s1)
      })"

primrec ev_delete_all :: "('a \<Rightarrow> 's \<Rightarrow> 's option) \<Rightarrow> 'a list \<Rightarrow> 's \<Rightarrow> 's option" where
  "ev_delete_all deleter [] s = Some s"
| "ev_delete_all deleter (x # xs) s = deleter x s \<bind> ev_delete_all deleter xs"

definition ev_deinit :: "('a \<Rightarrow> 's \<Rightarrow> 's option) \<Rightarrow> 'a evector \<Rightarrow> 's \<Rightarrow> ('a evector \<times> 's) option" where
  "ev_deinit deleter v s =
     (if ev_rsvd v \<noteq> 0 then do { s1 \<leftarrow> ev_delete_all deleter (ev_items v) s; Some (ev_empty, s1) }
      else Some (v, s))"

section \<open>Circular buffer\<close>

record 'a CircularBuffer =
  cb_storage :: "'a list"
  cb_size :: u32
  cb_indexr :: u32
  cb_indexw :: u32
  cb_count :: u32

definition cb_init :: "'a list \<Rightarrow> 'a CircularBuffer" where
  "cb_init buffer = \<lparr>cb_storage = buffer, cb_size = of_nat (length buffer), cb_indexr = 0,
     cb_indexw = 0, cb_count = 0\<rparr>"

definition cb_isEmpty :: "'a CircularBuffer \<Rightarrow> bool" where
  "cb_isEmpty b \<longleftrightarrow> cb_count b = 0 \<and> cb_indexr b = cb_indexw b"

definition cb_isFull :: "'a CircularBuffer \<Rightarrow> bool" where
  "cb_isFull b \<longleftrightarrow> cb_count b = cb_size b \<and> cb_indexr b = cb_indexw b"

definition cb_push :: "'a \<Rightarrow> 'a CircularBuffer \<Rightarrow> bool \<times> 'a CircularBuffer" where
  "cb_push x b =
     (if cb_isFull b then (False, b)
      else (True, b\<lparr>cb_storage := (cb_storage b)[unat (cb_indexw b) := x],
                    cb_indexw := (cb_indexw b + 1) mod cb_size b, cb_count := cb_count b + 1\<rparr>))"

definition cb_pop :: "'a CircularBuffer \<Rightarrow> 'a option \<times> 'a CircularBuffer" where
  "cb_pop b =
     (if cb_isEmpty b then (None, b)
      else (Some (cb_storage b ! unat (cb_indexr b)),
            b\<lparr>cb_indexr := (cb_indexr b + 1) mod cb_size b, cb_count := cb_count b - 1\<rparr>))"

section \<open>Thread-specific values\<close>

text \<open>\<open>N\<close> slots, each with the thread that owns it (0 is no thread) and its value.\<close>

record 'a ThreadLocal =
  tl_threads :: "u64 list"
  tl_values :: "'a list"

primrec find_slot :: "u64 \<Rightarrow> u64 list \<Rightarrow> nat \<Rightarrow> nat option" where
  "find_slot t [] i = None"
| "find_slot t (u # us) i = (if u = t then Some i else find_slot t us (Suc i))"

definition tl_init :: "nat \<Rightarrow> 'a \<Rightarrow> 'a ThreadLocal" where
  "tl_init n z = \<lparr>tl_threads = replicate n 0, tl_values = replicate n z\<rparr>"

definition tl_set :: "u64 \<Rightarrow> 'a \<Rightarrow> 'a ThreadLocal \<Rightarrow> bool \<times> 'a ThreadLocal" where
  "tl_set t x l =
     (case find_slot t (tl_threads l) 0 of
        Some i \<Rightarrow> (True, l\<lparr>tl_values := (tl_values l)[i := x]\<rparr>)
      | None \<Rightarrow>
         (case find_slot 0 (tl_threads l) 0 of
            Some i \<Rightarrow> (True, l\<lparr>tl_threads := (tl_threads l)[i := t], tl_values := (tl_values l)[i := x]\<rparr>)
          | None \<Rightarrow> (False, l)))"

definition tl_get :: "u64 \<Rightarrow> 'a ThreadLocal \<Rightarrow> 'a option" where
  "tl_get t l = map_option (\<lambda>i. tl_values l ! i) (find_slot t (tl_threads l) 0)"

definition tl_erase :: "u64 \<Rightarrow> 'a \<Rightarrow> 'a ThreadLocal \<Rightarrow> bool \<times> 'a ThreadLocal" where
  "tl_erase t z l =
     (case find_slot t (tl_threads l) 0 of
        Some i \<Rightarrow> (True, l\<lparr>tl_threads := (tl_threads l)[i := 0], tl_values := (tl_values l)[i := z]\<rparr>)
      | None \<Rightarrow> (False, l))"

definition tl_deinit :: "'a \<Rightarrow> 'a ThreadLocal \<Rightarrow> 'a ThreadLocal" where
  "tl_deinit z l = \<lparr>tl_threads = map (\<lambda>_. 0) (tl_threads l), tl_values = map (\<lambda>_. z) (tl_values l)\<rparr>"

section \<open>What the vector promises\<close>

text \<open>
  An append-only array as the patcher uses it: a successful insertion puts the element last
  and keeps every index handed out before.
\<close>

locale dyn_array =
  fixes items :: "'v \<Rightarrow> 'a list"
    and push :: "'a \<Rightarrow> 'v \<Rightarrow> machine \<Rightarrow> bool \<times> 'v \<times> machine"
    and erase :: "nat \<Rightarrow> 'v \<Rightarrow> 'v option"
    and wf :: "'v \<Rightarrow> bool"
  assumes push_wf: "wf v \<Longrightarrow> push x v m = (ok, v', m') \<Longrightarrow> wf v'"
    and push_items: "wf v \<Longrightarrow> push x v m = (ok, v', m') \<Longrightarrow>
      items v' = (if ok then items v @ [x] else items v)"
    and push_mem: "push x v m = (ok, v', m') \<Longrightarrow> mem m' = mem m"
    and erase_wf: "wf v \<Longrightarrow> erase i v = Some v' \<Longrightarrow> wf v'"
    and erase_items: "wf v \<Longrightarrow> i < length (items v) \<Longrightarrow>
      \<exists>v'. erase i v = Some v' \<and> items v' = take i (items v) @ drop (Suc i) (items v)"
    and erase_range: "\<not> i < length (items v) \<Longrightarrow> erase i v = None"
begin

lemma push_keeps_index:
  "wf v \<Longrightarrow> push x v m = (ok, v', m') \<Longrightarrow> i < length (items v) \<Longrightarrow> items v' ! i = items v ! i"
  by (auto simp: push_items nth_append)

lemma push_then_erase:
  assumes "wf v" and "push x v m = (True, v', m')"
  shows "\<exists>v''. erase (length (items v')  - 1) v' = Some v'' \<and> items v'' = items v"
proof -
  have i: "items v' = items v @ [x]" and w: "wf v'"
    using assms push_items push_wf by auto
  then show ?thesis using erase_items [OF w, of "length (items v)"] by simp
qed

end

definition ev_wf :: "'a evector \<Rightarrow> bool" where
  "ev_wf v \<longleftrightarrow> ev_size v \<le> ev_rsvd v"

lemma ev_empty_wf [simp]: "ev_wf ev_empty" "ev_items ev_empty = []" "ev_size ev_empty = 0"
  by (simp_all add: ev_wf_def ev_size_def ev_empty_def)

lemma ev_push_back_cases:
  assumes "ev_push_back MUL x v m = (ok, v', m')"
  shows "(if ok then ev_items v' = ev_items v @ [x] else v' = v) \<and>
    m' = (if ev_rsvd v < ev_size v + 1 then m\<lparr>alloc_no := Suc (alloc_no m)\<rparr> else m) \<and>
    (ok \<longrightarrow> ev_rsvd v' = (if ev_rsvd v < ev_size v + 1 then MUL * (ev_size v + 1) else ev_rsvd v)) \<and>
    (ok \<longleftrightarrow> \<not> ev_rsvd v < ev_size v + 1 \<or> alloc_at m (alloc_no m) \<noteq> 0)"
  using assms
  by (auto simp: ev_push_back_def ev_reserve_def allocate_def Let_def split: if_splits)

lemma ev_push_back_wf:
  "0 < MUL \<Longrightarrow> ev_wf v \<Longrightarrow> ev_push_back MUL x v m = (ok, v', m') \<Longrightarrow> ev_wf v'"
  by (drule ev_push_back_cases)
     (cases ok; cases MUL; auto simp: ev_wf_def ev_size_def split: if_splits)

definition ev_drop :: "nat \<Rightarrow> 'a evector \<Rightarrow> 'a evector option" where
  "ev_drop i v = map_option fst (ev_erase (\<lambda>_. Some) i True v ())"

lemma ev_erase_items:
  "ev_erase del i free v s = Some (v', s') \<Longrightarrow>
     i < ev_size v \<and> ev_items v' = take i (ev_items v) @ drop (Suc i) (ev_items v) \<and>
     del (ev_items v ! i) s = Some s'"
  by (auto simp: ev_erase_def Let_def split: if_splits bind_splits)

lemma ev_erase_wf:
  "ev_wf v \<Longrightarrow> ev_erase del i free v s = Some (v', s') \<Longrightarrow> ev_wf v'"
  by (auto simp: ev_erase_def Let_def ev_wf_def ev_size_def split: if_splits bind_splits)

interpretation kv: dyn_array ev_items "ev_push_back 2" ev_drop ev_wf
proof
  show "ev_wf v'" if "ev_wf v" "ev_drop i v = Some v'" for v v' :: "'a evector" and i
    using that ev_erase_wf by (auto simp: ev_drop_def)
  show "\<exists>v'. ev_drop i v = Some v' \<and> ev_items v' = take i (ev_items v) @ drop (Suc i) (ev_items v)"
    if "ev_wf v" "i < length (ev_items v)" for v :: "'a evector" and i
    using that by (simp add: ev_drop_def ev_erase_def ev_size_def Let_def)
  show "ev_drop i v = None" if "\<not> i < length (ev_items v)" for v :: "'a evector" and i
    using that by (simp add: ev_drop_def ev_erase_def ev_size_def)
qed (auto dest: ev_push_back_cases intro: ev_push_back_wf [of 2] split: if_splits)

section \<open>What the circular buffer promises\<close>

locale bounded_fifo =
  fixes enq :: "'a \<Rightarrow> 'q \<Rightarrow> bool \<times> 'q"
    and deq :: "'q \<Rightarrow> 'a option \<times> 'q"
    and wf :: "'q \<Rightarrow> bool"
    and queue :: "'q \<Rightarrow> 'a list"
    and cap :: "'q \<Rightarrow> nat"
  assumes enq_wf: "wf q \<Longrightarrow> wf (snd (enq x q)) \<and> cap (snd (enq x q)) = cap q"
    and deq_wf: "wf q \<Longrightarrow> wf (snd (deq q)) \<and> cap (snd (deq q)) = cap q"
    and enq_room: "wf q \<Longrightarrow> length (queue q) < cap q \<Longrightarrow>
      fst (enq x q) \<and> queue (snd (enq x q)) = queue q @ [x]"
    and enq_full: "wf q \<Longrightarrow> length (queue q) = cap q \<Longrightarrow> enq x q = (False, q)"
    and deq_empty: "wf q \<Longrightarrow> queue q = [] \<Longrightarrow> deq q = (None, q)"
    and deq_first: "wf q \<Longrightarrow> queue q = y # ys \<Longrightarrow>
      fst (deq q) = Some y \<and> queue (snd (deq q)) = ys"
begin

primrec enq_all :: "'a list \<Rightarrow> 'q \<Rightarrow> 'q" where
  "enq_all [] q = q"
| "enq_all (x # xs) q = enq_all xs (snd (enq x q))"

primrec deq_n :: "nat \<Rightarrow> 'q \<Rightarrow> 'a option list" where
  "deq_n 0 q = []"
| "deq_n (Suc n) q = fst (deq q) # deq_n n (snd (deq q))"

lemma enq_all_queue:
  "wf q \<Longrightarrow> length (queue q) + length xs \<le> cap q \<Longrightarrow>
     wf (enq_all xs q) \<and> queue (enq_all xs q) = queue q @ xs"
proof (induction xs arbitrary: q)
  case (Cons x xs)
  then have "queue (snd (enq x q)) = queue q @ [x]" using enq_room [of q x] by simp
  then show ?case using Cons enq_wf [of q x] by simp
qed simp

lemma deq_n_queue:
  "wf q \<Longrightarrow> n \<le> length (queue q) \<Longrightarrow> deq_n n q = map Some (take n (queue q))"
proof (induction n arbitrary: q)
  case (Suc n)
  then obtain y ys where q: "queue q = y # ys" by (cases "queue q") auto
  then show ?case using Suc deq_wf [of q] deq_first [OF Suc.prems(1) q] by simp
qed simp

text \<open>First in, first out: what is written comes back in order behind what was there.\<close>

lemma fifo:
  "wf q \<Longrightarrow> length (queue q) + length xs \<le> cap q \<Longrightarrow>
     deq_n (length (queue q) + length xs) (enq_all xs q) = map Some (queue q @ xs)"
  using enq_all_queue [of q xs] deq_n_queue [of "enq_all xs q" "length (queue q) + length xs"]
  by simp

end
definition cb_wf :: "'a CircularBuffer \<Rightarrow> bool" where
  "cb_wf b \<longleftrightarrow> 0 < unat (cb_size b) \<and> length (cb_storage b) = unat (cb_size b) \<and>
     unat (cb_indexr b) < unat (cb_size b) \<and> unat (cb_count b) \<le> unat (cb_size b) \<and>
     unat (cb_indexw b) = (unat (cb_indexr b) + unat (cb_count b)) mod unat (cb_size b)"

definition cb_queue :: "'a CircularBuffer \<Rightarrow> 'a list" where
  "cb_queue b = map (\<lambda>i. cb_storage b ! ((unat (cb_indexr b) + i) mod unat (cb_size b)))
     [0..<unat (cb_count b)]"

definition cb_cap :: "'a CircularBuffer \<Rightarrow> nat" where
  "cb_cap b = unat (cb_size b)"

lemma length_cb_queue [simp]: "length (cb_queue b) = unat (cb_count b)"
  by (simp add: cb_queue_def)

lemma unat_Suc_below:
  fixes i s :: "'a::len word"
  assumes "unat i < unat s"
  shows "unat (i + 1) = Suc (unat i)"
proof -
  have "unat s < 2 ^ LENGTH('a)" by (rule unsigned_less)
  then have "Suc (unat i) < 2 ^ LENGTH('a)" using assms by linarith
  then show ?thesis by (simp add: unat_word_ariths)
qed

lemma unat_next: "unat i < unat s \<Longrightarrow> unat ((i + 1) mod s) = Suc (unat i) mod unat (s :: u32)"
  by (simp add: unat_mod unat_Suc_below)

lemma cb_full_iff: "cb_wf b \<Longrightarrow> cb_isFull b \<longleftrightarrow> unat (cb_count b) = unat (cb_size b)"
  by (auto simp: cb_isFull_def cb_wf_def word_unat_eq_iff)

lemma cb_empty_iff: "cb_wf b \<Longrightarrow> cb_isEmpty b \<longleftrightarrow> unat (cb_count b) = 0"
  by (auto simp: cb_isEmpty_def cb_wf_def word_unat_eq_iff)

lemma mod_window_distinct:
  assumes "i < c" and "c < (n :: nat)"
  shows "(r + i) mod n \<noteq> (r + c) mod n"
proof
  assume "(r + i) mod n = (r + c) mod n"
  then have "n dvd (r + c) - (r + i)" using mod_eq_dvd_iff_nat [of "r + i" "r + c" n] assms by auto
  then have "n dvd c - i" by simp
  moreover have "0 < c - i" "c - i < n" using assms by simp_all
  ultimately show False using nat_dvd_not_less by blast
qed

lemma cb_push_room:
  assumes wf: "cb_wf b" and room: "unat (cb_count b) < unat (cb_size b)"
  shows "fst (cb_push x b) \<and> cb_wf (snd (cb_push x b)) \<and>
    cb_queue (snd (cb_push x b)) = cb_queue b @ [x]"
proof -
  let ?n = "unat (cb_size b)" and ?r = "unat (cb_indexr b)" and ?c = "unat (cb_count b)"
  have nf: "\<not> cb_isFull b" using cb_full_iff [OF wf] room by simp
  have w: "unat (cb_indexw b) = (?r + ?c) mod ?n" "?n = length (cb_storage b)" "0 < ?n" "?r < ?n"
    using wf by (auto simp: cb_wf_def)
  then have wlt: "unat (cb_indexw b) < ?n" by simp
  have c: "unat (cb_count b + 1) = Suc ?c" using unat_Suc_below [OF room] .
  have nxt: "unat ((cb_indexw b + 1) mod cb_size b) = (?r + Suc ?c) mod ?n"
    using unat_next [OF wlt] w by (simp add: mod_Suc_eq)
  have old: "(cb_storage b)[unat (cb_indexw b) := x] ! ((?r + i) mod ?n) =
      cb_storage b ! ((?r + i) mod ?n)" if "i < ?c" for i
    using mod_window_distinct [OF that room, of ?r] w by simp
  have new: "(cb_storage b)[unat (cb_indexw b) := x] ! ((?r + ?c) mod ?n) = x"
    using w by simp
  show ?thesis using nf w room c nxt old new
    by (simp add: cb_push_def cb_wf_def cb_queue_def)
qed

lemma cb_pop_first:
  assumes wf: "cb_wf b" and ne: "0 < unat (cb_count b)"
  shows "fst (cb_pop b) = Some (hd (cb_queue b)) \<and> cb_wf (snd (cb_pop b)) \<and>
    cb_queue (snd (cb_pop b)) = tl (cb_queue b)"
proof -
  let ?n = "unat (cb_size b)" and ?r = "unat (cb_indexr b)" and ?c = "unat (cb_count b)"
  have nf: "\<not> cb_isEmpty b" using cb_empty_iff [OF wf] ne by simp
  have w: "unat (cb_indexw b) = (?r + ?c) mod ?n" "?n = length (cb_storage b)" "0 < ?n" "?r < ?n"
    "?c \<le> ?n" using wf by (auto simp: cb_wf_def)
  have c: "unat (cb_count b - 1) = ?c - 1" using ne by (simp add: unat_minus_one word_unat_eq_iff)
  have nxt: "unat ((cb_indexr b + 1) mod cb_size b) = Suc ?r mod ?n" using unat_next w by simp
  obtain k where k: "?c = Suc k" using ne by (cases ?c) auto
  have shift: "(Suc ?r mod ?n + i) mod ?n = (?r + Suc i) mod ?n" for i by (simp add: mod_simps)
  have q: "cb_queue b = cb_storage b ! (?r mod ?n) #
      map (\<lambda>i. cb_storage b ! ((?r + Suc i) mod ?n)) [0..<k]"
    unfolding cb_queue_def k by (simp add: map_upt_Suc del: upt_Suc)
  show ?thesis using nf w c nxt k q shift [of k]
    by (auto simp: cb_pop_def cb_wf_def cb_queue_def [of "_\<lparr>cb_indexr := _, cb_count := _\<rparr>"]
        mod_add_left_eq)
qed

interpretation cb: bounded_fifo cb_push cb_pop cb_wf cb_queue cb_cap
proof
  fix q :: "'a CircularBuffer" and x y ys
  assume wf: "cb_wf q"
  then have le: "unat (cb_count q) \<le> unat (cb_size q)" by (simp add: cb_wf_def)
  show full: "cb_push x q = (False, q)" if "length (cb_queue q) = cb_cap q"
    using cb_full_iff [OF wf] that by (simp add: cb_push_def cb_cap_def)
  show room: "fst (cb_push x q) \<and> cb_queue (snd (cb_push x q)) = cb_queue q @ [x]"
    if "length (cb_queue q) < cb_cap q" using cb_push_room [OF wf] that by (simp add: cb_cap_def)
  show "cb_wf (snd (cb_push x q)) \<and> cb_cap (snd (cb_push x q)) = cb_cap q"
    using cb_push_room [OF wf, of x] cb_full_iff [OF wf] le wf
    by (cases "cb_isFull q") (auto simp: cb_push_def cb_cap_def)
  show empty: "cb_pop q = (None, q)" if "cb_queue q = []"
  proof -
    have "unat (cb_count q) = 0" using that length_cb_queue [of q] by simp
    then show ?thesis using cb_empty_iff [OF wf] by (simp add: cb_pop_def)
  qed
  show "cb_wf (snd (cb_pop q)) \<and> cb_cap (snd (cb_pop q)) = cb_cap q"
    using cb_pop_first [OF wf] cb_empty_iff [OF wf] wf
    by (cases "cb_isEmpty q") (auto simp: cb_pop_def cb_cap_def)
  show "fst (cb_pop q) = Some y \<and> cb_queue (snd (cb_pop q)) = ys" if "cb_queue q = y # ys"
  proof -
    have "0 < unat (cb_count q)" using that length_cb_queue [of q] by simp
    then show ?thesis using cb_pop_first [OF wf] that by simp
  qed
qed

lemma cb_init_wf:
  assumes "0 < length buf" and "length buf < 2 ^ 32"
  shows "cb_wf (cb_init buf) \<and> cb_queue (cb_init buf) = [] \<and> cb_cap (cb_init buf) = length buf"
proof -
  have "unat (of_nat (length buf) :: u32) = length buf" using assms(2) by (simp add: unat_of_nat)
  then show ?thesis using assms(1) by (simp add: cb_init_def cb_wf_def cb_queue_def cb_cap_def)
qed

section \<open>What the thread store promises\<close>

text \<open>A map from threads to values that holds at most \<open>N\<close> threads.\<close>

locale thread_map =
  fixes look :: "u64 \<Rightarrow> 's \<Rightarrow> 'a option"
    and put :: "u64 \<Rightarrow> 'a \<Rightarrow> 's \<Rightarrow> bool \<times> 's"
    and del :: "u64 \<Rightarrow> 's \<Rightarrow> bool \<times> 's"
    and cap :: "'s \<Rightarrow> nat"
    and wf :: "'s \<Rightarrow> bool"
  assumes put_wf: "t \<noteq> 0 \<Longrightarrow> wf s \<Longrightarrow> wf (snd (put t x s))"
    and del_wf: "t \<noteq> 0 \<Longrightarrow> wf s \<Longrightarrow> wf (snd (del t s))"
    and put_look: "t \<noteq> 0 \<Longrightarrow> u \<noteq> 0 \<Longrightarrow> wf s \<Longrightarrow> fst (put t x s) \<Longrightarrow>
      look u (snd (put t x s)) = (if u = t then Some x else look u s)"
    and put_full: "\<not> fst (put t x s) \<Longrightarrow> snd (put t x s) = s"
    and put_succeeds: "t \<noteq> 0 \<Longrightarrow> wf s \<Longrightarrow>
      fst (put t x s) \<longleftrightarrow> look t s \<noteq> None \<or> card {u. u \<noteq> 0 \<and> look u s \<noteq> None} < cap s"
    and del_succeeds: "fst (del t s) \<longleftrightarrow> look t s \<noteq> None"
    and cap_kept: "cap (snd (put t x s)) = cap s" "cap (snd (del t s)) = cap s"
    and del_look: "t \<noteq> 0 \<Longrightarrow> u \<noteq> 0 \<Longrightarrow> wf s \<Longrightarrow>
      look u (snd (del t s)) = (if u = t then None else look u s)"
begin

lemma put_del: "t \<noteq> 0 \<Longrightarrow> u \<noteq> 0 \<Longrightarrow> wf s \<Longrightarrow> fst (put t x s) \<Longrightarrow> look t s = None \<Longrightarrow>
    look u (snd (del t (snd (put t x s)))) = look u s"
  by (simp add: del_look put_look put_wf)

lemma put_twice: "t \<noteq> 0 \<Longrightarrow> wf s \<Longrightarrow> fst (put t x s) \<Longrightarrow>
    fst (put t y (snd (put t x s))) \<and> look t (snd (put t y (snd (put t x s)))) = Some y"
  using put_succeeds [of t "snd (put t x s)" y] by (simp add: put_look put_wf)

end

definition tl_wf :: "'a ThreadLocal \<Rightarrow> bool" where
  "tl_wf l \<longleftrightarrow> length (tl_values l) = length (tl_threads l) \<and>
     (\<forall>i < length (tl_threads l). \<forall>j < length (tl_threads l).
        tl_threads l ! i = tl_threads l ! j \<and> tl_threads l ! i \<noteq> 0 \<longrightarrow> i = j)"

lemma find_slot_Some:
  "find_slot t us k = Some i \<Longrightarrow> k \<le> i \<and> i < k + length us \<and> us ! (i - k) = t"
  by (induction us arbitrary: k) (auto simp: nth_Cons' split: if_splits, fastforce+)

lemma find_slot_None: "find_slot t us k = None \<longleftrightarrow> t \<notin> set us"
  by (induction us arbitrary: k) auto

lemma find_slot_iff:
  assumes "tl_wf l" and "t \<noteq> 0"
  shows "find_slot t (tl_threads l) 0 = Some i \<longleftrightarrow> i < length (tl_threads l) \<and> tl_threads l ! i = t"
proof
  assume i: "i < length (tl_threads l) \<and> tl_threads l ! i = t"
  then have "find_slot t (tl_threads l) 0 \<noteq> None" by (auto simp: find_slot_None)
  then obtain j where j: "find_slot t (tl_threads l) 0 = Some j" by auto
  then have "j < length (tl_threads l)" "tl_threads l ! j = t" using find_slot_Some [OF j] by auto
  then show "find_slot t (tl_threads l) 0 = Some i"
    using assms i j unfolding tl_wf_def by metis
qed (use find_slot_Some in fastforce)

lemma tl_get_Some:
  assumes "tl_wf l" and "t \<noteq> 0" and "i < length (tl_threads l)" and "tl_threads l ! i = t"
  shows "tl_get t l = Some (tl_values l ! i)"
  using find_slot_iff [OF assms(1,2), of i] assms(3,4) by (simp add: tl_get_def)

lemma tl_get_None: "tl_get t l = None \<longleftrightarrow> t \<notin> set (tl_threads l)"
  by (simp add: tl_get_def find_slot_None)

text \<open>Handing slot \<open>i\<close> to thread \<open>t\<close> (or to nobody) changes nothing for the other threads.\<close>

lemma tl_get_upd:
  fixes x :: 'a
  assumes wf: "tl_wf l" and i: "i < length (tl_threads l)" and u: "u \<noteq> 0"
    and others: "\<And>j. j < length (tl_threads l) \<Longrightarrow> j \<noteq> i \<Longrightarrow> t = 0 \<or> tl_threads l ! j \<noteq> t"
  defines "l' \<equiv> l\<lparr>tl_threads := (tl_threads l)[i := t], tl_values := (tl_values l)[i := x]\<rparr>"
  shows "tl_wf l'"
    and "tl_get u l' = (if u = t then Some x else if u = tl_threads l ! i then None else tl_get u l)"
proof -
  show wf': "tl_wf l'" using wf i others unfolding l'_def tl_wf_def
    by (auto simp: nth_list_update split: if_splits)
  have len: "length (tl_values l) = length (tl_threads l)" using wf by (simp add: tl_wf_def)
  have keep: "tl_get u l' = tl_get u l" if j: "j < length (tl_threads l)" "tl_threads l ! j = u" "j \<noteq> i" for j
    using tl_get_Some [OF wf' u, of j] tl_get_Some [OF wf u j(1,2)] j by (simp add: l'_def)
  have gone: "tl_get u l' = None" if "u \<noteq> t" "\<And>j. j < length (tl_threads l) \<Longrightarrow> j \<noteq> i \<Longrightarrow> tl_threads l ! j \<noteq> u"
    using that i by (auto simp: tl_get_None l'_def in_set_conv_nth nth_list_update split: if_splits)
  consider "u = t" | "u \<noteq> t" "u = tl_threads l ! i" | j where "u \<noteq> t" "u \<noteq> tl_threads l ! i" "j < length (tl_threads l)"
      "tl_threads l ! j = u" "j \<noteq> i" | "u \<noteq> t" "u \<noteq> tl_threads l ! i" "u \<notin> set (tl_threads l)"
    by (metis in_set_conv_nth)
  then show "tl_get u l' = (if u = t then Some x else if u = tl_threads l ! i then None else tl_get u l)"
  proof cases
    case 1
    then show ?thesis using tl_get_Some [OF wf' u, of i] i len by (simp add: l'_def)
  next
    case 2
    then show ?thesis using gone wf i u unfolding tl_wf_def by metis
  next
    case 3
    then show ?thesis using keep by simp
  next
    case 4
    then have "tl_get u l = None" by (simp add: tl_get_None)
    then show ?thesis using 4 gone by (auto simp: in_set_conv_nth)
  qed
qed

lemma tl_set_spec:
  assumes wf: "tl_wf l" and t: "t \<noteq> 0" and u: "u \<noteq> 0"
  shows "tl_wf (snd (tl_set t x l)) \<and> (fst (tl_set t x l) \<longrightarrow>
    tl_get u (snd (tl_set t x l)) = (if u = t then Some x else tl_get u l))"
proof (cases "find_slot t (tl_threads l) 0")
  case (Some i)
  then have i: "i < length (tl_threads l)" "tl_threads l ! i = t" using find_slot_iff [OF wf t] by auto
  have "j \<noteq> i \<Longrightarrow> tl_threads l ! j \<noteq> t" if "j < length (tl_threads l)" for j
    using that i wf t unfolding tl_wf_def by metis
  moreover have "l\<lparr>tl_threads := (tl_threads l)[i := t], tl_values := v\<rparr> = l\<lparr>tl_values := v\<rparr>" for v
    using i by (simp add: list_update_id [of "tl_threads l" i, unfolded i(2)])
  ultimately show ?thesis using tl_get_upd [OF wf i(1) u, of t x] i Some by (auto simp: tl_set_def)
next
  case None
  then have nt: "\<And>j. j < length (tl_threads l) \<Longrightarrow> tl_threads l ! j \<noteq> t"
    using find_slot_None [of t "tl_threads l" 0] nth_mem by blast
  show ?thesis
  proof (cases "find_slot 0 (tl_threads l) 0")
    case (Some i)
    then have i: "i < length (tl_threads l)" "tl_threads l ! i = 0" using find_slot_Some [OF Some] by auto
    then show ?thesis using tl_get_upd [OF wf i(1) u, of t x] nt Some None u by (auto simp: tl_set_def)
  qed (use wf None in \<open>simp add: tl_set_def\<close>)
qed

lemma tl_erase_spec:
  assumes wf: "tl_wf l" and t: "t \<noteq> 0" and u: "u \<noteq> 0"
  shows "tl_wf (snd (tl_erase t z l)) \<and>
    tl_get u (snd (tl_erase t z l)) = (if u = t then None else tl_get u l)"
proof (cases "find_slot t (tl_threads l) 0")
  case (Some i)
  then have i: "i < length (tl_threads l)" "tl_threads l ! i = t" using find_slot_iff [OF wf t] by auto
  then show ?thesis using tl_get_upd [OF wf i(1) u, of 0 z] i Some u by (simp add: tl_erase_def)
next
  case None
  then have "tl_get t l = None" by (simp add: tl_get_def)
  then show ?thesis using wf None by (auto simp: tl_erase_def)
qed

lemma distinct_filterI:
  assumes "\<And>i j. i < length xs \<Longrightarrow> j < length xs \<Longrightarrow> xs ! i = xs ! j \<Longrightarrow> P (xs ! i) \<Longrightarrow> i = j"
  shows "distinct (filter P xs)"
  using assms
proof (induction xs)
  case (Cons a xs)
  have "i = j" if "i < length xs" "j < length xs" "xs ! i = xs ! j" "P (xs ! i)" for i j
    using Cons.prems [of "Suc i" "Suc j"] that by simp
  then have "distinct (filter P xs)" by (rule Cons.IH)
  moreover have "a \<noteq> xs ! j" if "P a" "j < length xs" for j
    using Cons.prems [of 0 "Suc j"] that by auto
  ultimately show ?case by (auto simp: in_set_conv_nth)
qed simp

text \<open>There is a free slot exactly when fewer threads have a value than there are slots.\<close>

lemma tl_free_slot:
  assumes "tl_wf l"
  shows "0 \<in> set (tl_threads l) \<longleftrightarrow> card {u. u \<noteq> 0 \<and> tl_get u l \<noteq> None} < length (tl_threads l)"
proof -
  let ?ts = "tl_threads l"
  have d: "distinct (filter (\<lambda>u. u \<noteq> 0) ?ts)"
    by (rule distinct_filterI) (use assms in \<open>unfold tl_wf_def, blast\<close>)
  have "{u. u \<noteq> 0 \<and> tl_get u l \<noteq> None} = set (filter (\<lambda>u. u \<noteq> 0) ?ts)"
    by (auto simp: tl_get_None)
  then have "card {u. u \<noteq> 0 \<and> tl_get u l \<noteq> None} = length (filter (\<lambda>u. u \<noteq> 0) ?ts)"
    using distinct_card [OF d] by simp
  moreover have "length (filter (\<lambda>u. u \<noteq> 0) ?ts) < length ?ts" if "0 \<in> set ?ts"
    using that by (rule length_filter_less) simp
  moreover have "filter (\<lambda>u. u \<noteq> 0) ?ts = ?ts" if "0 \<notin> set ?ts"
    using that by (intro filter_True) auto
  ultimately show ?thesis by (cases "0 \<in> set ?ts") simp_all
qed

lemma tl_set_succeeds: "fst (tl_set t x l) \<longleftrightarrow> tl_get t l \<noteq> None \<or> 0 \<in> set (tl_threads l)"
  using find_slot_None [of 0 "tl_threads l" 0] by (auto simp: tl_set_def tl_get_def split: option.splits)

interpretation tloc: thread_map tl_get tl_set "\<lambda>t. tl_erase t z" "\<lambda>l. length (tl_threads l)" tl_wf for z :: 'a
proof
  show "fst (tl_set t x s) \<longleftrightarrow> tl_get t s \<noteq> None \<or> card {u. u \<noteq> 0 \<and> tl_get u s \<noteq> None} < length (tl_threads s)"
    if "tl_wf s" for t and x :: 'a and s
    using tl_free_slot [OF that] tl_set_succeeds [of t x s] by simp
  show "fst (tl_erase t z s) \<longleftrightarrow> tl_get t s \<noteq> None" for t and s :: "'a ThreadLocal"
    by (auto simp: tl_erase_def tl_get_def split: option.splits)
  show "length (tl_threads (snd (tl_set t x s))) = length (tl_threads s)" "length (tl_threads (snd (tl_erase t z s))) = length (tl_threads s)"
    for t and x :: 'a and s
    by (auto simp: tl_set_def tl_erase_def split: option.splits)
  show "snd (tl_set t x s) = s" if "\<not> fst (tl_set t x s)" for t and x :: 'a and s
    using that by (auto simp: tl_set_def split: option.splits)
  fix t u :: u64 and x :: 'a and s :: "'a ThreadLocal"
  assume t: "t \<noteq> 0" and s: "tl_wf s"
  show "tl_wf (snd (tl_set t x s))" and "tl_wf (snd (tl_erase t z s))"
    using tl_set_spec [OF s t t, of x] tl_erase_spec [OF s t t, of z] by simp_all
  assume u: "u \<noteq> 0"
  show "tl_get u (snd (tl_erase t z s)) = (if u = t then None else tl_get u s)"
    using tl_erase_spec [OF s t u, of z] by simp
  assume "fst (tl_set t x s)"
  then show "tl_get u (snd (tl_set t x s)) = (if u = t then Some x else tl_get u s)"
    using tl_set_spec [OF s t u, of x] by simp
qed

lemma tl_init_wf: "tl_wf (tl_init n z) \<and> (t \<noteq> 0 \<longrightarrow> tl_get t (tl_init n z) = None)"
  by (auto simp: tl_wf_def tl_init_def tl_get_None)

text \<open>
  C24. The circular buffer is a first-in first-out queue of its capacity: what is pushed into the room left
  comes out in order behind what was there, a push into a full buffer and a pop from an empty one fail
  and change nothing.
\<close>

theorem CircularBuffer_fifo:
  assumes "cb_wf b"
  shows "(length (cb_queue b) + length xs \<le> cb_cap b \<longrightarrow>
      cb.deq_n (length (cb_queue b) + length xs) (cb.enq_all xs b) = map Some (cb_queue b @ xs)) \<and>
    (length (cb_queue b) = cb_cap b \<longrightarrow> cb_push x b = (False, b)) \<and>
    (cb_queue b = [] \<longrightarrow> cb_pop b = (None, b))"
  using cb.fifo [OF assms] cb.enq_full [OF assms] cb.deq_empty [OF assms] by simp

theorem CircularBuffer_fifo_witness:
  "cb.deq_n 2 (cb.enq_all [7, 8] (cb_init [0, 0, 0 :: nat])) = [Some 7, Some 8] \<and>
   cb_pop (cb_init [0, 0, 0 :: nat]) = (None, cb_init [0, 0, 0])"
proof -
  have i: "cb_wf (cb_init [0, 0, 0 :: nat])" "cb_queue (cb_init [0, 0, 0 :: nat]) = []" "cb_cap (cb_init [0, 0, 0 :: nat]) = 3"
    using cb_init_wf [of "[0, 0, 0 :: nat]"] by simp_all
  show ?thesis using CircularBuffer_fifo [OF i(1), of "[7, 8]"] i by (simp add: numeral_2_eq_2)
qed

text \<open>
  C25. The per-thread store is a map from threads to values for as many threads as it has slots. \<open>set\<close> succeeds exactly
  when the thread has a value already or fewer threads have one than there are slots; then it changes the value of that
  thread only, and otherwise it changes nothing. \<open>erase\<close> succeeds exactly when the thread has a value and removes that
  value only. Neither changes the number of slots, and two threads never share one.
\<close>

theorem ThreadLocal_map:
  assumes "tl_wf l" and "t \<noteq> 0" and "u \<noteq> 0"
  shows "fst (tl_set t x l) = (tl_get t l \<noteq> None \<or> card {v. v \<noteq> 0 \<and> tl_get v l \<noteq> None} < length (tl_threads l)) \<and>
    (if fst (tl_set t x l) then tl_get u (snd (tl_set t x l)) = (if u = t then Some x else tl_get u l)
     else snd (tl_set t x l) = l) \<and>
    fst (tl_erase t z l) = (tl_get t l \<noteq> None) \<and>
    tl_get u (snd (tl_erase t z l)) = (if u = t then None else tl_get u l) \<and>
    tl_wf (snd (tl_set t x l)) \<and> tl_wf (snd (tl_erase t z l)) \<and>
    length (tl_threads (snd (tl_set t x l))) = length (tl_threads l) \<and>
    length (tl_threads (snd (tl_erase t z l))) = length (tl_threads l)"
  using tloc.put_succeeds [OF assms(2,1), of x] tloc.put_look [OF assms(2,3,1), of x] tloc.put_full [of t x l]
    tloc.del_succeeds [of t z l] tloc.del_look [OF assms(2,3,1), of z] tloc.put_wf [OF assms(2,1), of x]
    tloc.del_wf [OF assms(2,1), of z] tloc.cap_kept(1) [of t x l] tloc.cap_kept(2) [of t z l] by simp

theorem ThreadLocal_map_witness:
  "fst (tl_set 5 (42 :: nat) (tl_init 2 0)) \<and> tl_get 5 (snd (tl_set 5 (42 :: nat) (tl_init 2 0))) = Some 42 \<and>
   tl_get 6 (snd (tl_set 5 (42 :: nat) (tl_init 2 0))) = None"
proof -
  have w: "tl_wf (tl_init 2 (0 :: nat))" and five: "(5 :: u64) \<noteq> 0" using tl_init_wf [of 2 "0 :: nat" 0] by simp_all
  have n: "tl_get v (tl_init 2 (0 :: nat)) = None" if "v \<noteq> 0" for v using tl_init_wf [of 2 "0 :: nat" v] that by simp
  then have "{v. v \<noteq> 0 \<and> tl_get v (tl_init 2 (0 :: nat)) \<noteq> None} = {}"
    by (intro Collect_empty_eq [THEN iffD2] allI notI) (elim conjE, simp)
  then have "card {v. v \<noteq> 0 \<and> tl_get v (tl_init 2 (0 :: nat)) \<noteq> None} < length (tl_threads (tl_init 2 (0 :: nat)))"
    by (simp only: card.empty) (simp add: tl_init_def)
  then have "fst (tl_set 5 (42 :: nat) (tl_init 2 0))" 
    using ThreadLocal_map [OF w five five, of 42 0] by blast
  then show ?thesis using ThreadLocal_map [OF w, of 5 5 "42" 0] ThreadLocal_map [OF w, of 5 6 "42" 0] n by simp
qed

end
