(* ===== verification/Hde64.thy ===== *)
theory Hde64
  imports Prelude
begin

text \<open>
  The instruction length decoder: \<open>hde64_disasm\<close> of \<open>hde/hde64.c\<close> with its table of
  \<open>hde/table64.h\<close>, phase by phase, and \<open>Disassembler::quickInstructionSize\<close> of
  \<open>kern_disasm.cpp\<close>, which the patcher uses to move whole instructions. The position
  \<open>p\<close> of the code is the offset \<open>hd_p\<close> from the first byte; the unions \<open>imm\<close> and
  \<open>disp\<close> are their little-endian words. The lemmas bound what the decoder consumes: an
  instruction has between 1 and 15 bytes, so the size loop ends.
\<close>

section \<open>Constants and table\<close>

definition C_MODRM :: byte where "C_MODRM = 0x01"
definition C_IMM8 :: byte where "C_IMM8 = 0x02"
definition C_IMM16 :: byte where "C_IMM16 = 0x04"
definition C_IMM_P66 :: byte where "C_IMM_P66 = 0x10"
definition C_REL8 :: byte where "C_REL8 = 0x20"
definition C_REL32 :: byte where "C_REL32 = 0x40"
definition C_GROUP :: byte where "C_GROUP = 0x80"
definition C_ERROR :: byte where "C_ERROR = 0xff"

definition PRE_NONE :: byte where "PRE_NONE = 0x01"
definition PRE_F2 :: byte where "PRE_F2 = 0x02"
definition PRE_F3 :: byte where "PRE_F3 = 0x04"
definition PRE_66 :: byte where "PRE_66 = 0x08"
definition PRE_67 :: byte where "PRE_67 = 0x10"
definition PRE_LOCK :: byte where "PRE_LOCK = 0x20"
definition PRE_SEG :: byte where "PRE_SEG = 0x40"

definition F_MODRM :: u32 where "F_MODRM = 0x00000001"
definition F_SIB :: u32 where "F_SIB = 0x00000002"
definition F_IMM8 :: u32 where "F_IMM8 = 0x00000004"
definition F_IMM16 :: u32 where "F_IMM16 = 0x00000008"
definition F_IMM32 :: u32 where "F_IMM32 = 0x00000010"
definition F_IMM64 :: u32 where "F_IMM64 = 0x00000020"
definition F_DISP8 :: u32 where "F_DISP8 = 0x00000040"
definition F_DISP16 :: u32 where "F_DISP16 = 0x00000080"
definition F_DISP32 :: u32 where "F_DISP32 = 0x00000100"
definition F_RELATIVE :: u32 where "F_RELATIVE = 0x00000200"
definition F_ERROR :: u32 where "F_ERROR = 0x00001000"
definition F_ERROR_OPCODE :: u32 where "F_ERROR_OPCODE = 0x00002000"
definition F_ERROR_LENGTH :: u32 where "F_ERROR_LENGTH = 0x00004000"
definition F_ERROR_LOCK :: u32 where "F_ERROR_LOCK = 0x00008000"
definition F_ERROR_OPERAND :: u32 where "F_ERROR_OPERAND = 0x00010000"
definition F_PREFIX_REX :: u32 where "F_PREFIX_REX = 0x40000000"

lemmas hde_consts = C_MODRM_def C_IMM8_def C_IMM16_def C_IMM_P66_def C_REL8_def C_REL32_def
  C_GROUP_def C_ERROR_def PRE_NONE_def PRE_F2_def PRE_F3_def PRE_66_def PRE_67_def PRE_LOCK_def
  PRE_SEG_def F_MODRM_def F_SIB_def F_IMM8_def F_IMM16_def F_IMM32_def F_IMM64_def F_DISP8_def
  F_DISP16_def F_DISP32_def F_RELATIVE_def F_ERROR_def F_ERROR_OPCODE_def F_ERROR_LENGTH_def
  F_ERROR_LOCK_def F_ERROR_OPERAND_def F_PREFIX_REX_def

definition DELTA_OPCODES :: nat where "DELTA_OPCODES = 0x4a"
definition DELTA_FPU_REG :: nat where "DELTA_FPU_REG = 0xfd"
definition DELTA_FPU_MODRM :: nat where "DELTA_FPU_MODRM = 0x104"
definition DELTA_PREFIXES :: nat where "DELTA_PREFIXES = 0x13c"
definition DELTA_OP_LOCK_OK :: nat where "DELTA_OP_LOCK_OK = 0x1ae"
definition DELTA_OP2_LOCK_OK :: nat where "DELTA_OP2_LOCK_OK = 0x1c6"
definition DELTA_OP_ONLY_MEM :: nat where "DELTA_OP_ONLY_MEM = 0x1d8"
definition DELTA_OP2_ONLY_MEM :: nat where "DELTA_OP2_ONLY_MEM = 0x1e7"

lemmas hde_deltas = DELTA_OPCODES_def DELTA_FPU_REG_def DELTA_FPU_MODRM_def DELTA_PREFIXES_def
  DELTA_OP_LOCK_OK_def DELTA_OP2_LOCK_OK_def DELTA_OP_ONLY_MEM_def DELTA_OP2_ONLY_MEM_def

definition hde64_table :: "byte list" where
  "hde64_table = [
     0xa5, 0xaa, 0xa5, 0xb8, 0xa5, 0xaa, 0xa5, 0xaa, 0xa5, 0xb8, 0xa5, 0xb8, 0xa5, 0xb8, 0xa5,
     0xb8, 0xc0, 0xc0, 0xc0, 0xc0, 0xc0, 0xc0, 0xc0, 0xc0, 0xac, 0xc0, 0xcc, 0xc0, 0xa1, 0xa1,
     0xa1, 0xa1, 0xb1, 0xa5, 0xa5, 0xa6, 0xc0, 0xc0, 0xd7, 0xda, 0xe0, 0xc0, 0xe4, 0xc0, 0xea,
     0xea, 0xe0, 0xe0, 0x98, 0xc8, 0xee, 0xf1, 0xa5, 0xd3, 0xa5, 0xa5, 0xa1, 0xea, 0x9e, 0xc0,
     0xc0, 0xc2, 0xc0, 0xe6, 0x03, 0x7f, 0x11, 0x7f, 0x01, 0x7f, 0x01, 0x3f, 0x01, 0x01, 0xab,
     0x8b, 0x90, 0x64, 0x5b, 0x5b, 0x5b, 0x5b, 0x5b, 0x92, 0x5b, 0x5b, 0x76, 0x90, 0x92, 0x92,
     0x5b, 0x5b, 0x5b, 0x5b, 0x5b, 0x5b, 0x5b, 0x5b, 0x5b, 0x5b, 0x5b, 0x5b, 0x6a, 0x73, 0x90,
     0x5b, 0x52, 0x52, 0x52, 0x52, 0x5b, 0x5b, 0x5b, 0x5b, 0x77, 0x7c, 0x77, 0x85, 0x5b, 0x5b,
     0x70, 0x5b, 0x7a, 0xaf, 0x76, 0x76, 0x5b, 0x5b, 0x5b, 0x5b, 0x5b, 0x5b, 0x5b, 0x5b, 0x5b,
     0x5b, 0x5b, 0x86, 0x01, 0x03, 0x01, 0x04, 0x03, 0xd5, 0x03, 0xd5, 0x03, 0xcc, 0x01, 0xbc,
     0x03, 0xf0, 0x03, 0x03, 0x04, 0x00, 0x50, 0x50, 0x50, 0x50, 0xff, 0x20, 0x20, 0x20, 0x20,
     0x01, 0x01, 0x01, 0x01, 0xc4, 0x02, 0x10, 0xff, 0xff, 0xff, 0x01, 0x00, 0x03, 0x11, 0xff,
     0x03, 0xc4, 0xc6, 0xc8, 0x02, 0x10, 0x00, 0xff, 0xcc, 0x01, 0x01, 0x01, 0x00, 0x00, 0x00,
     0x00, 0x01, 0x01, 0x03, 0x01, 0xff, 0xff, 0xc0, 0xc2, 0x10, 0x11, 0x02, 0x03, 0x01, 0x01,
     0x01, 0xff, 0xff, 0xff, 0x00, 0x00, 0x00, 0xff, 0x00, 0x00, 0xff, 0xff, 0xff, 0xff, 0x10,
     0x10, 0x10, 0x10, 0x02, 0x10, 0x00, 0x00, 0xc6, 0xc8, 0x02, 0x02, 0x02, 0x02, 0x06, 0x00,
     0x04, 0x00, 0x02, 0xff, 0x00, 0xc0, 0xc2, 0x01, 0x01, 0x03, 0x03, 0x03, 0xca, 0x40, 0x00,
     0x0a, 0x00, 0x04, 0x00, 0x00, 0x00, 0x00, 0x7f, 0x00, 0x33, 0x01, 0x00, 0x00, 0x00, 0x00,
     0x00, 0x00, 0xff, 0xbf, 0xff, 0xff, 0x00, 0x00, 0x00, 0x00, 0x07, 0x00, 0x00, 0xff, 0x00,
     0x00, 0x00, 0x00, 0x00, 0x00, 0x00, 0x00, 0x00, 0x00, 0x00, 0x00, 0x00, 0x00, 0xff, 0xff,
     0x00, 0x00, 0x00, 0xbf, 0x00, 0x00, 0x00, 0x00, 0x00, 0x00, 0x00, 0x00, 0x7f, 0x00, 0x00,
     0xff, 0x40, 0x40, 0x40, 0x40, 0x41, 0x49, 0x40, 0x40, 0x40, 0x40, 0x4c, 0x42, 0x40, 0x40,
     0x40, 0x40, 0x40, 0x40, 0x40, 0x40, 0x4f, 0x44, 0x53, 0x40, 0x40, 0x40, 0x44, 0x57, 0x43,
     0x5c, 0x40, 0x60, 0x40, 0x40, 0x40, 0x40, 0x40, 0x40, 0x40, 0x40, 0x40, 0x40, 0x40, 0x40,
     0x40, 0x40, 0x64, 0x66, 0x6e, 0x6b, 0x40, 0x40, 0x6a, 0x46, 0x40, 0x40, 0x44, 0x46, 0x40,
     0x40, 0x5b, 0x44, 0x40, 0x40, 0x00, 0x00, 0x00, 0x00, 0x06, 0x06, 0x06, 0x06, 0x01, 0x06,
     0x06, 0x02, 0x06, 0x06, 0x00, 0x06, 0x00, 0x0a, 0x0a, 0x00, 0x00, 0x00, 0x02, 0x07, 0x07,
     0x06, 0x02, 0x0d, 0x06, 0x06, 0x06, 0x0e, 0x05, 0x05, 0x02, 0x02, 0x00, 0x00, 0x04, 0x04,
     0x04, 0x04, 0x05, 0x06, 0x06, 0x06, 0x00, 0x00, 0x00, 0x0e, 0x00, 0x00, 0x08, 0x00, 0x10,
     0x00, 0x18, 0x00, 0x20, 0x00, 0x28, 0x00, 0x30, 0x00, 0x80, 0x01, 0x82, 0x01, 0x86, 0x00,
     0xf6, 0xcf, 0xfe, 0x3f, 0xab, 0x00, 0xb0, 0x00, 0xb1, 0x00, 0xb3, 0x00, 0xba, 0xf8, 0xbb,
     0x00, 0xc0, 0x00, 0xc1, 0x00, 0xc7, 0xbf, 0x62, 0xff, 0x00, 0x8d, 0xff, 0x00, 0xc4, 0xff,
     0x00, 0xc5, 0xff, 0x00, 0xff, 0xff, 0xeb, 0x01, 0xff, 0x0e, 0x12, 0x08, 0x00, 0x13, 0x09,
     0x00, 0x16, 0x08, 0x00, 0x17, 0x09, 0x00, 0x2b, 0x09, 0x00, 0xae, 0xff, 0x07, 0xb2, 0xff,
     0x00, 0xb4, 0xff, 0x00, 0xb5, 0xff, 0x00, 0xc3, 0x01, 0x00, 0xc7, 0xff, 0xbf, 0xe7, 0x08,
     0x00, 0xf0, 0x02, 0x00]"

text \<open>\<open>ht[ht[opcode / 4] + (opcode % 4)]\<close> for a table that starts at \<open>delta\<close>.\<close>

definition hde_index :: "nat \<Rightarrow> byte \<Rightarrow> nat" where
  "hde_index delta opc =
     delta + unat (hde64_table ! (delta + unat opc div 4)) + unat opc mod 4"

definition hde_lookup :: "nat \<Rightarrow> byte \<Rightarrow> byte" where
  "hde_lookup delta opc = hde64_table ! hde_index delta opc"

definition hde_slice :: "nat \<Rightarrow> nat \<Rightarrow> byte list" where
  "hde_slice lo hi = take (hi - lo) (drop lo hde64_table)"

section \<open>Decoder state\<close>

record hde64s =
  hs_len :: byte
  hs_p_rep :: byte
  hs_p_lock :: byte
  hs_p_seg :: byte
  hs_p_66 :: byte
  hs_p_67 :: byte
  hs_rex :: byte
  hs_rex_w :: byte
  hs_rex_r :: byte
  hs_rex_x :: byte
  hs_rex_b :: byte
  hs_opcode :: byte
  hs_opcode2 :: byte
  hs_modrm :: byte
  hs_modrm_mod :: byte
  hs_modrm_reg :: byte
  hs_modrm_rm :: byte
  hs_sib :: byte
  hs_sib_scale :: byte
  hs_sib_index :: byte
  hs_sib_base :: byte
  hs_imm :: u64
  hs_disp :: u32
  hs_flags :: u32

definition hde_zero :: hde64s where
  "hde_zero = \<lparr>hs_len = 0, hs_p_rep = 0, hs_p_lock = 0, hs_p_seg = 0, hs_p_66 = 0, hs_p_67 = 0,
     hs_rex = 0, hs_rex_w = 0, hs_rex_r = 0, hs_rex_x = 0, hs_rex_b = 0, hs_opcode = 0,
     hs_opcode2 = 0, hs_modrm = 0, hs_modrm_mod = 0, hs_modrm_reg = 0, hs_modrm_rm = 0,
     hs_sib = 0, hs_sib_scale = 0, hs_sib_index = 0, hs_sib_base = 0, hs_imm = 0, hs_disp = 0,
     hs_flags = 0\<rparr>"

definition hs_or :: "u32 \<Rightarrow> hde64s \<Rightarrow> hde64s" where
  "hs_or f hs = hs\<lparr>hs_flags := hs_flags hs OR f\<rparr>"

text \<open>The local variables of \<open>hde64_disasm\<close> that live across its phases.\<close>

record hde =
  hd_p :: nat
  hd_c :: byte
  hd_pref :: byte
  hd_op64 :: bool
  hd_opcode :: byte
  hd_cflags :: byte
  hd_x :: byte
  hd_hs :: hde64s

abbreviation at :: "memory \<Rightarrow> addr \<Rightarrow> nat \<Rightarrow> byte" where
  "at m code p \<equiv> m (code + of_nat p)"

section \<open>Phases\<close>

fun hde_prefixes :: "memory \<Rightarrow> addr \<Rightarrow> nat \<Rightarrow> nat \<Rightarrow> byte \<Rightarrow> byte \<Rightarrow> hde64s
    \<Rightarrow> nat \<times> byte \<times> byte \<times> hde64s" where
  "hde_prefixes m code 0 p c pref hs = (p, c, pref, hs)"
| "hde_prefixes m code (Suc x) p c pref hs =
     (let c = at m code p; p = Suc p in
      if c = 0xf3 then hde_prefixes m code x p c (pref OR PRE_F3) (hs\<lparr>hs_p_rep := c\<rparr>)
      else if c = 0xf2 then hde_prefixes m code x p c (pref OR PRE_F2) (hs\<lparr>hs_p_rep := c\<rparr>)
      else if c = 0xf0 then hde_prefixes m code x p c (pref OR PRE_LOCK) (hs\<lparr>hs_p_lock := c\<rparr>)
      else if c \<in> {0x26, 0x2e, 0x36, 0x3e, 0x64, 0x65}
        then hde_prefixes m code x p c (pref OR PRE_SEG) (hs\<lparr>hs_p_seg := c\<rparr>)
      else if c = 0x66 then hde_prefixes m code x p c (pref OR PRE_66) (hs\<lparr>hs_p_66 := c\<rparr>)
      else if c = 0x67 then hde_prefixes m code x p c (pref OR PRE_67) (hs\<lparr>hs_p_67 := c\<rparr>)
      else (p, c, pref, hs))"

text \<open>Prefix flags and the REX byte; the flag says that a second REX byte follows, an error.\<close>

definition hde_rex :: "memory \<Rightarrow> addr \<Rightarrow> nat \<times> byte \<times> byte \<times> hde64s \<Rightarrow> bool \<times> hde" where
  "hde_rex m code st =
     (case st of (p, c, pref0, hs0) \<Rightarrow>
      (let hs = hs0\<lparr>hs_flags := push_bit 23 (ucast pref0)\<rparr>;
           pref = (if pref0 = 0 then pref0 OR PRE_NONE else pref0);
           w = \<lparr>hd_p = p, hd_c = c, hd_pref = pref, hd_op64 = False, hd_opcode = 0,
                 hd_cflags = 0, hd_x = 0, hd_hs = hs\<rparr>
       in if c AND 0xf0 = 0x40 then
            (let rw = drop_bit 3 (c AND 0xf);
                 c' = at m code p;
                 hs' = (hs_or F_PREFIX_REX hs)\<lparr>hs_rex_w := rw, hs_rex_r := drop_bit 2 (c AND 7),
                         hs_rex_x := drop_bit 1 (c AND 3), hs_rex_b := c AND 1\<rparr>;
                 w' = w\<lparr>hd_op64 := (rw \<noteq> 0 \<and> c' AND 0xf8 = 0xb8), hd_hs := hs',
                         hd_p := Suc p, hd_c := c'\<rparr>
             in if c' AND 0xf0 = 0x40 then (True, w'\<lparr>hd_opcode := c'\<rparr>) else (False, w'))
          else (False, w)))"

definition hde_error_opcode :: "hde \<Rightarrow> hde" where
  "hde_error_opcode w =
     w\<lparr>hd_hs := hs_or (F_ERROR OR F_ERROR_OPCODE) (hd_hs w),
       hd_cflags := (if hd_opcode w AND 0xfd = 0x24 then 1 else 0)\<rparr>"

text \<open>Opcode byte or bytes: the table offset they are looked up at and the state after them.\<close>

definition hde_opcode_bytes :: "memory \<Rightarrow> addr \<Rightarrow> hde \<Rightarrow> nat \<times> hde" where
  "hde_opcode_bytes m code w0 =
     (let c = hd_c w0; w = w0\<lparr>hd_hs := (hd_hs w0)\<lparr>hs_opcode := c\<rparr>\<rparr> in
      if c = 0x0f then
        (let c2 = at m code (hd_p w)
         in (DELTA_OPCODES, w\<lparr>hd_c := c2, hd_p := Suc (hd_p w),
               hd_hs := (hd_hs w)\<lparr>hs_opcode2 := c2\<rparr>\<rparr>))
      else if 0xa0 \<le> c \<and> c \<le> 0xa3 then
        (0, w\<lparr>hd_op64 := True,
              hd_pref := (if hd_pref w AND PRE_67 \<noteq> 0 then hd_pref w OR PRE_66
                          else hd_pref w AND NOT PRE_66)\<rparr>)
      else (0, w))"

definition hde_opcode_lookup :: "nat \<times> hde \<Rightarrow> nat \<times> hde" where
  "hde_opcode_lookup st =
     (case st of (delta, w) \<Rightarrow>
      (let opc = hd_c w; cf = hde_lookup delta opc;
           w1 = w\<lparr>hd_opcode := opc, hd_cflags := cf\<rparr>
       in (delta, if cf = C_ERROR then hde_error_opcode w1 else w1)))"

text \<open>Opcode groups, and the prefix check of two-byte opcodes.\<close>

definition hde_group :: "nat \<times> hde \<Rightarrow> hde" where
  "hde_group st =
     (case st of (delta, w) \<Rightarrow>
      (if hd_cflags w AND C_GROUP \<noteq> 0 then
         (let t = delta + unat (hd_cflags w AND 0x7f)
          in w\<lparr>hd_cflags := hde64_table ! t, hd_x := hde64_table ! Suc t\<rparr>)
       else w\<lparr>hd_x := 0\<rparr>))"

definition hde_prefix_check :: "hde \<Rightarrow> hde" where
  "hde_prefix_check w =
     (if hs_opcode2 (hd_hs w) \<noteq> 0 \<and> hde_lookup DELTA_PREFIXES (hd_opcode w) AND hd_pref w \<noteq> 0
      then w\<lparr>hd_hs := hs_or (F_ERROR OR F_ERROR_OPCODE) (hd_hs w)\<rparr> else w)"

definition hde_opcode :: "memory \<Rightarrow> addr \<Rightarrow> bool \<times> hde \<Rightarrow> hde" where
  "hde_opcode m code st =
     (case st of (rexerr, w) \<Rightarrow>
        hde_prefix_check (hde_group
          (if rexerr then (0, hde_error_opcode w)
           else hde_opcode_lookup (hde_opcode_bytes m code w))))"

text \<open>The two table searches of the ModRM checks, over pairs and triples of table bytes.\<close>

fun hde_lock_ok :: "byte list \<Rightarrow> byte \<Rightarrow> byte \<Rightarrow> bool" where
  "hde_lock_ok (a # b # rest) opc r =
     (if a = opc then push_bit (unat r) b AND 0x80 = 0 else hde_lock_ok rest opc r)"
| "hde_lock_ok _ opc r = False"

fun hde_only_mem :: "byte list \<Rightarrow> byte \<Rightarrow> byte \<Rightarrow> byte \<Rightarrow> bool" where
  "hde_only_mem (a # b # d # rest) opc pref r =
     (if a = opc then b AND pref \<noteq> 0 \<and> push_bit (unat r) d AND 0x80 = 0
      else hde_only_mem rest opc pref r)"
| "hde_only_mem _ opc pref r = False"

text \<open>Whether the code reaches \<open>error_operand\<close>, and the \<open>m_mod\<close> it goes on with.\<close>

definition hde_operand :: "bool \<Rightarrow> byte \<Rightarrow> byte \<Rightarrow> byte \<Rightarrow> byte \<Rightarrow> bool \<times> byte" where
  "hde_operand two opc pref m_mod m_reg =
     (if two \<and> (opc = 0x20 \<or> opc = 0x22) then (m_reg > 4 \<or> m_reg = 1, 3)
      else if two \<and> (opc = 0x21 \<or> opc = 0x23) then (m_reg = 4 \<or> m_reg = 5, 3)
      else if \<not> two \<and> opc = 0x8c then (m_reg > 5, m_mod)
      else if \<not> two \<and> opc = 0x8e then (m_reg = 1 \<or> m_reg > 5, m_mod)
      else if m_mod = 3 then
        (hde_only_mem (if two then hde_slice DELTA_OP2_ONLY_MEM (length hde64_table)
                       else hde_slice DELTA_OP_ONLY_MEM DELTA_OP2_ONLY_MEM) opc pref m_reg, m_mod)
      else if two then
        ((if opc \<in> {0x50, 0xd7, 0xf7} then pref AND (PRE_NONE OR PRE_66) \<noteq> 0
          else if opc = 0xd6 then pref AND (PRE_F2 OR PRE_F3) \<noteq> 0
          else opc = 0xc5), m_mod)
      else (False, m_mod))"

definition hde_fpu_error :: "bool \<Rightarrow> byte \<Rightarrow> byte \<Rightarrow> byte \<Rightarrow> byte \<Rightarrow> bool" where
  "hde_fpu_error two opc m_mod m_reg m_rm \<longleftrightarrow>
     \<not> two \<and> 0xd9 \<le> opc \<and> opc \<le> 0xdf \<and>
     (let t = unat opc - 0xd9 in
      (if m_mod = 3 then push_bit (unat m_rm) (hde64_table ! (DELTA_FPU_MODRM + t * 8 + unat m_reg))
       else push_bit (unat m_reg) (hde64_table ! (DELTA_FPU_REG + t))) AND 0x80 \<noteq> 0)"

definition hde_lock_error :: "bool \<Rightarrow> byte \<Rightarrow> byte \<Rightarrow> byte \<Rightarrow> byte \<Rightarrow> bool" where
  "hde_lock_error two opc pref m_mod m_reg \<longleftrightarrow>
     pref AND PRE_LOCK \<noteq> 0 \<and>
     (m_mod = 3 \<or>
      \<not> (if two then hde_lock_ok (hde_slice DELTA_OP2_LOCK_OK DELTA_OP_ONLY_MEM) opc m_reg
         else hde_lock_ok (hde_slice DELTA_OP_LOCK_OK DELTA_OP2_LOCK_OK) (opc AND 0xfe) m_reg))"

text \<open>ModRM byte: register fields and the error checks.\<close>

definition hde_modrm_checks :: "hde \<Rightarrow> byte \<Rightarrow> byte \<times> hde" where
  "hde_modrm_checks w c =
     (let m_mod = drop_bit 6 c; m_rm = c AND 7; m_reg = drop_bit 3 (c AND 0x3f);
          opc = hd_opcode w; pref = hd_pref w;
          hs = (hs_or F_MODRM (hd_hs w))\<lparr>hs_modrm := c, hs_modrm_mod := m_mod, hs_modrm_rm := m_rm,
                 hs_modrm_reg := m_reg\<rparr>;
          two = (hs_opcode2 hs \<noteq> 0);
          hs1 = (if hd_x w \<noteq> 0 \<and> push_bit (unat m_reg) (hd_x w) AND 0x80 \<noteq> 0
                 then hs_or (F_ERROR OR F_ERROR_OPCODE) hs else hs);
          hs2 = (if hde_fpu_error two opc m_mod m_reg m_rm
                 then hs_or (F_ERROR OR F_ERROR_OPCODE) hs1 else hs1);
          hs3 = (if hde_lock_error two opc pref m_mod m_reg
                 then hs_or (F_ERROR OR F_ERROR_LOCK) hs2 else hs2);
          (err, m_mod') = hde_operand two opc pref m_mod m_reg;
          hs4 = (if err then hs_or (F_ERROR OR F_ERROR_OPERAND) hs3 else hs3)
      in (m_mod', w\<lparr>hd_hs := hs4\<rparr>))"

definition hde_disp_size :: "byte \<Rightarrow> byte \<Rightarrow> byte \<Rightarrow> nat" where
  "hde_disp_size pref m_mod m_rm =
     (if m_mod = 0 then
        (if pref AND PRE_67 \<noteq> 0 then (if m_rm = 6 then 2 else 0)
         else (if m_rm = 5 then 4 else 0))
      else if m_mod = 1 then 1
      else if m_mod = 2 then (if pref AND PRE_67 = 0 then 4 else 2)
      else 0)"

text \<open>SIB byte and displacement.\<close>

definition hde_modrm :: "memory \<Rightarrow> addr \<Rightarrow> hde \<Rightarrow> hde" where
  "hde_modrm m code w =
     (let (m_mod, w1) = hde_modrm_checks w (at m code (hd_p w));
          hs = hd_hs w1; m_rm = hs_modrm_rm hs; m_reg = hs_modrm_reg hs; opc = hd_opcode w1;
          p = Suc (hd_p w);
          c = at m code p;
          cflags = (if m_reg \<le> 1 then
                      (if opc = 0xf6 then hd_cflags w1 OR C_IMM8
                       else if opc = 0xf7 then hd_cflags w1 OR C_IMM_P66 else hd_cflags w1)
                    else hd_cflags w1);
          ds0 = hde_disp_size (hd_pref w1) m_mod m_rm;
          sib = (m_mod \<noteq> 3 \<and> m_rm = 4);
          hs1 = (if sib then (hs_or F_SIB hs)\<lparr>hs_sib := c, hs_sib_scale := drop_bit 6 c,
                   hs_sib_index := drop_bit 3 (c AND 0x3f), hs_sib_base := c AND 7\<rparr> else hs);
          ds = (if sib \<and> c AND 7 = 5 \<and> m_mod AND 1 = 0 then 4 else ds0);
          p1 = (if sib then Suc p else p);
          hs2 = (if ds = 1 then (hs_or F_DISP8 hs1)\<lparr>hs_disp := ucast (at m code p1)\<rparr>
                 else if ds = 2 then
                   (hs_or F_DISP16 hs1)\<lparr>hs_disp := ucast (load16 m (code + of_nat p1))\<rparr>
                 else if ds = 4 then (hs_or F_DISP32 hs1)\<lparr>hs_disp := load32 m (code + of_nat p1)\<rparr>
                 else hs1)
      in w1\<lparr>hd_c := c, hd_cflags := cflags, hd_hs := hs2, hd_p := p1 + ds\<rparr>)"

text \<open>Immediates. A store to a member of the union keeps the bytes above it.\<close>

definition hde_imm8 :: "memory \<Rightarrow> addr \<Rightarrow> u32 \<Rightarrow> hde \<Rightarrow> hde" where
  "hde_imm8 m code f w =
     w\<lparr>hd_hs := (hs_or f (hd_hs w))\<lparr>hs_imm :=
         (hs_imm (hd_hs w) AND NOT 0xff) OR ucast (at m code (hd_p w))\<rparr>,
       hd_p := hd_p w + 1\<rparr>"

definition hde_imm16 :: "memory \<Rightarrow> addr \<Rightarrow> u32 \<Rightarrow> hde \<Rightarrow> hde" where
  "hde_imm16 m code f w =
     w\<lparr>hd_hs := (hs_or f (hd_hs w))\<lparr>hs_imm :=
         (hs_imm (hd_hs w) AND NOT 0xffff) OR ucast (load16 m (code + of_nat (hd_p w)))\<rparr>,
       hd_p := hd_p w + 2\<rparr>"

definition hde_imm32 :: "memory \<Rightarrow> addr \<Rightarrow> u32 \<Rightarrow> hde \<Rightarrow> hde" where
  "hde_imm32 m code f w =
     w\<lparr>hd_hs := (hs_or f (hd_hs w))\<lparr>hs_imm :=
         (hs_imm (hd_hs w) AND NOT 0xffffffff) OR ucast (load32 m (code + of_nat (hd_p w)))\<rparr>,
       hd_p := hd_p w + 4\<rparr>"

definition hde_imm64 :: "memory \<Rightarrow> addr \<Rightarrow> u32 \<Rightarrow> hde \<Rightarrow> hde" where
  "hde_imm64 m code f w =
     w\<lparr>hd_hs := (hs_or f (hd_hs w))\<lparr>hs_imm := load64 m (code + of_nat (hd_p w))\<rparr>,
       hd_p := hd_p w + 8\<rparr>"

text \<open>
  The tail after \<open>imm16_ok\<close>: \<open>i16\<close> says whether a 16-bit immediate is read. The jump from
  the 66-prefixed case enters at the label, the normal path tests \<open>C_IMM16\<close>.
\<close>

definition hde_imm_tail :: "memory \<Rightarrow> addr \<Rightarrow> bool \<Rightarrow> hde \<Rightarrow> hde" where
  "hde_imm_tail m code i16 w =
     (let cf = hd_cflags w;
          w1 = (if i16 then hde_imm16 m code F_IMM16 w else w);
          w2 = (if cf AND C_IMM8 \<noteq> 0 then hde_imm8 m code F_IMM8 w1 else w1)
      in if cf AND C_REL32 \<noteq> 0 then hde_imm32 m code (F_IMM32 OR F_RELATIVE) w2
         else if cf AND C_REL8 \<noteq> 0 then hde_imm8 m code (F_IMM8 OR F_RELATIVE) w2
         else w2)"

definition hde_imms :: "memory \<Rightarrow> addr \<Rightarrow> hde \<Rightarrow> hde" where
  "hde_imms m code w =
     (let cf = hd_cflags w in
      if cf AND C_IMM_P66 \<noteq> 0 then
        (if cf AND C_REL32 \<noteq> 0 then
           (if hd_pref w AND PRE_66 \<noteq> 0 then hde_imm16 m code (F_IMM16 OR F_RELATIVE) w
            else hde_imm32 m code (F_IMM32 OR F_RELATIVE) w)
         else if hd_op64 w then
           hde_imm_tail m code (cf AND C_IMM16 \<noteq> 0) (hde_imm64 m code F_IMM64 w)
         else if hd_pref w AND PRE_66 = 0 then
           hde_imm_tail m code (cf AND C_IMM16 \<noteq> 0) (hde_imm32 m code F_IMM32 w)
         else hde_imm_tail m code True w)
      else hde_imm_tail m code (cf AND C_IMM16 \<noteq> 0) w)"

definition hde_done :: "hde \<Rightarrow> hde64s" where
  "hde_done w =
     (let l = (of_nat (hd_p w) :: byte); hs = (hd_hs w)\<lparr>hs_len := l\<rparr>
      in if l > 15 then (hs_or (F_ERROR OR F_ERROR_LENGTH) hs)\<lparr>hs_len := 15\<rparr> else hs)"

definition hde_body :: "memory \<Rightarrow> addr \<Rightarrow> hde" where
  "hde_body m code =
     (let w = hde_opcode m code (hde_rex m code (hde_prefixes m code 16 0 0 0 hde_zero));
          w1 = (if hd_cflags w AND C_MODRM \<noteq> 0 then hde_modrm m code w
                else if hd_pref w AND PRE_LOCK \<noteq> 0
                  then w\<lparr>hd_hs := hs_or (F_ERROR OR F_ERROR_LOCK) (hd_hs w)\<rparr>
                else w)
      in hde_imms m code w1)"

definition hde64_disasm :: "memory \<Rightarrow> addr \<Rightarrow> hde64s" where
  "hde64_disasm m code = hde_done (hde_body m code)"

section \<open>What the decoder consumes\<close>

lemma hde_prefixes_fst:
  "p \<le> fst (hde_prefixes m code x p c pref hs) \<and>
   fst (hde_prefixes m code x p c pref hs) \<le> p + x \<and>
   (0 < x \<longrightarrow> p < fst (hde_prefixes m code x p c pref hs))"
proof (induction x arbitrary: p c pref hs)
  case (Suc x)
  let ?P = "\<lambda>r. p \<le> fst r \<and> fst r \<le> p + Suc x \<and> (0 < Suc x \<longrightarrow> p < fst r)"
  have step: "?P (hde_prefixes m code x (Suc p) c1 pr1 h1)" for c1 pr1 h1
    using Suc.IH [of "Suc p" c1 pr1 h1] by simp
  have stop: "?P (Suc p, c1, pr1, h1)" for c1 :: byte and pr1 :: byte and h1 :: hde64s by simp
  have "?P (hde_prefixes m code (Suc x) p c pref hs)"
    unfolding hde_prefixes.simps Let_def by (intro if_bothI [where P = ?P] step stop)
  then show ?case .
qed simp

lemma hde_prefixes_bounds:
  "hde_prefixes m code x p c pref hs = (p', c', pref', hs') \<Longrightarrow>
     p \<le> p' \<and> p' \<le> p + x \<and> (0 < x \<longrightarrow> p < p')"
  using hde_prefixes_fst [of p m code x c pref hs] by simp

lemma hde_rex_bounds:
  "hd_p (snd (hde_rex m code (p, st))) \<in> {p, Suc p}"
  by (cases st) (auto simp: hde_rex_def Let_def)

lemma hde_error_opcode_p [simp]: "hd_p (hde_error_opcode w) = hd_p w"
  by (simp add: hde_error_opcode_def)

lemma hde_opcode_bytes_p: "hd_p (snd (hde_opcode_bytes m code w)) \<in> {hd_p w, Suc (hd_p w)}"
  by (simp add: hde_opcode_bytes_def Let_def)

lemma hde_opcode_lookup_p [simp]: "hd_p (snd (hde_opcode_lookup st)) = hd_p (snd st)"
  by (cases st) (simp add: hde_opcode_lookup_def Let_def)

lemma hde_group_p [simp]: "hd_p (hde_group st) = hd_p (snd st)"
  by (cases st) (simp add: hde_group_def Let_def)

lemma hde_prefix_check_p [simp]: "hd_p (hde_prefix_check w) = hd_p w"
  by (simp add: hde_prefix_check_def)

lemma hde_opcode_bounds: "hd_p (hde_opcode m code (e, w)) \<in> {hd_p w, Suc (hd_p w)}"
  using hde_opcode_bytes_p [of m code w] by (simp add: hde_opcode_def)

lemma hde_disp_size_bound: "hde_disp_size pref md rm \<le> 4"
  by (simp add: hde_disp_size_def)

lemma hde_modrm_checks_p [simp]: "hd_p (snd (hde_modrm_checks w c)) = hd_p w"
  by (simp add: hde_modrm_checks_def Let_def split: prod.splits)

lemma hde_modrm_bounds:
  "hd_p w < hd_p (hde_modrm m code w) \<and> hd_p (hde_modrm m code w) \<le> hd_p w + 6"
proof -
  obtain md w1 where ch: "hde_modrm_checks w (at m code (hd_p w)) = (md, w1)"
    by (cases "hde_modrm_checks w (at m code (hd_p w))")
  have "hde_disp_size (hd_pref w1) md (hs_modrm_rm (hd_hs w1)) \<le> 4"
    by (rule hde_disp_size_bound)
  moreover have "hd_p (hde_modrm m code w) \<in> {Suc (hd_p w) + ds | ds. ds \<le> 4} \<union> {hd_p w + 2 + ds | ds. ds \<le> 4}"
    if "hde_disp_size (hd_pref w1) md (hs_modrm_rm (hd_hs w1)) \<le> 4"
    unfolding hde_modrm_def ch Let_def using that by auto
  ultimately show ?thesis by auto
qed

lemma hde_imm_p [simp]:
  "hd_p (hde_imm8 m code f w) = hd_p w + 1" "hd_p (hde_imm16 m code f w) = hd_p w + 2"
  "hd_p (hde_imm32 m code f w) = hd_p w + 4" "hd_p (hde_imm64 m code f w) = hd_p w + 8"
  by (simp_all add: hde_imm8_def hde_imm16_def hde_imm32_def hde_imm64_def)

lemma hde_imm_tail_bounds:
  "hd_p w \<le> hd_p (hde_imm_tail m code i w) \<and> hd_p (hde_imm_tail m code i w) \<le> hd_p w + 7"
  by (simp add: hde_imm_tail_def Let_def)

lemma hde_imms_bounds:
  "hd_p w \<le> hd_p (hde_imms m code w) \<and> hd_p (hde_imms m code w) \<le> hd_p w + 15"
proof -
  let ?P = "\<lambda>r. hd_p w \<le> hd_p r \<and> hd_p r \<le> hd_p w + 15"
  have tail: "?P (hde_imm_tail m code i w')" if "hd_p w \<le> hd_p w'" "hd_p w' \<le> hd_p w + 8" for i w'
    using hde_imm_tail_bounds [of w' m code i] that by linarith
  show ?thesis unfolding hde_imms_def Let_def
    by (intro if_bothI [where P = ?P] tail) simp_all
qed

lemma hde_body_bounds: "0 < hd_p (hde_body m code) \<and> hd_p (hde_body m code) \<le> 39"
proof -
  obtain p c pref hs where pre: "hde_prefixes m code 16 0 0 0 hde_zero = (p, c, pref, hs)"
    by (cases "hde_prefixes m code 16 0 0 0 hde_zero")
  then have p: "0 < p" "p \<le> 16" using hde_prefixes_bounds [OF pre] by simp_all
  let ?r = "hde_rex m code (p, c, pref, hs)"
  let ?w = "hde_opcode m code ?r"
  have "hd_p (snd ?r) \<in> {p, Suc p}" by (rule hde_rex_bounds)
  moreover have "hd_p ?w \<in> {hd_p (snd ?r), Suc (hd_p (snd ?r))}"
    using hde_opcode_bounds [of m code "fst ?r" "snd ?r"] by simp
  ultimately have w: "0 < hd_p ?w" "hd_p ?w \<le> 18" using p by auto
  define w1 where "w1 = (if hd_cflags ?w AND C_MODRM \<noteq> 0 then hde_modrm m code ?w
      else if hd_pref ?w AND PRE_LOCK \<noteq> 0
        then ?w\<lparr>hd_hs := hs_or (F_ERROR OR F_ERROR_LOCK) (hd_hs ?w)\<rparr> else ?w)"
  have "0 < hd_p w1 \<and> hd_p w1 \<le> 24"
    using w hde_modrm_bounds [of ?w m code] by (auto simp: w1_def)
  moreover have "hde_body m code = hde_imms m code w1"
    by (simp add: hde_body_def pre w1_def Let_def)
  ultimately show ?thesis using hde_imms_bounds [of w1 m code] by auto
qed

lemma hde64_disasm_len:
  "hs_len (hde64_disasm m code) = of_nat (min 15 (hd_p (hde_body m code)))"
proof -
  have b: "hd_p (hde_body m code) \<le> 39" using hde_body_bounds [of m code] by simp
  then have u: "unat (of_nat (hd_p (hde_body m code)) :: byte) = hd_p (hde_body m code)"
    by (simp add: unat_of_nat)
  then have "(15 :: byte) < of_nat (hd_p (hde_body m code)) \<longleftrightarrow> 15 < hd_p (hde_body m code)"
    by (simp add: word_less_nat_alt)
  then show ?thesis by (simp add: hde64_disasm_def hde_done_def Let_def hs_or_def min_def)
qed

lemma hde64_len_bounds:
  "0 < unat (hs_len (hde64_disasm m code)) \<and> unat (hs_len (hde64_disasm m code)) \<le> 15"
proof -
  have "unat (hs_len (hde64_disasm m code)) = min 15 (hd_p (hde_body m code))"
    by (simp add: hde64_disasm_len unat_of_nat)
  then show ?thesis using hde_body_bounds [of m code] by simp
qed

section \<open>Size of a run of instructions\<close>

function quick_size_loop :: "memory \<Rightarrow> addr \<Rightarrow> nat \<Rightarrow> nat \<Rightarrow> nat" where
  "quick_size_loop m a least tot =
     (let hs = hde64_disasm m a; l = unat (hs_len hs) in
      if hs_flags hs AND F_ERROR \<noteq> 0 then 0
      else if tot + l < least then quick_size_loop m (a + of_nat l) least (tot + l)
      else tot + l)"
  by pat_completeness auto
termination
proof (relation "measure (\<lambda>(m, a, least, tot). least - tot)")
  fix m a least tot hs l
  assume "hs = hde64_disasm m a" "l = unat (hs_len hs)" and "tot + l < least"
  moreover have "0 < unat (hs_len (hde64_disasm m a))" using hde64_len_bounds [of m a] by simp
  ultimately show "((m, a + of_nat l, least, tot + l), m, a, least, tot) \<in>
      measure (\<lambda>(m, a, least, tot). least - tot)" by simp
qed simp

declare quick_size_loop.simps [simp del]

definition quickInstructionSize :: "memory \<Rightarrow> addr \<Rightarrow> nat \<Rightarrow> nat" where
  "quickInstructionSize m a least = quick_size_loop m a least 0"

text \<open>The bytes of the first \<open>k\<close> instructions at \<open>a\<close>, when they all decode.\<close>

primrec insns_len :: "nat \<Rightarrow> memory \<Rightarrow> addr \<Rightarrow> nat option" where
  "insns_len 0 m a = Some 0"
| "insns_len (Suc k) m a =
     (let hs = hde64_disasm m a; l = unat (hs_len hs) in
      if hs_flags hs AND F_ERROR \<noteq> 0 then None
      else map_option (\<lambda>n. l + n) (insns_len k m (a + of_nat l)))"

lemma quick_size_loop_spec:
  "\<exists>k n. insns_len k m a = Some n \<and> (k = 0 \<or> tot + n < least) \<and>
     (case insns_len (Suc k) m a of
        None \<Rightarrow> quick_size_loop m a least tot = 0
      | Some n' \<Rightarrow> quick_size_loop m a least tot = tot + n' \<and> n < n' \<and> n' \<le> n + 15 \<and> least \<le> tot + n')"
proof (induction m a least tot rule: quick_size_loop.induct)
  case (1 m a least tot)
  let ?hs = "hde64_disasm m a"
  let ?l = "unat (hs_len ?hs)"
  consider "hs_flags ?hs AND F_ERROR \<noteq> 0" | "hs_flags ?hs AND F_ERROR = 0" "tot + ?l < least"
    | "hs_flags ?hs AND F_ERROR = 0" "\<not> tot + ?l < least" by blast
  then show ?case
  proof cases
    case 1
    then show ?thesis by (intro exI [of _ 0]) (simp add: quick_size_loop.simps [of m a])
  next
    case 2
    then obtain k n where "insns_len k m (a + of_nat ?l) = Some n" "k = 0 \<or> tot + ?l + n < least"
      "case insns_len (Suc k) m (a + of_nat ?l) of
        None \<Rightarrow> quick_size_loop m (a + of_nat ?l) least (tot + ?l) = 0
      | Some n' \<Rightarrow> quick_size_loop m (a + of_nat ?l) least (tot + ?l) = tot + ?l + n' \<and> n < n' \<and> n' \<le> n + 15 \<and> least \<le> tot + ?l + n'"
      using "1.IH" [OF refl refl] by auto
    then show ?thesis using 2
      by (intro exI [of _ "Suc k"] exI [of _ "?l + n"])
         (auto simp: quick_size_loop.simps [of m a] Let_def split: option.splits if_splits)
  next
    case 3
    then show ?thesis using hde64_len_bounds [of m a]
      by (intro exI [of _ 0] exI [of _ 0]) (simp add: quick_size_loop.simps [of m a])
  qed
qed

text \<open>
  C11. \<open>quickInstructionSize\<close> returns the size of the shortest run of whole instructions that has at
  least \<open>least\<close> bytes, and 0 exactly when an instruction of that run does not decode. The run ends at
  most 15 bytes behind the last instruction before \<open>least\<close>.
\<close>

theorem quickInstructionSize_spec:
  "\<exists>k n. insns_len k m a = Some n \<and> (k = 0 \<or> n < least) \<and>
     (case insns_len (Suc k) m a of
        None \<Rightarrow> quickInstructionSize m a least = 0
      | Some n' \<Rightarrow> quickInstructionSize m a least = n' \<and> n < n' \<and> n' \<le> n + 15 \<and> least \<le> n')"
  using quick_size_loop_spec [of m a 0 least] by (simp only: quickInstructionSize_def add_0)

lemma quickInstructionSize_covers:
  "quickInstructionSize m a least \<noteq> 0 \<Longrightarrow> least \<le> quickInstructionSize m a least"
  using quick_size_loop_spec [of m a 0 least] by (auto simp: quickInstructionSize_def split: option.splits)

text \<open>
  C39. The length decoder always reports between 1 and 15 bytes, the limits of an x86 instruction, also on
  bytes that are no instruction.
\<close>

theorem hde64_disasm_bounds:
  "1 \<le> unat (hs_len (hde64_disasm m code)) \<and> unat (hs_len (hde64_disasm m code)) \<le> 15"
  using hde64_len_bounds [of m code] by simp

end
