(* ===== verification/Patcher_State.thy ===== *)
theory Patcher_State
  imports Mach_Load Containers Hde64
begin

text \<open>
  The state of \<open>KernelPatcher\<close> (\<open>kern_patcher.hpp\<close>, \<open>kern_patcher.cpp\<close>) and the operations on its
  image infos and symbols. The patcher is a record over the machine; it is extensible, so that
  the API and a plugin add their own fields. Patches are heap objects: \<open>patches\<close> maps a pointer
  to the live object, and using or freeing a dead one is \<open>None\<close>, like a panic.
\<close>

section \<open>Data\<close>

datatype error = NoError | NoKinfoFound | NoSymbolFound | KernInitFailure | KernRunningInitFailure
  | KextListeningFailure | DisasmFailure | MemoryIssue | MemoryProtection | PointerRange
  | AlreadyDone | LockError | Unsupported | InvalidSymbolFound

datatype JumpType = Auto | Long | Short | Medium

text \<open>A patch of \<open>n\<close> bytes: the width of its variant is the length of the two values.\<close>

record patch_all =
  pt_address :: addr
  pt_original :: "byte list"
  pt_replaced :: "byte list"

record kext_info =
  ki_id :: string
  ki_paths :: "string list"
  ki_Loaded :: bool
  ki_Reloadable :: bool
  ki_Disabled :: bool
  ki_FSOnly :: bool
  ki_FSFallback :: bool
  ki_loadIndex :: nat

definition KextInfo_Unloaded :: nat where
  "KextInfo_Unloaded = 0"

definition KernelID :: nat where
  "KernelID = 0"

definition switchOff :: "kext_info \<Rightarrow> kext_info" where
  "switchOff k = k\<lparr>ki_Disabled := True\<rparr>"

record kext_handler =
  kh_id :: string
  kh_index :: nat
  kh_address :: addr
  kh_size :: u64
  kh_loaded :: bool
  kh_reloadable :: bool

definition KextHandler_create :: "string \<Rightarrow> nat \<Rightarrow> bool \<Rightarrow> bool \<Rightarrow> kext_handler" where
  "KextHandler_create i idx l r =
     \<lparr>kh_id = i, kh_index = idx, kh_address = 0, kh_size = 0, kh_loaded = l, kh_reloadable = r\<rparr>"

text \<open>
  \<open>kexts\<close> holds the \<open>KextInfo\<close> objects by their pointer. \<open>prelinkInfo\<close> is the index of the image
  info it points to. The last fields are link-time addresses: the executable buffer, the two
  listener functions and the variables that receive the originals they replace.
\<close>

record patcher =
  mach :: machine
  code :: error
  kinfos :: "mach_info evector"
  prelinkInfo :: "nat option"
  kpatches :: "addr evector"
  patches :: "addr \<Rightarrow> patch_all option"
  khandlers :: "kext_handler evector"
  kexts :: "nat \<Rightarrow> kext_info"
  that :: bool
  kextKmods :: addr
  activated :: bool
  waitingForAlreadyLoadedKexts :: bool
  isKextUnloading :: bool
  tempExecutableMemoryOff :: nat
  tempExecutableMemory :: addr
  onOSKextUnload_fn :: addr
  onOSKextSave_fn :: addr
  orgOSKextUnload :: addr
  orgOSKextSave :: addr

abbreviation pmem :: "'z patcher_scheme \<Rightarrow> memory" where
  "pmem st \<equiv> mem (mach st)"

definition getError :: "'z patcher_scheme \<Rightarrow> error" where
  "getError st = code st"

definition clearError :: "'z patcher_scheme \<Rightarrow> 'z patcher_scheme" where
  "clearError st = st\<lparr>code := NoError\<rparr>"

definition setError :: "error \<Rightarrow> 'z patcher_scheme \<Rightarrow> 'z patcher_scheme" where
  "setError e st = st\<lparr>code := e\<rparr>"

section \<open>Machine operations on the patcher\<close>

definition kw_on :: "'z patcher_scheme \<Rightarrow> (kern_return \<times> 'z patcher_scheme) option" where
  "kw_on st = do { (r, m) \<leftarrow> writing_on (mach st); Some (r, st\<lparr>mach := m\<rparr>) }"

definition kw_off :: "'z patcher_scheme \<Rightarrow> (kern_return \<times> 'z patcher_scheme) option" where
  "kw_off st = do { (r, m) \<leftarrow> writing_off (mach st); Some (r, st\<lparr>mach := m\<rparr>) }"

definition kstore :: "addr \<Rightarrow> byte list \<Rightarrow> 'z patcher_scheme \<Rightarrow> 'z patcher_scheme option" where
  "kstore a bs st = do { m \<leftarrow> store_bytes a bs (mach st); Some (st\<lparr>mach := m\<rparr>) }"

definition kalloc :: "'z patcher_scheme \<Rightarrow> addr \<times> 'z patcher_scheme" where
  "kalloc st = (let (p, m) = allocate (mach st) in (p, st\<lparr>mach := m\<rparr>))"

section \<open>Patch objects\<close>

definition Patch_create :: "addr \<Rightarrow> byte list \<Rightarrow> 'z patcher_scheme \<Rightarrow> addr \<times> 'z patcher_scheme" where
  "Patch_create a rep st =
     (let (p, st1) = kalloc st in
      if p = 0 then (0, st1)
      else (p, st1\<lparr>patches := (patches st1)(p \<mapsto>
              \<lparr>pt_address = a, pt_original = read_bytes (pmem st1) a (length rep), pt_replaced = rep\<rparr>)\<rparr>))"

definition Patch_deleter :: "addr \<Rightarrow> 'z patcher_scheme \<Rightarrow> 'z patcher_scheme option" where
  "Patch_deleter p st =
     (if p = 0 then Some st
      else if patches st p = None then None
      else Some (st\<lparr>patches := (patches st)(p := None)\<rparr>))"

definition Patch_patch :: "addr \<Rightarrow> 'z patcher_scheme \<Rightarrow> 'z patcher_scheme option" where
  "Patch_patch p st = do { pt \<leftarrow> patches st p; kstore (pt_address pt) (pt_replaced pt) st }"

definition Patch_restore :: "addr \<Rightarrow> 'z patcher_scheme \<Rightarrow> 'z patcher_scheme option" where
  "Patch_restore p st = do { pt \<leftarrow> patches st p; kstore (pt_address pt) (pt_original pt) st }"

section \<open>Image infos\<close>

definition kinfo :: "nat \<Rightarrow> 'z patcher_scheme \<Rightarrow> mach_info option" where
  "kinfo i st = (if i < ev_size (kinfos st) then Some (ev_items (kinfos st) ! i) else None)"

definition set_kinfo :: "nat \<Rightarrow> mach_info \<Rightarrow> 'z patcher_scheme \<Rightarrow> 'z patcher_scheme" where
  "set_kinfo i info st =
     st\<lparr>kinfos := (kinfos st)\<lparr>ev_items := (ev_items (kinfos st))[i := info]\<rparr>\<rparr>"

primrec find_kinfo :: "mach_info list \<Rightarrow> string \<Rightarrow> nat \<Rightarrow> nat option" where
  "find_kinfo [] ident i = None"
| "find_kinfo (k # ks) ident i = (if objectId k = Some ident then Some i else find_kinfo ks ident (Suc i))"

text \<open>The load of an image that is not known yet; index 0 is returned on failure (\<open>INVALID\<close>).\<close>

definition load_new_kinfo :: "kern_env \<Rightarrow> string \<Rightarrow> string list \<Rightarrow> bool \<Rightarrow> bool \<Rightarrow> 'z patcher_scheme
    \<Rightarrow> (nat \<times> 'z patcher_scheme) option" where
  "load_new_kinfo env ident paths isKern fsonly st = do {
     let pre = (if \<not> fsonly \<and> \<not> isKern \<and> ev_size (kinfos st) > KernelID then prelinkInfo st else None);
     let (p, st1) = kalloc st;
     if p = 0 then Some (0, setError MemoryIssue st1)
     else do {
       (r, mc, info, pre1) \<leftarrow> MachInfo_init env paths (pre \<bind> (\<lambda>i. kinfo i st1)) (mach st1)
                               (MachInfo_create isKern (Some ident));
       let st2 = (case (pre, pre1) of (Some i, Some k) \<Rightarrow> set_kinfo i k (st1\<lparr>mach := mc\<rparr>)
                  | _ \<Rightarrow> st1\<lparr>mach := mc\<rparr>);
       if r \<noteq> KERN_SUCCESS then
         Some (0, setError (if r \<noteq> KERN_NOT_SUPPORTED then NoKinfoFound else Unsupported) st2)
       else do {
         let (ok, ks, mc1) = ev_push_back 2 info (kinfos st2) (mach st2);
         let st3 = st2\<lparr>kinfos := ks, mach := mc1\<rparr>;
         Some (if ok then (ev_last (kinfos st3), st3) else (0, setError MemoryIssue st3))
       }
     }
   }"

definition loadKinfo :: "kern_env \<Rightarrow> string \<Rightarrow> string list \<Rightarrow> bool \<Rightarrow> bool \<Rightarrow> 'z patcher_scheme
    \<Rightarrow> (nat \<times> 'z patcher_scheme) option" where
  "loadKinfo env ident paths isKern fsonly st =
     (case find_kinfo (ev_items (kinfos st)) ident 0 of
        Some i \<Rightarrow> Some (i, setError AlreadyDone st)
      | None \<Rightarrow> load_new_kinfo env ident paths isKern fsonly st)"

definition loadKinfo_kext :: "kern_env \<Rightarrow> nat \<Rightarrow> 'z patcher_scheme \<Rightarrow> (nat \<times> 'z patcher_scheme) option" where
  "loadKinfo_kext env k st =
     (let info = kexts st k in
      if ki_loadIndex info \<noteq> KextInfo_Unloaded then Some (ki_loadIndex info, st)
      else do {
        (idx, st1) \<leftarrow> loadKinfo env (ki_id info) (ki_paths info) False (ki_FSOnly info) st;
        Some (idx, if getError st1 = NoError \<or> getError st1 = AlreadyDone
                   then st1\<lparr>kexts := (kexts st1)(k := info\<lparr>ki_loadIndex := idx\<rparr>)\<rparr> else st1)
      })"

definition updateRunningInfo :: "kern_env \<Rightarrow> nat \<Rightarrow> addr \<Rightarrow> u64 \<Rightarrow> bool \<Rightarrow> 'z patcher_scheme
    \<Rightarrow> (u64 \<times> 'z patcher_scheme) option" where
  "updateRunningInfo env i slide sz force st =
     (case kinfo i st of
        None \<Rightarrow> Some (sz, st)
      | Some info \<Rightarrow> do {
          (r, mc, info1) \<leftarrow> getRunningAddresses env slide sz force (mach st) info;
          let st1 = set_kinfo i info1 (st\<lparr>mach := mc\<rparr>);
          let st2 = (if r \<noteq> KERN_SUCCESS then setError KernRunningInitFailure st1 else st1);
          let nsize = snd (getRunningPosition info1);
          Some (if nsize > sz then nsize else sz, st2)
        })"

definition KernelAny :: nat where "KernelAny = 0"

definition compatibleKernel :: "kern_env \<Rightarrow> nat \<Rightarrow> nat \<Rightarrow> bool" where
  "compatibleKernel env lo hi \<longleftrightarrow>
     (lo = KernelAny \<or> lo \<le> version_major env) \<and> (hi = KernelAny \<or> hi \<ge> version_major env)"

section \<open>Symbols\<close>

definition patcher_solveSymbol :: "nat \<Rightarrow> string \<Rightarrow> 'z patcher_scheme \<Rightarrow> addr \<times> 'z patcher_scheme" where
  "patcher_solveSymbol i symbol st =
     (case kinfo i st of
        Some info \<Rightarrow>
          (let a = solveSymbol (pmem st) info symbol
           in if a \<noteq> 0 then (a, st) else (0, setError NoSymbolFound st))
      | None \<Rightarrow> (0, setError NoSymbolFound st))"

text \<open>The template with a range check; \<open>crash\<close> panics on a symbol outside it.\<close>

definition solveSymbol_in :: "nat \<Rightarrow> string \<Rightarrow> addr \<Rightarrow> u64 \<Rightarrow> bool \<Rightarrow> 'z patcher_scheme
    \<Rightarrow> (addr \<times> 'z patcher_scheme) option" where
  "solveSymbol_in i symbol start sz crash st =
     (let (a, st1) = patcher_solveSymbol i symbol st in
      if a = 0 then Some (0, st1)
      else if a \<ge> start \<and> a < start + sz then Some (a, st1)
      else if crash then None
      else Some (0, setError InvalidSymbolFound st1))"

record solve_request =
  sr_symbol :: string
  sr_address :: addr

primrec solveMultiple :: "nat \<Rightarrow> solve_request list \<Rightarrow> addr \<Rightarrow> u64 \<Rightarrow> bool \<Rightarrow> bool \<Rightarrow> 'z patcher_scheme
    \<Rightarrow> (bool \<times> 'z patcher_scheme) option" where
  "solveMultiple i [] start sz crash force st = Some (True, st)"
| "solveMultiple i (q # qs) start sz crash force st = do {
     (a, st1) \<leftarrow> solveSymbol_in i (sr_symbol q) start sz crash st;
     if a \<noteq> 0 then do {
       st2 \<leftarrow> kstore (sr_address q) (le_bytes 8 a) st1;
       solveMultiple i qs start sz crash force st2
     } else if \<not> force then Some (False, clearError st1)
     else solveMultiple i qs start sz crash force (clearError st1)
   }"

definition kernelPaths :: "string list" where
  "kernelPaths = [''/System/Library/Kernels/kernel'', ''/mach_kernel'']"

definition prelinkKernelPaths :: "string list" where
  "prelinkKernelPaths =
     [''/System/Library/Caches/com.apple.kext.caches/Startup/kernelcache'',
      ''/System/Library/PrelinkedKernels/prelinkedkernel'',
      ''/macOS Install Data/Locked Files/Boot Files/prelinkedkernel'',
      ''/com.apple.boot.R/prelinkedkernel'',
      ''/com.apple.boot.S/System/Library/PrelinkedKernels/prelinkedkernel'',
      ''/com.apple.recovery.boot/prelinkedkernel'',
      ''/kernelcache'']"

section \<open>The window on the patcher\<close>

lemma kw_on_ok:
  "window_ready (mach st) \<Longrightarrow>
     \<exists>mc. kw_on st = Some (KERN_SUCCESS, st\<lparr>mach := mc\<rparr>) \<and> opened_from (mach st) mc \<and> mem mc = pmem st"
  using kw.opens [of "mach st"] by (auto simp: kw_on_def)

lemma kstore_ok:
  "opened_from m0 (mach st) \<Longrightarrow>
     \<exists>mc. kstore a bs st = Some (st\<lparr>mach := mc\<rparr>) \<and> opened_from m0 mc \<and> mem mc = write_bytes (pmem st) a bs"
  using kw.puts [of m0 "mach st" a bs] by (auto simp: kstore_def)

lemma kw_off_ok:
  "opened_from m0 (mach st) \<Longrightarrow> window_ready m0 \<Longrightarrow>
     \<exists>mc. kw_off st = Some (KERN_SUCCESS, st\<lparr>mach := mc\<rparr>) \<and> same_cpu m0 mc \<and> window_ready mc \<and>
          mem mc = pmem st"
  using kw.closes [of m0 "mach st"] kw.settles by (fastforce simp: kw_off_def)

lemma Patch_patch_ok:
  assumes "opened_from m0 (mach st)" and "patches st p = Some pt"
  shows "\<exists>mc. Patch_patch p st = Some (st\<lparr>mach := mc\<rparr>) \<and> opened_from m0 mc \<and>
     mem mc = write_bytes (pmem st) (pt_address pt) (pt_replaced pt)"
  using kstore_ok [OF assms(1)] assms(2) by (simp add: Patch_patch_def)

lemma Patch_restore_ok:
  assumes "opened_from m0 (mach st)" and "patches st p = Some pt"
  shows "\<exists>mc. Patch_restore p st = Some (st\<lparr>mach := mc\<rparr>) \<and> opened_from m0 mc \<and>
     mem mc = write_bytes (pmem st) (pt_address pt) (pt_original pt)"
  using kstore_ok [OF assms(1)] assms(2) by (simp add: Patch_restore_def)

lemma same_cpu_trans: "same_cpu a b \<Longrightarrow> same_cpu b c \<Longrightarrow> same_cpu a c"
  by (simp add: same_cpu_def)

lemma same_cpu_refl [simp]: "same_cpu a a"
  by (simp add: same_cpu_def)

section \<open>A patcher at rest\<close>

definition bare_patcher :: "memory \<Rightarrow> mach_info list \<Rightarrow> (nat \<Rightarrow> kext_info) \<Rightarrow> patcher" where
  "bare_patcher m infos ks =
     \<lparr>mach = bare_machine m, code = NoError, kinfos = \<lparr>ev_items = infos, ev_rsvd = length infos\<rparr>, prelinkInfo = None,
      kpatches = ev_empty, patches = (\<lambda>_. None), khandlers = ev_empty, kexts = ks, that = True, kextKmods = 0,
      activated = False, waitingForAlreadyLoadedKexts = False, isKextUnloading = False,
      tempExecutableMemoryOff = 0, tempExecutableMemory = 0x900000, onOSKextUnload_fn = 0xA00000,
      onOSKextSave_fn = 0xA00100, orgOSKextUnload = 0xB00000, orgOSKextSave = 0xB00008\<rparr>"

definition image_info :: "string \<Rightarrow> addr \<Rightarrow> u64 \<Rightarrow> mach_info" where
  "image_info ident base sz = (MachInfo_create False (Some ident))\<lparr>running_mh := base, memory_size := sz\<rparr>"

definition kext_at :: "string \<Rightarrow> nat \<Rightarrow> kext_info" where
  "kext_at ident i = \<lparr>ki_id = ident, ki_paths = [], ki_Loaded = False, ki_Reloadable = False, ki_Disabled = False,
     ki_FSOnly = False, ki_FSFallback = False, ki_loadIndex = i\<rparr>"

lemmas bare_simps = bare_patcher_def kinfo_def ev_size_def image_info_def kext_at_def getRunningPosition_def
  MachInfo_create_def KextInfo_Unloaded_def KernelID_def

section \<open>Between two operations\<close>

text \<open>The machine between two operations of the patcher: only memory, the heap and the statics may differ.\<close>

definition at_rest :: "machine \<Rightarrow> machine \<Rightarrow> bool" where
  "at_rest m0 m \<longleftrightarrow> same_cpu m0 (m\<lparr>alloc_no := alloc_no m0\<rparr>) \<and> alloc_no m0 \<le> alloc_no m"

lemma at_rest_trans: "at_rest a b \<Longrightarrow> at_rest b c \<Longrightarrow> at_rest a c"
  by (simp add: at_rest_def same_cpu_def)

lemma at_rest_ready: "at_rest a b \<Longrightarrow> window_ready a \<Longrightarrow> window_ready b"
  by (simp add: at_rest_def same_cpu_def window_ready_def cr0_honest_def)

lemma same_cpu_at_rest: "same_cpu a b \<Longrightarrow> at_rest a b"
  by (simp add: at_rest_def same_cpu_def)

end
