(* ===== verification/Patcher_Route.thy ===== *)
theory Patcher_Route
  imports Patcher_State
begin

text \<open>
  Function routing of \<open>kern_patcher.cpp\<close>: removal of coverage instructions, the jump that replaces
  a function entry, trampolines, blocks and batches of requests.
\<close>

section \<open>Coverage instructions\<close>

definition IncInstPrefix :: "byte list" where
  "IncInstPrefix = [0x48, 0xFF, 0x05]"

definition IncInstSize :: nat where
  "IncInstSize = 7"

definition erase_inst :: "addr \<Rightarrow> 'z patcher_scheme \<Rightarrow> 'z patcher_scheme option" where
  "erase_inst a st = do {
     (r, st1) \<leftarrow> kw_on st;
     if r = KERN_SUCCESS then do {
       st2 \<leftarrow> kstore a (replicate IncInstSize 0x90) st1;
       (_, st3) \<leftarrow> kw_off st2;
       Some st3
     } else Some st1
   }"

text \<open>\<open>done\<close> is \<open>totalInstSize\<close>; a limit that is not positive is no limit.\<close>

primrec erase_coverage_loop :: "nat \<Rightarrow> int \<Rightarrow> int \<Rightarrow> addr \<Rightarrow> 'z patcher_scheme \<Rightarrow> 'z patcher_scheme option" where
  "erase_coverage_loop 0 limit sofar a st = Some st"
| "erase_coverage_loop (Suc n) limit sofar a st =
     (let instSize = quickInstructionSize (pmem st) a 1 in
      if instSize = 0 then Some st
      else do {
        st1 \<leftarrow> (if instSize = IncInstSize \<and> read_bytes (pmem st) a 3 = IncInstPrefix
                then erase_inst a st else Some st);
        if limit > 0 \<and> sofar + int instSize \<ge> limit then Some st1
        else erase_coverage_loop n limit (sofar + int instSize) (a + of_nat instSize) st1
      })"

definition eraseCoverageInstPrefix :: "addr \<Rightarrow> nat \<Rightarrow> int \<Rightarrow> 'z patcher_scheme \<Rightarrow> 'z patcher_scheme option" where
  "eraseCoverageInstPrefix a count limit st = erase_coverage_loop count limit 0 a st"

section \<open>Jumps\<close>

definition EINVAL :: addr where "EINVAL = 22"

definition SmallJump :: nat where "SmallJump = 5"
definition MediumJump :: nat where "MediumJump = 6"
definition LongJump :: nat where "LongJump = 14"
definition SmallJumpPrefix :: byte where "SmallJumpPrefix = 0xE9"
definition LongJumpPrefix :: u16 where "LongJumpPrefix = 0x25FF"
definition PAGE_SIZE :: nat where "PAGE_SIZE = 4096"
definition TempExecutableMemorySize :: nat where "TempExecutableMemorySize = 4096"

lemmas jump_consts = SmallJump_def MediumJump_def LongJump_def SmallJumpPrefix_def LongJumpPrefix_def

text \<open>The jump that is already at \<open>from\<close>: its target (0 is none) and its kind.\<close>

definition readChain :: "memory \<Rightarrow> addr \<Rightarrow> addr \<times> JumpType" where
  "readChain m fr =
     (if load16 m fr = LongJumpPrefix then
        (let disp = load32 m (fr + 2)
         in (load64 m (fr + 6 + scast disp), if disp \<noteq> 0 then Medium else Long))
      else if m fr = SmallJumpPrefix then (fr + 5 + scast (load32 m (fr + 1)), Short)
      else (0, Auto))"

text \<open>
  The bytes of the jump as \<open>FunctionPatch\<close> lays them out: the whole aligned word, and the
  three patches it is made of.
\<close>

record jump_patch =
  jp_value :: "byte list"
  jp_opcode :: "addr \<times> byte list"
  jp_argument :: "addr \<times> byte list"
  jp_disp :: "(addr \<times> byte list) option"

definition medium_jump :: "memory \<Rightarrow> addr \<Rightarrow> addr \<Rightarrow> addr \<Rightarrow> jump_patch" where
  "medium_jump m fr slot to =
     (let opc = le_bytes 2 LongJumpPrefix; arg = le_bytes 4 (ucast (slot - (fr + 6)) :: u32)
      in \<lparr>jp_value = opc @ arg @ read_bytes m (fr + 6) 2, jp_opcode = (fr, opc),
          jp_argument = (fr + 2, arg), jp_disp = Some (slot, le_bytes 8 to)\<rparr>)"

definition long_jump :: "memory \<Rightarrow> addr \<Rightarrow> addr \<Rightarrow> jump_patch" where
  "long_jump m fr to =
     (let opc = le_bytes 2 LongJumpPrefix; arg = le_bytes 4 (0 :: u32)
      in \<lparr>jp_value = opc @ arg @ le_bytes 8 to @ read_bytes m (fr + 14) 2, jp_opcode = (fr, opc),
          jp_argument = (fr + 2, arg), jp_disp = Some (fr + 6, le_bytes 8 to)\<rparr>)"

definition small_jump :: "memory \<Rightarrow> addr \<Rightarrow> addr \<Rightarrow> jump_patch" where
  "small_jump m fr to =
     (let opc = [SmallJumpPrefix]; arg = le_bytes 4 (ucast (to - (fr + 5)) :: u32)
      in \<lparr>jp_value = opc @ arg @ read_bytes m (fr + 5) 3, jp_opcode = (fr, opc),
          jp_argument = (fr + 1, arg), jp_disp = None\<rparr>)"

definition jump_for :: "memory \<Rightarrow> addr \<Rightarrow> addr \<Rightarrow> bool \<Rightarrow> addr \<Rightarrow> jump_patch" where
  "jump_for m fr to absolute slot =
     (if slot \<noteq> 0 then medium_jump m fr slot to
      else if absolute then long_jump m fr to
      else small_jump m fr to)"

text \<open>Whether the target is out of reach of a 32-bit displacement.\<close>

definition far_away :: "addr \<Rightarrow> addr \<Rightarrow> bool" where
  "far_away fr to \<longleftrightarrow>
     (let diff = to - (fr + 5) in diff \<noteq> scast (ucast diff :: u32))"

section \<open>Routing one function\<close>

definition take_slot :: "nat option \<Rightarrow> 'z patcher_scheme \<Rightarrow> (addr \<times> 'z patcher_scheme) option" where
  "take_slot info st =
     (case info of
        None \<Rightarrow> None
      | Some i \<Rightarrow> do {
          k \<leftarrow> kinfo i st;
          let (slot, k1) = getAddressSlot k;
          Some (slot, set_kinfo i k1 st)
        })"

text \<open>Trampoline and slot for a function that was routed before. Misuse panics.\<close>

definition route_again :: "addr \<Rightarrow> JumpType \<Rightarrow> bool \<Rightarrow> JumpType \<Rightarrow> nat option \<Rightarrow> 'z patcher_scheme
    \<Rightarrow> (addr \<times> addr \<times> 'z patcher_scheme) option" where
  "route_again prev prevJump buildWrapper jumpType info st =
     (let trampoline = (if buildWrapper then prev else 0) in
      if prevJump = Short \<or> jumpType = Short then None
      else if prevJump = Medium then do {
        (slot, st1) \<leftarrow> take_slot info st;
        if slot = 0 then None else Some (trampoline, slot, st1)
      } else Some (trampoline, 0, st))"

text \<open>Trampoline and slot for a fresh function; \<open>mk\<close> builds the trampoline.\<close>

definition route_fresh :: "(addr \<Rightarrow> nat \<Rightarrow> 'z patcher_scheme \<Rightarrow> (addr \<times> 'z patcher_scheme) option) \<Rightarrow> addr \<Rightarrow> bool
    \<Rightarrow> JumpType \<Rightarrow> nat option \<Rightarrow> 'z patcher_scheme \<Rightarrow> (addr \<times> addr \<times> 'z patcher_scheme) option" where
  "route_fresh mk fr absolute jumpType info st = do {
     (slot, st1) \<leftarrow> (if info \<noteq> None \<and> absolute \<and> (jumpType = Auto \<or> jumpType = Long)
                    then take_slot info st else Some (0, st));
     (trampoline, st2) \<leftarrow> mk fr (if absolute then (if slot \<noteq> 0 then MediumJump else LongJump) else SmallJump) st1;
     Some (trampoline, slot, st2)
   }"

text \<open>The three patch objects of a jump; a null pointer is one that was not allocated.\<close>

definition make_patches :: "jump_patch \<Rightarrow> 'z patcher_scheme \<Rightarrow> (addr \<times> addr \<times> addr) \<times> 'z patcher_scheme" where
  "make_patches jp st =
     (let (o1, st1) = Patch_create (fst (jp_opcode jp)) (snd (jp_opcode jp)) st;
          (a1, st2) = Patch_create (fst (jp_argument jp)) (snd (jp_argument jp)) st1;
          (d1, st3) = (case jp_disp jp of None \<Rightarrow> (0, st2) | Some d \<Rightarrow> Patch_create (fst d) (snd d) st2)
      in ((o1, a1, d1), st3))"

definition delete_patches :: "addr \<times> addr \<times> addr \<Rightarrow> 'z patcher_scheme \<Rightarrow> 'z patcher_scheme option" where
  "delete_patches ps st = (case ps of (o1, a1, d1) \<Rightarrow> do {
     st1 \<leftarrow> Patch_deleter o1 st;
     st2 \<leftarrow> Patch_deleter a1 st1;
     Patch_deleter d1 st2
   })"

text \<open>Writing the jump: in one aligned store where the alignment allows it.\<close>

definition write_jump :: "addr \<Rightarrow> bool \<Rightarrow> addr \<Rightarrow> jump_patch \<Rightarrow> addr \<times> addr \<times> addr \<Rightarrow> 'z patcher_scheme
    \<Rightarrow> 'z patcher_scheme option" where
  "write_jump fr absolute slot jp ps st = (case ps of (o1, a1, d1) \<Rightarrow> do {
     st1 \<leftarrow> (if slot \<noteq> 0 then Patch_patch d1 st else Some st);
     if slot \<noteq> 0 \<or> \<not> absolute then
       (if fr AND 7 = 0 then kstore fr (jp_value jp) st1
        else do { st2 \<leftarrow> Patch_patch o1 st1; Patch_patch a1 st2 })
     else if fr AND 15 = 0 then kstore fr (jp_value jp) st1
     else do { st2 \<leftarrow> Patch_patch d1 st1; st3 \<leftarrow> Patch_patch o1 st2; Patch_patch a1 st3 }
   })"

definition push_patch :: "addr \<Rightarrow> 'z patcher_scheme \<Rightarrow> bool \<times> 'z patcher_scheme" where
  "push_patch p st =
     (let (ok, v, mc) = ev_push_back 4 p (kpatches st) (mach st) in (ok, st\<lparr>kpatches := v, mach := mc\<rparr>))"

definition erase_patch :: "nat \<Rightarrow> 'z patcher_scheme \<Rightarrow> 'z patcher_scheme option" where
  "erase_patch i st = do {
     (v, st1) \<leftarrow> ev_erase Patch_deleter i True (kpatches st) st;
     Some (st1\<lparr>kpatches := v\<rparr>)
   }"

text \<open>
  Keeping the patches for removal. \<open>push_back\<close> returns a boolean, which the failure path uses as
  the index to erase: it is always index 1.
\<close>

definition keep_patches :: "addr \<times> addr \<times> addr \<Rightarrow> 'z patcher_scheme \<Rightarrow> (bool \<times> 'z patcher_scheme) option" where
  "keep_patches ps st = (case ps of (o1, a1, d1) \<Rightarrow>
     (let (oidx, st1) = push_patch o1 st;
          (aidx, st2) = push_patch a1 st1;
          (didx, st3) = (if d1 \<noteq> 0 then push_patch d1 st2 else (False, st2))
      in if oidx \<and> aidx \<and> (d1 = 0 \<or> didx) then Some (True, st3)
         else do {
           st4 \<leftarrow> (if oidx then erase_patch 1 st3 else Some st3);
           st5 \<leftarrow> (if aidx then erase_patch 1 st4 else Some st4);
           st6 \<leftarrow> (if didx then erase_patch 1 st5 else Some st5);
           Some (False, st6)
         }))"

text \<open>From the writing of \<open>*org\<close> on: the trampoline is known, the jump is put in place.\<close>

definition route_finish :: "addr \<Rightarrow> addr \<Rightarrow> bool \<Rightarrow> bool \<Rightarrow> bool \<Rightarrow> addr \<Rightarrow> addr \<Rightarrow> addr \<Rightarrow> 'z patcher_scheme
    \<Rightarrow> (addr \<times> 'z patcher_scheme) option" where
  "route_finish fr to absolute kernelRoute revertible org trampoline slot st = do {
     st1 \<leftarrow> (if org \<noteq> 0 then kstore org (le_bytes 8 trampoline) st else Some st);
     let jp = jump_for (pmem st1) fr to absolute slot;
     let ((o1, a1, d1), st2) = make_patches jp st1;
     if o1 = 0 \<or> a1 = 0 \<or> (absolute \<and> d1 = 0) then do {
       st3 \<leftarrow> delete_patches (o1, a1, d1) (setError MemoryIssue st2);
       Some (EINVAL, st3)
     } else do {
       (r, st3) \<leftarrow> (if kernelRoute then kw_on st2 else Some (KERN_SUCCESS, st2));
       if r \<noteq> KERN_SUCCESS then do {
         st4 \<leftarrow> delete_patches (o1, a1, d1) (setError MemoryProtection st3);
         Some (EINVAL, st4)
       } else do {
         st4 \<leftarrow> write_jump fr absolute slot jp (o1, a1, d1) st3;
         if kernelRoute then do {
           (_, st5) \<leftarrow> kw_off st4;
           (kept, st6) \<leftarrow> (if revertible then keep_patches (o1, a1, d1) st5 else Some (False, st5));
           if kept then Some (trampoline, st6)
           else do { st7 \<leftarrow> delete_patches (o1, a1, d1) st6; Some (trampoline, st7) }
         } else do { st5 \<leftarrow> delete_patches (o1, a1, d1) st4; Some (trampoline, st5) }
       }
     }
   }"

text \<open>
  \<open>routeFunctionInternal\<close> over the function that builds trampolines, which it calls and which
  calls it back with \<open>buildWrapper\<close> false.
\<close>

definition route_with :: "(addr \<Rightarrow> nat \<Rightarrow> 'z patcher_scheme \<Rightarrow> (addr \<times> 'z patcher_scheme) option) \<Rightarrow> addr \<Rightarrow> addr \<Rightarrow> bool
    \<Rightarrow> bool \<Rightarrow> bool \<Rightarrow> JumpType \<Rightarrow> nat option \<Rightarrow> addr \<Rightarrow> 'z patcher_scheme \<Rightarrow> (addr \<times> 'z patcher_scheme) option" where
  "route_with mk fr to buildWrapper kernelRoute revertible jumpType info org st =
     (let far = far_away fr to; absolute = (far \<or> jumpType = Long); (prev, prevJump) = readChain (pmem st) fr in
      if jumpType = Short \<and> far then Some (EINVAL, setError MemoryIssue st)
      else if prev \<noteq> 0 then do {
        (trampoline, slot, st1) \<leftarrow> route_again prev prevJump buildWrapper jumpType info st;
        route_finish fr to absolute kernelRoute False org trampoline slot st1
      } else if buildWrapper then do {
        (trampoline, slot, st1) \<leftarrow> route_fresh mk fr absolute jumpType info st;
        if trampoline = 0 then Some (EINVAL, st1)
        else route_finish fr to absolute kernelRoute revertible org trampoline slot st1
      } else route_finish fr to absolute kernelRoute revertible org 0 0 st)"

text \<open>A route without wrapper never builds a trampoline.\<close>

definition route_plain :: "addr \<Rightarrow> addr \<Rightarrow> bool \<Rightarrow> 'z patcher_scheme \<Rightarrow> (addr \<times> 'z patcher_scheme) option" where
  "route_plain fr to revertible st =
     route_with (\<lambda>_ _ _. None) fr to False True revertible Auto None 0 st"

definition createTrampoline :: "addr \<Rightarrow> nat \<Rightarrow> byte list \<Rightarrow> 'z patcher_scheme \<Rightarrow> (addr \<times> 'z patcher_scheme) option" where
  "createTrampoline func least opcodes st = do {
     (r, st1) \<leftarrow> kw_on st;
     if r \<noteq> KERN_SUCCESS then Some (0, setError MemoryProtection st1)
     else do {
       let off = quickInstructionSize (pmem st1) func least;
       if off = 0 \<or> off > PAGE_SIZE - LongJump then do {
         (_, st2) \<leftarrow> kw_off st1;
         Some (0, setError DisasmFailure st2)
       } else do {
         let ptr = tempExecutableMemory st1 + of_nat (tempExecutableMemoryOff st1);
         let st2 = st1\<lparr>tempExecutableMemoryOff := tempExecutableMemoryOff st1 + off + LongJump + length opcodes\<rparr>;
         if tempExecutableMemoryOff st2 \<ge> TempExecutableMemorySize then do {
           (_, st3) \<leftarrow> kw_off st2;
           Some (0, setError DisasmFailure st3)
         } else do {
           st3 \<leftarrow> kstore ptr opcodes st2;
           st4 \<leftarrow> kstore (ptr + of_nat (length opcodes)) (read_bytes (pmem st3) func off) st3;
           (_, st5) \<leftarrow> kw_off st4;
           (_, st6) \<leftarrow> route_plain (ptr + of_nat (length opcodes) + of_nat off) (func + of_nat off) False
                        (clearError st5);
           Some (if getError st6 = NoError then ptr else 0, st6)
         }
       }
     }
   }"

definition routeFunctionInternal :: "addr \<Rightarrow> addr \<Rightarrow> bool \<Rightarrow> bool \<Rightarrow> bool \<Rightarrow> JumpType \<Rightarrow> nat option \<Rightarrow> addr
    \<Rightarrow> 'z patcher_scheme \<Rightarrow> (addr \<times> 'z patcher_scheme) option" where
  "routeFunctionInternal = route_with (\<lambda>fr least. createTrampoline fr least [])"

definition routeFunction :: "addr \<Rightarrow> addr \<Rightarrow> bool \<Rightarrow> bool \<Rightarrow> bool \<Rightarrow> 'z patcher_scheme \<Rightarrow> (addr \<times> 'z patcher_scheme) option" where
  "routeFunction fr to buildWrapper kernelRoute revertible st =
     routeFunctionInternal fr to buildWrapper kernelRoute revertible Auto None 0 st"

definition routeFunctionLong :: "addr \<Rightarrow> addr \<Rightarrow> bool \<Rightarrow> bool \<Rightarrow> bool \<Rightarrow> 'z patcher_scheme \<Rightarrow> (addr \<times> 'z patcher_scheme) option" where
  "routeFunctionLong fr to buildWrapper kernelRoute revertible st =
     routeFunctionInternal fr to buildWrapper kernelRoute revertible Long None 0 st"

definition routeFunctionShort :: "addr \<Rightarrow> addr \<Rightarrow> bool \<Rightarrow> bool \<Rightarrow> bool \<Rightarrow> 'z patcher_scheme \<Rightarrow> (addr \<times> 'z patcher_scheme) option" where
  "routeFunctionShort fr to buildWrapper kernelRoute revertible st =
     routeFunctionInternal fr to buildWrapper kernelRoute revertible Short None 0 st"

section \<open>Blocks, batches and virtual tables\<close>

definition routeBlock :: "addr \<Rightarrow> byte list \<Rightarrow> bool \<Rightarrow> bool \<Rightarrow> 'z patcher_scheme \<Rightarrow> (addr \<times> 'z patcher_scheme) option" where
  "routeBlock fr opcodes buildWrapper kernelRoute st =
     (if \<not> buildWrapper then do {
        (r, st1) \<leftarrow> (if kernelRoute then kw_on st else Some (KERN_SUCCESS, st));
        if r = KERN_SUCCESS then do {
          st2 \<leftarrow> kstore fr opcodes st1;
          st3 \<leftarrow> (if kernelRoute then map_option snd (kw_off st2) else Some st2);
          Some (0, st3)
        } else Some (EINVAL, setError MemoryProtection st1)
      }
      else if \<not> kernelRoute then Some (EINVAL, setError MemoryProtection st)
      else do {
        (trampoline, st1) \<leftarrow> createTrampoline fr LongJump opcodes st;
        if trampoline = 0 then Some (EINVAL, st1)
        else do {
          (r, st2) \<leftarrow> routeFunctionInternal fr trampoline False True True Auto None 0 st1;
          Some (if r = 0 then trampoline else EINVAL, st2)
        }
      })"

record route_request =
  rr_symbol :: "string option"
  rr_from :: addr
  rr_to :: addr
  rr_org :: addr

definition RouteRequest :: "string \<Rightarrow> addr \<Rightarrow> addr \<Rightarrow> route_request" where
  "RouteRequest s t o1 = \<lparr>rr_symbol = Some s, rr_from = 0, rr_to = t, rr_org = o1\<rparr>"

text \<open>
  The first loop of \<open>routeMultipleInternal\<close> solves the symbols and stores the addresses in the
  requests. The first flag is false for the early false return, the second says whether an error
  was found.
\<close>

primrec solve_requests :: "nat \<Rightarrow> addr \<Rightarrow> u64 \<Rightarrow> bool \<Rightarrow> bool \<Rightarrow> route_request list \<Rightarrow> 'z patcher_scheme
    \<Rightarrow> (bool \<times> bool \<times> route_request list \<times> 'z patcher_scheme) option" where
  "solve_requests i start sz force errs [] st = Some (True, errs, [], st)"
| "solve_requests i start sz force errs (q # qs) st =
     (case rr_symbol q of
        None \<Rightarrow> do {
          (go, errs1, rest, st1) \<leftarrow> solve_requests i start sz force errs qs st;
          Some (go, errs1, q # rest, st1)
        }
      | Some symbol \<Rightarrow> do {
          (a, st1) \<leftarrow> (if start \<noteq> 0 \<or> sz \<noteq> 0 then solveSymbol_in i symbol start sz True st
                      else Some (patcher_solveSymbol i symbol st));
          if a = 0 \<and> \<not> force then Some (False, True, q\<lparr>rr_from := 0\<rparr> # qs, clearError st1)
          else do {
            (go, errs1, rest, st2) \<leftarrow> solve_requests i start sz force (errs \<or> a = 0) qs
                                       (if a = 0 then clearError st1 else st1);
            Some (go, errs1, q\<lparr>rr_from := a\<rparr> # rest, st2)
          }
        })"

text \<open>The second loop routes them. A wrapper of 0 is a failure exactly when one was wanted.\<close>

primrec route_requests :: "nat \<Rightarrow> bool \<Rightarrow> bool \<Rightarrow> JumpType \<Rightarrow> bool \<Rightarrow> route_request list \<Rightarrow> 'z patcher_scheme
    \<Rightarrow> (bool \<times> 'z patcher_scheme) option" where
  "route_requests i kernelRoute force jump errs [] st = Some (\<not> errs, st)"
| "route_requests i kernelRoute force jump errs (q # qs) st =
     (if rr_from q = 0 then route_requests i kernelRoute force jump errs qs st
      else do {
        st1 \<leftarrow> (if rr_to q \<noteq> 0 then eraseCoverageInstPrefix (rr_from q) 5 (int LongJump) st else Some st);
        (wrapper, st2) \<leftarrow> routeFunctionInternal (rr_from q) (rr_to q) (rr_org q \<noteq> 0) kernelRoute True jump
                            (Some i) (rr_org q) st1;
        if (rr_org q \<noteq> 0) = (wrapper \<noteq> 0) then route_requests i kernelRoute force jump errs qs st2
        else if \<not> force then Some (False, clearError st2)
        else route_requests i kernelRoute force jump True qs (clearError st2)
      })"

definition routeMultipleInternal :: "nat \<Rightarrow> route_request list \<Rightarrow> addr \<Rightarrow> u64 \<Rightarrow> bool \<Rightarrow> bool \<Rightarrow> JumpType
    \<Rightarrow> 'z patcher_scheme \<Rightarrow> (bool \<times> route_request list \<times> 'z patcher_scheme) option" where
  "routeMultipleInternal i requests start sz kernelRoute force jump st = do {
     (go, errs, qs, st1) \<leftarrow> solve_requests i start sz force False requests st;
     if \<not> go then Some (False, qs, st1)
     else do {
       (ok, st2) \<leftarrow> route_requests i kernelRoute force jump errs qs st1;
       Some (ok, qs, st2)
     }
   }"

definition routeMultiple :: "nat \<Rightarrow> route_request list \<Rightarrow> addr \<Rightarrow> u64 \<Rightarrow> bool \<Rightarrow> bool
    \<Rightarrow> 'z patcher_scheme \<Rightarrow> (bool \<times> route_request list \<times> 'z patcher_scheme) option" where
  "routeMultiple i requests start sz kernelRoute force =
     routeMultipleInternal i requests start sz kernelRoute force Auto"

definition routeMultipleLong :: "nat \<Rightarrow> route_request list \<Rightarrow> addr \<Rightarrow> u64 \<Rightarrow> bool \<Rightarrow> bool
    \<Rightarrow> 'z patcher_scheme \<Rightarrow> (bool \<times> route_request list \<times> 'z patcher_scheme) option" where
  "routeMultipleLong i requests start sz kernelRoute force =
     routeMultipleInternal i requests start sz kernelRoute force Long"

definition routeMultipleShort :: "nat \<Rightarrow> route_request list \<Rightarrow> addr \<Rightarrow> u64 \<Rightarrow> bool \<Rightarrow> bool
    \<Rightarrow> 'z patcher_scheme \<Rightarrow> (bool \<times> route_request list \<times> 'z patcher_scheme) option" where
  "routeMultipleShort i requests start sz kernelRoute force =
     routeMultipleInternal i requests start sz kernelRoute force Short"

text \<open>\<open>routeVirtual\<close> replaces entry \<open>off\<close> of the virtual table of an object, once.\<close>

definition routeVirtual :: "addr \<Rightarrow> nat \<Rightarrow> addr \<Rightarrow> addr \<Rightarrow> 'z patcher_scheme \<Rightarrow> (bool \<times> 'z patcher_scheme) option" where
  "routeVirtual obj off func orgFunc st =
     (let vt = (if obj \<noteq> 0 then load64 (pmem st) obj else 0); slot = vt + 8 * of_nat off in
      if vt = 0 then Some (False, st)
      else if load64 (pmem st) slot = func then Some (False, st)
      else do {
        st1 \<leftarrow> (if orgFunc \<noteq> 0 then kstore orgFunc (read_bytes (pmem st) slot 8) st else Some st);
        st2 \<leftarrow> kstore slot (le_bytes 8 func) st1;
        Some (True, st2)
      })"

end
