(* ===== verification/Patcher_Lookup.thy ===== *)
theory Patcher_Lookup
  imports Patcher_State
begin

text \<open>
  Find-and-replace patching of \<open>kern_patcher.cpp\<close>: \<open>applyLookupPatch\<close> over the memory of an
  image, and the masked \<open>findPattern\<close> and \<open>findAndReplaceWithMask\<close> over a buffer.
\<close>

section \<open>Lookup patches\<close>

text \<open>\<open>lp_kext\<close> is the pointer to the \<open>KextInfo\<close>, \<open>None\<close> for the kernel.\<close>

record lookup_patch =
  lp_kext :: "nat option"
  lp_find :: "byte list"
  lp_replace :: "byte list"
  lp_size :: nat
  lp_count :: nat

text \<open>The inner loop: from \<open>cur\<close> to the first match below \<open>stop\<close>, or to \<open>stop\<close>.\<close>

function lookup_find :: "memory \<Rightarrow> byte list \<Rightarrow> addr \<Rightarrow> addr \<Rightarrow> addr" where
  "lookup_find m pat cur stop =
     (if cur < stop \<and> read_bytes m cur (length pat) \<noteq> pat then lookup_find m pat (cur + 1) stop else cur)"
  by pat_completeness auto
termination
proof (relation "measure (\<lambda>(m, pat, cur, stop). unat stop - unat cur)")
  fix m :: memory and pat :: "byte list" and cur stop :: addr
  assume "cur < stop \<and> read_bytes m cur (length pat) \<noteq> pat"
  then have lt: "unat cur < unat stop" by (simp add: word_less_nat_alt)
  then have "unat (cur + 1) = Suc (unat cur)" by (rule unat_Suc_below)
  then show "((m, pat, cur + 1, stop), m, pat, cur, stop) \<in> measure (\<lambda>(m, pat, cur, stop). unat stop - unat cur)"
    using lt by simp
qed simp

declare lookup_find.simps [simp del]

text \<open>
  The outer loop: \<open>i\<close> rounds done, \<open>changes\<close> replacements made. With \<open>count\<close> 0 there is no bound
  on the rounds, and after a replacement the position is not advanced.
\<close>

partial_function (option) lookup_loop :: "byte list \<Rightarrow> byte list \<Rightarrow> nat \<Rightarrow> addr \<Rightarrow> nat \<Rightarrow> addr \<Rightarrow> nat
    \<Rightarrow> machine \<Rightarrow> (nat \<times> machine) option" where
  "lookup_loop pat rep count stop i cur changes mc =
     (if cur < stop \<and> (i < count \<or> count = 0) then
        (let cur1 = lookup_find (mem mc) pat cur stop in
         if cur1 \<noteq> stop then
           store_bytes cur1 rep mc \<bind> (\<lambda>mc1. lookup_loop pat rep count stop (Suc i) cur1 (Suc changes) mc1)
         else lookup_loop pat rep count stop (Suc i) cur1 changes mc)
      else Some (changes, mc))"

declare lookup_loop.simps [code]

text \<open>The first address searched and the end of the search, from the position of the image.\<close>

definition lookup_range :: "bool \<Rightarrow> addr \<Rightarrow> u64 \<Rightarrow> nat \<Rightarrow> addr \<Rightarrow> u64 \<Rightarrow> addr \<times> addr" where
  "lookup_range isKext kextAddress kextSize0 psize startingAddress maxSize =
     (let kextSize = (if isKext then kextSize0 else - 1 - kextAddress);
          cur = (if kextAddress < startingAddress then startingAddress else kextAddress);
          end0 = kextAddress + kextSize;
          end1 = (if maxSize > 0 \<and> end0 > startingAddress + maxSize then startingAddress + maxSize else end0)
      in (cur, end1 - of_nat psize))"

definition applyLookupPatch :: "lookup_patch option \<Rightarrow> addr \<Rightarrow> u64 \<Rightarrow> 'z patcher_scheme \<Rightarrow> 'z patcher_scheme option" where
  "applyLookupPatch patch startingAddress maxSize st =
     (case patch of
        None \<Rightarrow> Some (setError MemoryIssue st)
      | Some p \<Rightarrow>
         (let idx = (case lp_kext p of Some k \<Rightarrow> ki_loadIndex (kexts st k) | None \<Rightarrow> KernelID) in
          if lp_kext p \<noteq> None \<and> idx = KextInfo_Unloaded then Some (setError MemoryIssue st)
          else do {
            info \<leftarrow> kinfo idx st;
            let (kextAddress, kextSize) = getRunningPosition info;
            let (cur, stop) = lookup_range (lp_kext p \<noteq> None) kextAddress kextSize (lp_size p) startingAddress maxSize;
            (r, st1) \<leftarrow> kw_on st;
            if r \<noteq> KERN_SUCCESS then Some (setError MemoryProtection st1)
            else do {
              (changes, mc) \<leftarrow> lookup_loop (take (lp_size p) (lp_find p)) (take (lp_size p) (lp_replace p))
                                 (lp_count p) stop 0 cur 0 (mach st1);
              (r2, st2) \<leftarrow> kw_off (st1\<lparr>mach := mc\<rparr>);
              if r2 \<noteq> KERN_SUCCESS then Some (setError MemoryProtection st2)
              else Some (if changes \<noteq> lp_count p then setError MemoryIssue st2 else st2)
            }
          }))"

section \<open>Masked patterns\<close>

definition matches_at :: "memory \<Rightarrow> addr \<Rightarrow> byte list \<Rightarrow> byte list option \<Rightarrow> nat \<Rightarrow> bool" where
  "matches_at m d pat msk off =
     (let bs = read_bytes m (d + of_nat off) (length pat) in
      case msk of None \<Rightarrow> bs = pat | Some mk \<Rightarrow> map2 (AND) bs mk = pat)"

text \<open>The scan of \<open>findPattern\<close>: at most \<open>n\<close> offsets from \<open>off\<close> on.\<close>

primrec pattern_scan :: "memory \<Rightarrow> addr \<Rightarrow> byte list \<Rightarrow> byte list option \<Rightarrow> nat \<Rightarrow> nat \<Rightarrow> nat option" where
  "pattern_scan m d pat msk 0 off = None"
| "pattern_scan m d pat msk (Suc n) off =
     (if matches_at m d pat msk off then Some off else pattern_scan m d pat msk n (Suc off))"

definition findPattern :: "memory \<Rightarrow> byte list \<Rightarrow> byte list option \<Rightarrow> addr \<Rightarrow> nat \<Rightarrow> nat \<Rightarrow> nat option" where
  "findPattern m pat msk d dataSize dataOffset =
     (if pat = [] \<or> dataSize < length pat then None
      else pattern_scan m d pat msk (Suc (dataSize - length pat) - dataOffset) dataOffset)"

text \<open>The bytes a replacement writes over \<open>old\<close>.\<close>

definition replace_bytes :: "byte list \<Rightarrow> byte list \<Rightarrow> byte list option \<Rightarrow> byte list option" where
  "replace_bytes old rep rmask =
     (case rmask of
        None \<Rightarrow> Some rep
      | Some mk \<Rightarrow>
          if length rep < length old \<or> length mk < length old then None
          else Some (map (\<lambda>i. (old ! i AND NOT (mk ! i)) OR (rep ! i AND mk ! i)) [0..<length old]))"

text \<open>
  The loop. \<open>rsize\<close> is \<open>replaceSize\<close>, by which the offset moves on after a replacement; it never
  ends when that is 0 and the pattern stays.
\<close>

partial_function (option) replace_loop :: "addr \<Rightarrow> nat \<Rightarrow> byte list \<Rightarrow> byte list option \<Rightarrow> byte list
    \<Rightarrow> byte list option \<Rightarrow> nat \<Rightarrow> nat \<Rightarrow> nat \<Rightarrow> nat \<Rightarrow> machine \<Rightarrow> (bool \<times> machine) option" where
  "replace_loop d dataSize pat msk rep rmask count skip replCount off mc =
     (case findPattern (mem mc) pat msk d dataSize off of
        None \<Rightarrow> Some (replCount > 0, mc)
      | Some pos \<Rightarrow>
          if skip > 0 then replace_loop d dataSize pat msk rep rmask count (skip - 1) replCount (pos + length pat) mc
          else
            writing_on mc \<bind> (\<lambda>(r, mc1).
              if r \<noteq> KERN_SUCCESS then Some (False, mc1)
              else
                replace_bytes (read_bytes (mem mc1) (d + of_nat pos) (length pat)) rep rmask \<bind> (\<lambda>bs.
                store_bytes (d + of_nat pos) bs mc1 \<bind> (\<lambda>mc2.
                writing_off mc2 \<bind> (\<lambda>(_, mc3).
                  if count = 1 then Some (True, mc3)
                  else replace_loop d dataSize pat msk rep rmask (count - 1) 0 (Suc replCount)
                         (pos + length rep) mc3)))))"

declare replace_loop.simps [code]

definition findAndReplaceWithMask :: "addr \<Rightarrow> nat \<Rightarrow> byte list \<Rightarrow> byte list option \<Rightarrow> byte list \<Rightarrow> byte list option
    \<Rightarrow> nat \<Rightarrow> nat \<Rightarrow> machine \<Rightarrow> (bool \<times> machine) option" where
  "findAndReplaceWithMask d dataSize pat msk rep rmask count skip mc =
     (if dataSize < length pat then Some (False, mc)
      else replace_loop d dataSize pat msk rep rmask count skip 0 0 mc)"

definition findAndReplace :: "addr \<Rightarrow> nat \<Rightarrow> byte list \<Rightarrow> byte list \<Rightarrow> machine \<Rightarrow> (bool \<times> machine) option" where
  "findAndReplace d dataSize pat rep mc = findAndReplaceWithMask d dataSize pat None rep None 0 0 mc"

section \<open>Finding a match\<close>

lemma lookup_find_stop: "\<not> cur < stop \<Longrightarrow> lookup_find m pat cur stop = cur"
  by (subst lookup_find.simps) simp

text \<open>The scan stops at the first match below \<open>stop\<close>, or at \<open>stop\<close>.\<close>

lemma lookup_find_spec:
  "cur \<le> stop \<Longrightarrow>
     cur \<le> lookup_find m pat cur stop \<and> lookup_find m pat cur stop \<le> stop \<and>
     (lookup_find m pat cur stop < stop \<longrightarrow>
        read_bytes m (lookup_find m pat cur stop) (length pat) = pat) \<and>
     (\<forall>a. cur \<le> a \<and> a < lookup_find m pat cur stop \<longrightarrow> read_bytes m a (length pat) \<noteq> pat)"
proof (induction m pat cur stop rule: lookup_find.induct)
  case (1 m pat cur stop)
  show ?case
  proof (cases "cur < stop \<and> read_bytes m cur (length pat) \<noteq> pat")
    case True
    then have lt: "cur < stop" by simp
    have eq: "lookup_find m pat cur stop = lookup_find m pat (cur + 1) stop"
      using True by (subst lookup_find.simps) simp
    note IH = 1(1) [OF True word_inc(2) [OF lt]]
    have "cur \<le> lookup_find m pat (cur + 1) stop" 
      using order_trans [OF less_imp_le [OF word_inc(1) [OF lt]]] IH by blast
    moreover have "read_bytes m a (length pat) \<noteq> pat"
      if "cur \<le> a" and "a < lookup_find m pat (cur + 1) stop" for a
      using that IH True word_inc(3) [OF lt, of a] by (cases "a = cur") auto
    ultimately show ?thesis using IH unfolding eq by blast
  next
    case False
    then have "lookup_find m pat cur stop = cur" by (subst lookup_find.simps) auto
    then show ?thesis using 1(2) False by auto
  qed
qed

lemma lookup_find_hit:
  assumes "cur \<le> a" and "a < stop" and "read_bytes m a (length pat) = pat"
    and "\<And>b. cur \<le> b \<Longrightarrow> b < a \<Longrightarrow> read_bytes m b (length pat) \<noteq> pat"
  shows "lookup_find m pat cur stop = a"
proof -
  let ?r = "lookup_find m pat cur stop"
  have "cur \<le> stop" using assms(1,2) by (meson le_less_trans less_imp_le)
  note spec = lookup_find_spec [OF this, of m pat]
  have "\<not> a < ?r" using spec assms(1,3) by blast
  moreover have "\<not> ?r < a"
  proof
    assume "?r < a"
    then show False using assms(4) [of ?r] spec less_trans [OF \<open>?r < a\<close> assms(2)] by blast
  qed
  ultimately show ?thesis by (simp add: not_less)
qed

lemma lookup_find_miss:
  assumes "cur \<le> stop" and "\<And>b. cur \<le> b \<Longrightarrow> b < stop \<Longrightarrow> read_bytes m b (length pat) \<noteq> pat"
  shows "lookup_find m pat cur stop = stop"
  using lookup_find_spec [OF assms(1), of m pat] assms(2) by (metis order.not_eq_order_implies_strict)


section \<open>What a lookup patch does to memory\<close>

text \<open>
  The specification: \<open>ps\<close> are the places replaced, each the first match from the place before it on,
  in the memory as the replacements so far left it.
\<close>

inductive replaced :: "byte list \<Rightarrow> byte list \<Rightarrow> addr \<Rightarrow> addr \<Rightarrow> memory \<Rightarrow> addr list \<Rightarrow> memory \<Rightarrow> bool"
  for pat rep stop where
  stays: "replaced pat rep stop cur m [] m"
| moves: "cur \<le> p \<Longrightarrow> p < stop \<Longrightarrow> read_bytes m p (length pat) = pat \<Longrightarrow>
    (\<And>b. cur \<le> b \<Longrightarrow> b < p \<Longrightarrow> read_bytes m b (length pat) \<noteq> pat) \<Longrightarrow>
    replaced pat rep stop p (write_bytes m p rep) ps m' \<Longrightarrow>
    replaced pat rep stop cur m (p # ps) m'"

inductive_cases replaced_NilE: "replaced pat rep stop cur m [] m'"
inductive_cases replaced_ConsE: "replaced pat rep stop cur m (p # ps) m'"

lemma replaced_places:
  "replaced pat rep stop cur m ps m' \<Longrightarrow> sorted ps \<and> (\<forall>p\<in>set ps. cur \<le> p \<and> p < stop)"
  by (induction rule: replaced.induct) (auto intro: order_trans)

lemma replaced_frame:
  "replaced pat rep stop cur m ps m' \<Longrightarrow> length rep \<le> 2 ^ 64 \<Longrightarrow>
     \<forall>p\<in>set ps. \<not> in_range p (length rep) x \<Longrightarrow> m' x = m x"
  by (induction rule: replaced.induct) (auto simp: write_bytes_outside in_range_def)

text \<open>A replacement that is not itself a match is made at a place once.\<close>

lemma replaced_distinct:
  "replaced pat rep stop cur m ps m' \<Longrightarrow> length rep = length pat \<Longrightarrow> length pat \<le> 2 ^ 64 \<Longrightarrow>
     rep \<noteq> pat \<Longrightarrow> sorted_wrt (<) ps \<and> (read_bytes m cur (length pat) \<noteq> pat \<longrightarrow> cur \<notin> set ps)"
proof (induction rule: replaced.induct)
  case (moves cur p m ps m')
  have "read_bytes (write_bytes m p rep) p (length pat) = rep"
    using read_write_bytes [of rep m p] moves.prems by simp
  then have *: "sorted_wrt (<) ps \<and> p \<notin> set ps" using moves by metis
  moreover have "\<forall>q\<in>set ps. p \<le> q" using replaced_places [OF moves.hyps(5)] by blast
  ultimately have "\<forall>q\<in>set ps. p < q" by (metis order.not_eq_order_implies_strict)
  then show ?case using * moves.hyps(1,3) by (auto simp: leD)
qed simp

text \<open>Inside the window and with a count, the loop ends and implements the specification.\<close>

lemma lookup_loop_stop:
  "\<not> cur < stop \<or> \<not> i < count \<and> count \<noteq> 0 \<Longrightarrow> lookup_loop pat rep count stop i cur changes mc = Some (changes, mc)"
  by (subst lookup_loop.simps) auto

lemma lookup_loop_replaced:
  assumes "opened_from m0 mc" and "0 < count" and "i \<le> count"
  shows "\<exists>ps mc'. lookup_loop pat rep count stop i cur changes mc = Some (changes + length ps, mc') \<and>
     opened_from m0 mc' \<and> replaced pat rep stop cur (mem mc) ps (mem mc') \<and> length ps \<le> count - i \<and>
     (length ps < count - i \<longrightarrow>
        (\<forall>a. last (cur # ps) \<le> a \<and> a < stop \<longrightarrow> read_bytes (mem mc') a (length pat) \<noteq> pat))"
  using assms
proof (induction "count - i" arbitrary: i cur changes mc)
  case 0
  then show ?case by (intro exI [of _ "[]"] exI [of _ mc]) (auto simp: lookup_loop_stop intro: stays)
next
  case (Suc n)
  let ?c = "lookup_find (mem mc) pat cur stop"
  show ?case
  proof (cases "cur < stop")
    case False
    then show ?thesis using Suc.prems
      by (intro exI [of _ "[]"] exI [of _ mc]) (auto simp: lookup_loop_stop intro: stays)
  next
    case True
    have ic: "i < count" using Suc.hyps(2) by simp
    have spec: "cur \<le> ?c \<and> ?c \<le> stop \<and> (?c < stop \<longrightarrow> read_bytes (mem mc) ?c (length pat) = pat) \<and>
       (\<forall>a. cur \<le> a \<and> a < ?c \<longrightarrow> read_bytes (mem mc) a (length pat) \<noteq> pat)"
      using lookup_find_spec [OF less_imp_le [OF True]] .
    show ?thesis
    proof (cases "?c = stop")
      case miss: True
      have "lookup_loop pat rep count stop i cur changes mc = Some (changes, mc)"
        using True ic miss by (subst lookup_loop.simps) (simp add: lookup_loop_stop)
      then show ?thesis using spec miss Suc.prems
        by (intro exI [of _ "[]"] exI [of _ mc]) (auto intro: stays)
    next
      case hit: False
      obtain mc1 where mc1: "store_bytes ?c rep mc = Some mc1" "opened_from m0 mc1"
        "mem mc1 = write_bytes (mem mc) ?c rep" using store_in_window [OF Suc.prems(1)] by metis
      have eq: "lookup_loop pat rep count stop i cur changes mc =
          lookup_loop pat rep count stop (Suc i) ?c (Suc changes) mc1"
        using True ic hit mc1(1) by (subst lookup_loop.simps) (simp add: Let_def)
      have "n = count - Suc i" using Suc.hyps(2) by simp
      from Suc.hyps(1) [OF this mc1(2) Suc.prems(2) Suc_leI [OF ic], of ?c "Suc changes"]
      obtain ps mc' where IH: "lookup_loop pat rep count stop (Suc i) ?c (Suc changes) mc1 =
          Some (Suc changes + length ps, mc')" "opened_from m0 mc'"
        "replaced pat rep stop ?c (mem mc1) ps (mem mc')" "length ps \<le> count - Suc i"
        "length ps < count - Suc i \<longrightarrow>
          (\<forall>a. last (?c # ps) \<le> a \<and> a < stop \<longrightarrow> read_bytes (mem mc') a (length pat) \<noteq> pat)" by blast
      have "?c < stop" using spec hit by (simp add: order.not_eq_order_implies_strict)
      then have "replaced pat rep stop cur (mem mc) (?c # ps) (mem mc')"
        using spec IH(3) mc1(3) by (intro moves) auto
      then show ?thesis using IH ic unfolding eq
        by (intro exI [of _ "?c # ps"] exI [of _ mc']) auto
    qed
  qed
qed

text \<open>The whole bracket of \<open>applyLookupPatch\<close> over an image whose range is \<open>cur\<close> to \<open>stop\<close>.\<close>

lemma applyLookupPatch_run:
  fixes p st
  defines "pat \<equiv> take (lp_size p) (lp_find p)" and "rep \<equiv> take (lp_size p) (lp_replace p)"
    and "idx \<equiv> (case lp_kext p of Some k \<Rightarrow> ki_loadIndex (kexts st k) | None \<Rightarrow> KernelID)"
  assumes "window_ready (mach st)" and "0 < lp_count p"
    and "lp_kext p = None \<or> idx \<noteq> KextInfo_Unloaded" and "kinfo idx st = Some info"
    and "getRunningPosition info = (base, sz)"
    and "lookup_range (lp_kext p \<noteq> None) base sz (lp_size p) start maxSize = (cur, stop)"
  shows "\<exists>ps mc. applyLookupPatch (Some p) start maxSize st =
       Some (st\<lparr>mach := mc, code := if length ps = lp_count p then code st else MemoryIssue\<rparr>) \<and>
     same_cpu (mach st) mc \<and> replaced pat rep stop cur (pmem st) ps (mem mc) \<and>
     length ps \<le> lp_count p \<and>
     (length ps < lp_count p \<longrightarrow>
        (\<forall>a. last (cur # ps) \<le> a \<and> a < stop \<longrightarrow> read_bytes (mem mc) a (length pat) \<noteq> pat))"
proof -
  obtain m1 where m1: "kw_on st = Some (KERN_SUCCESS, st\<lparr>mach := m1\<rparr>)" "opened_from (mach st) m1"
    "mem m1 = pmem st" using kw_on_ok [OF assms(4)] by blast
  obtain ps m2 where m2: "lookup_loop pat rep (lp_count p) stop 0 cur 0 m1 = Some (length ps, m2)"
    "opened_from (mach st) m2" "replaced pat rep stop cur (mem m1) ps (mem m2)" "length ps \<le> lp_count p"
    "length ps < lp_count p \<longrightarrow>
        (\<forall>a. last (cur # ps) \<le> a \<and> a < stop \<longrightarrow> read_bytes (mem m2) a (length pat) \<noteq> pat)"
    using lookup_loop_replaced [OF m1(2) assms(5), of 0 pat rep stop cur 0] by auto
  obtain m3 where m3: "kw_off (st\<lparr>mach := m2\<rparr>) = Some (KERN_SUCCESS, st\<lparr>mach := m3\<rparr>)"
    "same_cpu (mach st) m3" "mem m3 = mem m2"
    using kw_off_ok [of "mach st" "st\<lparr>mach := m2\<rparr>"] m2(2) assms(4) by auto
  have "applyLookupPatch (Some p) start maxSize st =
       Some (st\<lparr>mach := m3, code := if length ps = lp_count p then code st else MemoryIssue\<rparr>)"
    using m1(1) m2(1) m3(1) assms(6-9)
    by (auto simp: applyLookupPatch_def setError_def pat_def rep_def idx_def)
  then show ?thesis using m2 m1(3) m3 by (intro exI [of _ ps] exI [of _ m3]) simp
qed

text \<open>The places searched in an image lie inside it.\<close>

lemma lookup_range_kext:
  assumes "unat base + unat sz < 2 ^ 64" and "psize \<le> unat base"
    and "maxSize = 0 \<or> base \<le> start \<and> unat start + unat maxSize < 2 ^ 64"
    and "lookup_range True base sz psize start maxSize = (cur, stop)" and "cur \<le> p" and "p < stop"
    and "offset p x < psize"
  shows "in_range base (unat sz) x"
proof -
  have end0: "unat (base + sz) = unat base + unat sz" using assms(1) by (rule unat_plus_u64)
  have sp: "unat (of_nat psize :: u64) = psize" 
    using order_le_less_trans [OF assms(2) unat_u64_lt] by (simp add: unat_of_nat_u64)
  have cur: "base \<le> cur" using assms(4) by (auto simp: lookup_range_def Let_def split: if_splits)
  have sub: "unat (e - of_nat psize) = unat e - psize" if "unat base \<le> unat e" for e :: u64
    using that sp assms(2) by (simp add: unat_minus_u64)
  have "unat stop \<le> unat base + unat sz - psize"
  proof (cases "maxSize > 0 \<and> base + sz > start + maxSize")
    case True
    then have st: "unat (start + maxSize) = unat start + unat maxSize" "unat base \<le> unat start"
      using assms(3) by (auto simp: unat_plus_u64 word_le_nat_alt)
    have "stop = start + maxSize - of_nat psize" using assms(4) True by (auto simp: lookup_range_def Let_def)
    then have "unat stop = unat (start + maxSize) - psize" using sub st by simp
    then show ?thesis using True end0 by (simp add: word_less_nat_alt diff_le_mono)
  next
    case False
    then have "stop = base + sz - of_nat psize" using assms(4) by (auto simp: lookup_range_def Let_def)
    then show ?thesis using sub end0 by simp
  qed
  then have p: "unat base \<le> unat p" "unat p + psize < unat base + unat sz"
    using cur assms(5,6) by (auto simp: word_le_nat_alt word_less_nat_alt)
  have "offset base p = unat p - unat base" using p(1) by (simp add: offset_def unat_minus_u64)
  moreover from this have "offset base x = offset base p + offset p x"
    using p assms(1,7) by (intro offset_trans) simp
  ultimately show ?thesis using p assms(7) by (simp add: in_range_def)
qed

text \<open>With no count and a replacement equal to the pattern, the loop runs forever on the first match.\<close>

lemma lookup_loop_endless:
  assumes "cur \<le> a" and "a < stop" and "read_bytes (mem mc) a (length pat) = pat" and "length pat \<le> 2 ^ 64"
  shows "lookup_loop pat pat 0 stop i cur changes mc = None"
proof (rule ccontr)
  assume "lookup_loop pat pat 0 stop i cur changes mc \<noteq> None"
  then obtain r where "lookup_loop pat pat 0 stop i cur changes mc = Some r" by blast
  then have "\<forall>a. pat = pat \<and> (0::nat) = 0 \<and> cur \<le> a \<and> a < stop \<and> read_bytes (mem mc) a (length pat) = pat \<and>
     length pat \<le> 2 ^ 64 \<longrightarrow> False"
  proof (rule lookup_loop.raw_induct [of "\<lambda>pat rep count stop i cur changes mc r.
      \<forall>a. rep = pat \<and> count = 0 \<and> cur \<le> a \<and> a < stop \<and> read_bytes (mem mc) a (length pat) = pat \<and>
        length pat \<le> 2 ^ 64 \<longrightarrow> False", rotated], goal_cases)
    case (1 f pat rep count stop i cur changes mc y)
    show ?case
    proof (intro allI impI)
      fix a assume A: "rep = pat \<and> count = 0 \<and> cur \<le> a \<and> a < stop \<and>
        read_bytes (mem mc) a (length pat) = pat \<and> length pat \<le> 2 ^ 64"
      let ?c = "lookup_find (mem mc) pat cur stop"
      have cs: "cur < stop" using A by (meson le_less_trans)
      note spec = lookup_find_spec [OF less_imp_le [OF cs], of "mem mc" pat]
      have "\<not> a < ?c" using spec A by blast
      then have ca: "?c \<le> a" by (simp add: not_less)
      have c2: "?c < stop" using le_less_trans [OF ca] A by blast
      obtain mc1 where mc1: "store_bytes ?c rep mc = Some mc1" "f pat rep count stop (Suc i) ?c (Suc changes) mc1 = Some y"
        using 1(2) cs c2 [THEN less_imp_neq] A by (auto simp: Let_def bind_eq_Some_conv)
      have "mem mc1 = mem mc" using mc1(1) A spec c2 write_read_bytes_same [of "length pat" "mem mc" ?c]
        by (auto simp: store_bytes_def split: if_splits)
      then show False using 1(1) [OF mc1(2)] A ca by auto
    qed
  qed
  then show False using assms by blast
qed

section \<open>Masked patterns: what is found and replaced\<close>

lemma pattern_scan_iff:
  "pattern_scan m d pat msk n off = Some p \<longleftrightarrow>
     off \<le> p \<and> p < off + n \<and> matches_at m d pat msk p \<and> (\<forall>q. off \<le> q \<and> q < p \<longrightarrow> \<not> matches_at m d pat msk q)"
proof (induction n arbitrary: off)
  case (Suc n)
  show ?case
  proof (cases "matches_at m d pat msk off")
    case True
    then show ?thesis by (auto intro: le_antisym leI)
  next
    case False
    then have *: "(\<forall>q. off \<le> q \<and> q < p \<longrightarrow> \<not> matches_at m d pat msk q) \<longleftrightarrow>
      (\<forall>q. Suc off \<le> q \<and> q < p \<longrightarrow> \<not> matches_at m d pat msk q)"
      by (metis Suc_leD Suc_leI le_neq_implies_less)
    have "off \<le> p \<and> matches_at m d pat msk p \<longleftrightarrow> Suc off \<le> p \<and> matches_at m d pat msk p"
      using False by (metis Suc_leD Suc_leI le_neq_implies_less)
    then show ?thesis using False Suc unfolding * by auto
  qed
qed auto

lemma findPattern_iff:
  "findPattern m pat msk d sz off = Some p \<longleftrightarrow>
     pat \<noteq> [] \<and> off \<le> p \<and> p + length pat \<le> sz \<and> matches_at m d pat msk p \<and>
     (\<forall>q. off \<le> q \<and> q < p \<longrightarrow> \<not> matches_at m d pat msk q)"
proof -
  have "p < off + (Suc (sz - length pat) - off) \<longleftrightarrow> p + length pat \<le> sz"
    if "length pat \<le> sz" "off \<le> p" using that by auto
  then show ?thesis by (auto simp: findPattern_def pattern_scan_iff)
qed

lemma findPattern_None_iff:
  "findPattern m pat msk d sz off = None \<longleftrightarrow>
     pat = [] \<or> (\<forall>p. off \<le> p \<and> p + length pat \<le> sz \<longrightarrow> \<not> matches_at m d pat msk p)"
proof (cases "\<exists>p. off \<le> p \<and> p + length pat \<le> sz \<and> matches_at m d pat msk p")
  case True
  let ?P = "\<lambda>p. off \<le> p \<and> p + length pat \<le> sz \<and> matches_at m d pat msk p"
  have least: "?P (LEAST p. ?P p)" using True by (rule LeastI_ex)
  have "\<not> matches_at m d pat msk q" if "off \<le> q" "q < (LEAST p. ?P p)" for q
    using not_less_Least [OF that(2)] that least by auto
  then have "pat \<noteq> [] \<Longrightarrow> findPattern m pat msk d sz off = Some (LEAST p. ?P p)"
    using least by (simp add: findPattern_iff)
  then show ?thesis using True by (cases "pat = []") (auto simp: findPattern_def)
next
  case False
  then have "findPattern m pat msk d sz off \<noteq> Some p" for p by (auto simp: findPattern_iff)
  then show ?thesis using False by auto
qed

text \<open>
  The specification of a sweep: from \<open>off\<close> on, each match is edited and the search goes on behind
  the bytes it wrote.
\<close>

definition edit_at :: "addr \<Rightarrow> byte list \<Rightarrow> byte list \<Rightarrow> byte list option \<Rightarrow> memory \<Rightarrow> nat \<Rightarrow> memory" where
  "edit_at d pat rep rmask m p =
     write_bytes m (d + of_nat p)
       (case rmask of None \<Rightarrow> rep
        | Some mk \<Rightarrow> map (\<lambda>i. (m (d + of_nat p + of_nat i) AND NOT (mk ! i)) OR (rep ! i AND mk ! i)) [0..<length pat])"

inductive swept :: "addr \<Rightarrow> nat \<Rightarrow> byte list \<Rightarrow> byte list option \<Rightarrow> byte list \<Rightarrow> byte list option \<Rightarrow> nat \<Rightarrow> memory
    \<Rightarrow> nat list \<Rightarrow> nat \<Rightarrow> memory \<Rightarrow> bool"
  for d sz pat msk rep rmask where
  swept_none: "swept d sz pat msk rep rmask off m [] off m"
| swept_some: "findPattern m pat msk d sz off = Some p \<Longrightarrow>
    swept d sz pat msk rep rmask (p + length rep) (edit_at d pat rep rmask m p) ps off' m' \<Longrightarrow>
    swept d sz pat msk rep rmask off m (p # ps) off' m'"

definition masks_fit :: "byte list \<Rightarrow> byte list \<Rightarrow> byte list option \<Rightarrow> bool" where
  "masks_fit pat rep rmask \<longleftrightarrow> rep \<noteq> [] \<and>
     (case rmask of None \<Rightarrow> True | Some mk \<Rightarrow> length pat \<le> length rep \<and> length pat \<le> length mk)"

lemma replace_step:
  assumes "window_ready mc" and "masks_fit pat rep rmask"
  shows "\<exists>mc1 mc2 mc3 bs. writing_on mc = Some (KERN_SUCCESS, mc1) \<and>
     replace_bytes (read_bytes (mem mc1) (d + of_nat p) (length pat)) rep rmask = Some bs \<and>
     store_bytes (d + of_nat p) bs mc1 = Some mc2 \<and> writing_off mc2 = Some (KERN_SUCCESS, mc3) \<and>
     window_ready mc3 \<and> same_cpu mc mc3 \<and> mem mc3 = edit_at d pat rep rmask (mem mc) p"
proof -
  obtain mc1 where mc1: "writing_on mc = Some (KERN_SUCCESS, mc1)" "opened_from mc mc1" "mem mc1 = mem mc"
    using kw.opens [OF assms(1)] by blast
  obtain bs where bs: "replace_bytes (read_bytes (mem mc1) (d + of_nat p) (length pat)) rep rmask = Some bs"
    using assms(2) by (auto simp: replace_bytes_def masks_fit_def not_less split: option.splits)
  obtain mc2 where mc2: "store_bytes (d + of_nat p) bs mc1 = Some mc2" "opened_from mc mc2"
    "mem mc2 = write_bytes (mem mc1) (d + of_nat p) bs" using kw.puts [OF mc1(2)] by blast
  obtain mc3 where mc3: "writing_off mc2 = Some (KERN_SUCCESS, mc3)" "same_cpu mc mc3" "mem mc3 = mem mc2"
    using kw.closes [OF mc2(2) assms(1)] by blast
  have "mem mc3 = edit_at d pat rep rmask (mem mc) p"
    using bs mc1(3) mc2(3) mc3(3)
    by (auto simp: replace_bytes_def edit_at_def nth_read_bytes split: option.splits if_splits
          intro!: arg_cong [where f = "write_bytes (mem mc) (d + of_nat p)"])
  then show ?thesis using mc1 bs mc2 mc3 kw.settles [OF mc3(2) assms(1)] by blast
qed

lemma replace_loop_swept:
  assumes "masks_fit pat rep rmask" and "window_ready mc"
  shows "\<exists>ps off' mc'. replace_loop d sz pat msk rep rmask count 0 k off mc = Some (0 < k + length ps, mc') \<and>
     window_ready mc' \<and> same_cpu mc mc' \<and> swept d sz pat msk rep rmask off (mem mc) ps off' (mem mc') \<and>
     (0 < count \<longrightarrow> length ps \<le> count) \<and>
     (count = 0 \<or> length ps < count \<longrightarrow> findPattern (mem mc') pat msk d sz off' = None)"
  using assms(2)
proof (induction "Suc sz - off" arbitrary: off count k mc rule: less_induct)
  case less
  show ?case
  proof (cases "findPattern (mem mc) pat msk d sz off")
    case None
    then show ?thesis using less.prems by (subst replace_loop.simps) (force intro: swept_none)
  next
    case (Some p)
    obtain mc1 mc2 mc3 bs where st: "writing_on mc = Some (KERN_SUCCESS, mc1)"
      "replace_bytes (read_bytes (mem mc1) (d + of_nat p) (length pat)) rep rmask = Some bs"
      "store_bytes (d + of_nat p) bs mc1 = Some mc2" "writing_off mc2 = Some (KERN_SUCCESS, mc3)"
      "window_ready mc3" "same_cpu mc mc3" "mem mc3 = edit_at d pat rep rmask (mem mc) p"
      using replace_step [OF less.prems assms(1), of d p] by blast
    have eq: "replace_loop d sz pat msk rep rmask count 0 k off mc =
        (if count = 1 then Some (True, mc3)
         else replace_loop d sz pat msk rep rmask (count - 1) 0 (Suc k) (p + length rep) mc3)"
      using Some st by (subst replace_loop.simps) simp
    show ?thesis
    proof (cases "count = 1")
      case True
      have "swept d sz pat msk rep rmask off (mem mc) [p] (p + length rep) (mem mc3)"
        unfolding st(7) by (intro swept_some [OF Some] swept_none)
      then show ?thesis using True st unfolding eq by (intro exI [of _ "[p]"]) auto
    next
      case False
      have "off \<le> p" "p + length pat \<le> sz" "0 < length pat" "0 < length rep"
        using Some assms(1) by (auto simp: findPattern_iff masks_fit_def)
      then have "Suc sz - (p + length rep) < Suc sz - off" by linarith
      from less.hyps [OF this st(5), of "count - 1" "Suc k"] obtain ps off' mc' where IH:
        "replace_loop d sz pat msk rep rmask (count - 1) 0 (Suc k) (p + length rep) mc3 = Some (0 < Suc k + length ps, mc')"
        "window_ready mc'" "same_cpu mc3 mc'"
        "swept d sz pat msk rep rmask (p + length rep) (mem mc3) ps off' (mem mc')"
        "0 < count - 1 \<longrightarrow> length ps \<le> count - 1"
        "count - 1 = 0 \<or> length ps < count - 1 \<longrightarrow> findPattern (mem mc') pat msk d sz off' = None"
        by (elim exE conjE) (rule that)
      have "swept d sz pat msk rep rmask off (mem mc) (p # ps) off' (mem mc')"
        using IH(4) swept_some [OF Some] unfolding st(7) by blast
      then show ?thesis using False IH same_cpu_trans [OF st(6) IH(3)] unfolding eq
        by (intro exI [of _ "p # ps"] exI [of _ off'] exI [of _ mc']) auto
    qed
  qed
qed

text \<open>Where a sweep starts after \<open>n\<close> matches that are passed over, if there are so many.\<close>

primrec skip_matches :: "memory \<Rightarrow> byte list \<Rightarrow> byte list option \<Rightarrow> addr \<Rightarrow> nat \<Rightarrow> nat \<Rightarrow> nat \<Rightarrow> nat option" where
  "skip_matches m pat msk d sz 0 off = Some off"
| "skip_matches m pat msk d sz (Suc n) off =
     (case findPattern m pat msk d sz off of None \<Rightarrow> None | Some p \<Rightarrow> skip_matches m pat msk d sz n (p + length pat))"

text \<open>What \<open>findAndReplaceWithMask\<close> is meant to do: pass over \<open>skip\<close> matches and edit up to \<open>count\<close> of those that follow.\<close>

definition masked_sweep :: "addr \<Rightarrow> nat \<Rightarrow> byte list \<Rightarrow> byte list option \<Rightarrow> byte list \<Rightarrow> byte list option \<Rightarrow> nat \<Rightarrow> nat \<Rightarrow> nat
    \<Rightarrow> memory \<Rightarrow> nat list \<Rightarrow> memory \<Rightarrow> bool" where
  "masked_sweep d sz pat msk rep rmask count skip off m ps m' =
     (case skip_matches m pat msk d sz skip off of
        None \<Rightarrow> ps = [] \<and> m' = m
      | Some off0 \<Rightarrow> \<exists>off'. swept d sz pat msk rep rmask off0 m ps off' m' \<and> (0 < count \<longrightarrow> length ps \<le> count) \<and>
          (count = 0 \<or> length ps < count \<longrightarrow> findPattern m' pat msk d sz off' = None))"

lemma replace_loop_sweeps:
  assumes "masks_fit pat rep rmask" and "window_ready mc"
  shows "\<exists>ps mc'. replace_loop d sz pat msk rep rmask count skip 0 off mc = Some (ps \<noteq> [], mc') \<and> same_cpu mc mc' \<and>
     masked_sweep d sz pat msk rep rmask count skip off (mem mc) ps (mem mc')"
proof (induction skip arbitrary: off)
  case 0
  obtain ps off' mc' where "replace_loop d sz pat msk rep rmask count 0 0 off mc = Some (0 < 0 + length ps, mc')"
    "same_cpu mc mc'" "swept d sz pat msk rep rmask off (mem mc) ps off' (mem mc')" "0 < count \<longrightarrow> length ps \<le> count"
    "count = 0 \<or> length ps < count \<longrightarrow> findPattern (mem mc') pat msk d sz off' = None"
    using replace_loop_swept [OF assms, of d sz msk count 0 off] by (elim exE conjE) (rule that)
  then show ?case by (intro exI [of _ ps] exI [of _ mc']) (auto simp: masked_sweep_def)
next
  case (Suc n)
  show ?case
  proof (cases "findPattern (mem mc) pat msk d sz off")
    case None
    then show ?thesis using same_cpu_refl by (subst replace_loop.simps) (auto simp: masked_sweep_def)
  next
    case (Some q)
    then show ?thesis using Suc [of "q + length pat"] by (subst replace_loop.simps) (simp add: masked_sweep_def)
  qed
qed

text \<open>A sweep stays inside the buffer, but for what the replacement is longer than the pattern.\<close>

lemma swept_frame:
  "swept d sz pat msk rep rmask off m ps off' m' \<Longrightarrow> sz + (length rep - length pat) \<le> 2 ^ 64 \<Longrightarrow>
     \<not> in_range d (sz + (length rep - length pat)) x \<Longrightarrow> m' x = m x"
proof (induction rule: swept.induct)
  case (swept_some m off p ps off' m')
  let ?e = "length rep - length pat"
  have p: "p + length pat \<le> sz" using swept_some.hyps(1) by (simp add: findPattern_iff)
  have "edit_at d pat rep rmask m p x = m x"
  proof -
    have "n \<le> offset (d + of_nat p) x" if "n \<le> length pat + ?e" for n
    proof (rule ccontr)
      assume "\<not> n \<le> offset (d + of_nat p) x"
      then have lt: "p + offset (d + of_nat p) x < sz + ?e" using that p by simp
      then have "offset d (d + of_nat p) = p" using swept_some.prems(1) by (intro offset_add_nat) simp
      then have "offset d x = p + offset (d + of_nat p) x"
        using offset_trans [of d "d + of_nat p" x] lt swept_some.prems(1) by simp
      then show False using lt swept_some.prems(2) by (simp add: in_range_def)
    qed
    from this [of "length rep"] this [of "length pat"] show ?thesis using p swept_some.prems
      by (auto simp: edit_at_def write_bytes_outside split: option.split)
  qed
  then show ?case using swept_some by simp
qed simp

section \<open>Properties of lookup patches\<close>

text \<open>The concrete image of the instances: a conditional jump at offset 16 of a loaded kext.\<close>

definition jz_memory :: memory where
  "jz_memory = write_bytes (\<lambda>_. 0) 0x200010 [0x0F, 0x84]"

definition jz_patcher :: patcher where
  "jz_patcher = bare_patcher jz_memory [image_info ''kernel'' 0x100000 64, image_info ''kext'' 0x200000 32]
     (\<lambda>_. kext_at ''kext'' 1)"

definition jz_patch :: lookup_patch where
  "jz_patch = \<lparr>lp_kext = Some 0, lp_find = [0x0F, 0x84], lp_replace = [0x90, 0xE9], lp_size = 2, lp_count = 1\<rparr>"

lemmas jz_simps = jz_patcher_def jz_patch_def bare_simps lookup_range_def

text \<open>
  C4. On a loaded kext, a lookup patch with a count always returns. It replaces first matches, one
  after the other, as the specification \<open>replaced\<close> says, at most \<open>count\<close> of them, and fewer only
  when no match is left; it reports \<open>MemoryIssue\<close> exactly when it made fewer replacements than
  wanted, and leaves the processor as it found it.
\<close>

theorem applyLookupPatch_replaces:
  assumes "window_ready (mach st)" and "0 < lp_count p" and "lp_kext p = Some k"
    and "ki_loadIndex (kexts st k) \<noteq> KextInfo_Unloaded" and "kinfo (ki_loadIndex (kexts st k)) st = Some info"
    and "getRunningPosition info = (base, sz)"
    and "lookup_range True base sz (lp_size p) start maxSize = (cur, stop)"
  shows "\<exists>ps mc. applyLookupPatch (Some p) start maxSize st =
       Some (st\<lparr>mach := mc, code := if length ps = lp_count p then code st else MemoryIssue\<rparr>) \<and>
     same_cpu (mach st) mc \<and>
     replaced (take (lp_size p) (lp_find p)) (take (lp_size p) (lp_replace p)) stop cur (pmem st) ps (mem mc) \<and>
     length ps \<le> lp_count p \<and>
     (length ps < lp_count p \<longrightarrow> (\<forall>a. last (cur # ps) \<le> a \<and> a < stop \<longrightarrow>
        read_bytes (mem mc) a (length (take (lp_size p) (lp_find p))) \<noteq> take (lp_size p) (lp_find p)))"
  using applyLookupPatch_run [of st p info base sz start maxSize cur stop] assms by simp

theorem applyLookupPatch_replaces_witness:
  "\<exists>ps mc. applyLookupPatch (Some jz_patch) 0 0 jz_patcher =
       Some (jz_patcher\<lparr>mach := mc, code := if length ps = 1 then NoError else MemoryIssue\<rparr>) \<and>
     same_cpu (mach jz_patcher) mc \<and>
     replaced [0x0F, 0x84] [0x90, 0xE9] 0x20001E 0x200000 jz_memory ps (mem mc)"
  using applyLookupPatch_replaces [of jz_patcher jz_patch 0 "image_info ''kext'' 0x200000 32" "0x200000" 32 0 0 "0x200000" "0x20001E"]
  by (auto simp: jz_simps)

text \<open>
  C5. A lookup patch on a kext never changes a byte outside the kext's image, whatever the image
  holds, when the image does not wrap around the address space.
\<close>

theorem applyLookupPatch_in_image:
  assumes "window_ready (mach st)" and "0 < lp_count p" and "lp_kext p = Some k"
    and "ki_loadIndex (kexts st k) \<noteq> KextInfo_Unloaded" and "kinfo (ki_loadIndex (kexts st k)) st = Some info"
    and "getRunningPosition info = (base, sz)" and "unat base + unat sz < 2 ^ 64" and "lp_size p \<le> unat base"
    and "maxSize = 0 \<or> base \<le> start \<and> unat start + unat maxSize < 2 ^ 64"
    and "applyLookupPatch (Some p) start maxSize st = Some st'" and "\<not> in_range base (unat sz) x"
  shows "pmem st' x = pmem st x"
proof -
  obtain cur stop where r: "lookup_range True base sz (lp_size p) start maxSize = (cur, stop)" by fastforce
  let ?rep = "take (lp_size p) (lp_replace p)"
  obtain ps where ps: "replaced (take (lp_size p) (lp_find p)) ?rep stop cur (pmem st) ps (pmem st')"
    using applyLookupPatch_run [of st p info base sz start maxSize cur stop] assms(1-6,10) r by auto
  have "\<not> in_range q (length ?rep) x" if "q \<in> set ps" for q
  proof
    assume "in_range q (length ?rep) x"
    then have "offset q x < lp_size p" by (simp add: in_range_def)
    moreover have "cur \<le> q" "q < stop" using replaced_places [OF ps] that by auto
    ultimately show False using lookup_range_kext [OF assms(7-9) r] assms(11) by blast
  qed
  moreover have "length ?rep \<le> 2 ^ 64" using order_le_less_trans [OF assms(8) unat_u64_lt] by simp
  ultimately show ?thesis using replaced_frame [OF ps] by blast
qed

theorem applyLookupPatch_in_image_witness:
  "pmem (the (applyLookupPatch (Some jz_patch) 0 0 jz_patcher)) 0x200020 = 0"
proof -
  obtain st' where st': "applyLookupPatch (Some jz_patch) 0 0 jz_patcher = Some st'"
    using applyLookupPatch_run [of jz_patcher jz_patch "image_info ''kext'' 0x200000 32" "0x200000" 32 0 0 "0x200000" "0x20001E"]
    by (auto simp: jz_simps)
  have "pmem st' 0x200020 = pmem jz_patcher 0x200020"
    by (rule applyLookupPatch_in_image [of jz_patcher jz_patch 0 "image_info ''kext'' 0x200000 32" "0x200000" 32 0 0])
      (use st' in \<open>auto simp: jz_simps in_range_def offset_def\<close>)
  then show ?thesis using st' by (simp add: jz_patcher_def bare_patcher_def jz_memory_def)
qed

text \<open>
  C16. The search ends before the last place at which the pattern still fits: a kext whose only
  match is at its very end is left as it was, and the patch reports \<open>MemoryIssue\<close>.
\<close>

theorem applyLookupPatch_last_place_missed:
  assumes "window_ready (mach st)" and "0 < lp_count p" and "lp_kext p = Some k"
    and "ki_loadIndex (kexts st k) \<noteq> KextInfo_Unloaded" and "kinfo (ki_loadIndex (kexts st k)) st = Some info"
    and "getRunningPosition info = (base, sz)"
    and "\<And>a. base \<le> a \<Longrightarrow> a < base + sz - of_nat (lp_size p) \<Longrightarrow>
           read_bytes (pmem st) a (lp_size p) \<noteq> lp_find p"
    and "length (lp_find p) = lp_size p"
  shows "\<exists>st'. applyLookupPatch (Some p) 0 0 st = Some st' \<and> pmem st' = pmem st \<and> getError st' = MemoryIssue"
proof -
  let ?stop = "base + sz - of_nat (lp_size p)"
  have "lookup_range True base sz (lp_size p) 0 0 = (base, ?stop)"
    by (auto simp: lookup_range_def Let_def)
  then obtain ps mc where r: "applyLookupPatch (Some p) 0 0 st =
       Some (st\<lparr>mach := mc, code := if length ps = lp_count p then code st else MemoryIssue\<rparr>)"
    "replaced (lp_find p) (take (lp_size p) (lp_replace p)) ?stop base (pmem st) ps (mem mc)"
    using applyLookupPatch_run [of st p info base sz 0 0 base ?stop] assms by auto
  have "ps = []" using r(2) assms(7,8) by (cases ps) (auto elim!: replaced_ConsE)
  then show ?thesis using r assms(2) by (auto elim: replaced_NilE simp: getError_def)
qed

theorem applyLookupPatch_last_place_missed_witness:
  "\<exists>st'. applyLookupPatch (Some (jz_patch\<lparr>lp_find := [1, 2]\<rparr>)) 0 0
      (bare_patcher (write_bytes (\<lambda>_. 0) 0x20001E [1, 2])
        [image_info ''kernel'' 0x100000 64, image_info ''kext'' 0x200000 32] (\<lambda>_. kext_at ''kext'' 1)) = Some st' \<and>
    getError st' = MemoryIssue"
proof -
  let ?m = "write_bytes (\<lambda>_. 0) 0x20001E [1, 2]"
  let ?st = "bare_patcher ?m [image_info ''kernel'' 0x100000 64, image_info ''kext'' 0x200000 32] (\<lambda>_. kext_at ''kext'' 1)"
  have "read_bytes ?m a 2 \<noteq> [1, 2]" if "a < 0x20001E" for a
    using that by (auto simp: numeral_2_eq_2)
  then have "\<exists>st'. applyLookupPatch (Some (jz_patch\<lparr>lp_find := [1, 2]\<rparr>)) 0 0 ?st = Some st' \<and>
      pmem st' = pmem ?st \<and> getError st' = MemoryIssue"
    by (intro applyLookupPatch_last_place_missed [of ?st _ 0 "image_info ''kext'' 0x200000 32" "0x200000" 32])
      (auto simp: jz_simps)
  then show ?thesis by blast
qed

text \<open>
  C17. Without a count there is no bound on the rounds and the position is not advanced: when the
  replacement equals the pattern, the search loop never ends once a match is in range.
\<close>

theorem lookup_loop_without_count_endless:
  assumes "cur \<le> a" and "a < stop" and "read_bytes (mem mc) a (length pat) = pat" and "length pat \<le> 2 ^ 64"
  shows "lookup_loop pat pat 0 stop 0 cur 0 mc = None"
  using assms by (rule lookup_loop_endless)

theorem lookup_loop_without_count_endless_witness:
  "lookup_loop [0x0F, 0x84] [0x0F, 0x84] 0 0x20001E 0 0x200000 0 (bare_machine jz_memory) = None"
  by (rule lookup_loop_without_count_endless [of _ "0x200010"]) (simp_all add: jz_memory_def)

text \<open>
  C15. \<open>findPattern\<close> finds the first offset, from the given one on, at which the whole pattern lies
  in the data and matches under the mask; it fails exactly when there is none.
\<close>

theorem findPattern_first:
  "case findPattern m pat msk d sz off of
     Some p \<Rightarrow> pat \<noteq> [] \<and> off \<le> p \<and> p + length pat \<le> sz \<and> matches_at m d pat msk p \<and>
       (\<forall>q\<in>{off..<p}. \<not> matches_at m d pat msk q)
   | None \<Rightarrow> pat = [] \<or> (\<forall>p\<in>{off..sz}. p + length pat \<le> sz \<longrightarrow> \<not> matches_at m d pat msk p)"
proof (cases "findPattern m pat msk d sz off")
  case None
  then show ?thesis using findPattern_None_iff [of m pat msk d sz off] by auto
next
  case (Some p)
  then show ?thesis using findPattern_iff [of m pat msk d sz off p] by auto
qed

theorem findPattern_first_witness:
  "findPattern jz_memory [0x0F, 0x80] (Some [0xFF, 0xF0]) 0x200000 32 3 = Some 16 \<and>
   matches_at jz_memory 0x200000 [0x0F, 0x80] (Some [0xFF, 0xF0]) 16"
proof -
  have "findPattern jz_memory [0x0F, 0x80] (Some [0xFF, 0xF0]) 0x200000 32 3 = Some 16"
    by code_simp
  then show ?thesis
    using findPattern_first [of "[0x0F, 0x80]" 3 32 jz_memory "0x200000" "Some [0xFF, 0xF0]"] by simp
qed

text \<open>
  C8. \<open>findAndReplaceWithMask\<close>, with a replacement that is not empty and, where there is a replacement mask, a replacement
  and a mask that cover the pattern: it returns; it passes over \<open>skip\<close> matches and edits those that follow from left to right,
  each search starting behind the bytes written last, at most \<open>count\<close> of them when there is a count, until no match is left;
  it returns whether it edited one, restores the processor, and changes no byte outside the buffer, except that a
  replacement longer than the pattern may run past the end by the difference.
\<close>

theorem findAndReplaceWithMask_sweeps:
  assumes "window_ready mc" and "masks_fit pat rep rmask" and "sz + (length rep - length pat) \<le> 2 ^ 64"
  shows "\<exists>ps mc'. findAndReplaceWithMask d sz pat msk rep rmask count skip mc = Some (ps \<noteq> [], mc') \<and> same_cpu mc mc' \<and>
     masked_sweep d sz pat msk rep rmask count skip 0 (mem mc) ps (mem mc') \<and>
     (\<forall>x. \<not> in_range d (sz + (length rep - length pat)) x \<longrightarrow> mem mc' x = mem mc x)"
proof -
  obtain ps mc' where r: "replace_loop d sz pat msk rep rmask count skip 0 0 mc = Some (ps \<noteq> [], mc')" "same_cpu mc mc'"
    "masked_sweep d sz pat msk rep rmask count skip 0 (mem mc) ps (mem mc')"
    using replace_loop_sweeps [OF assms(2,1), of d sz msk count skip 0] by (elim exE conjE) (rule that)
  have "mem mc' x = mem mc x" if "\<not> in_range d (sz + (length rep - length pat)) x" for x
    using r(3) swept_frame [OF _ assms(3) that] by (auto simp: masked_sweep_def split: option.splits)
  moreover have "findAndReplaceWithMask d sz pat msk rep rmask count skip mc = Some (ps \<noteq> [], mc')"
    using r(1) by (cases "sz < length pat") (simp_all add: findAndReplaceWithMask_def replace_loop.simps findPattern_def)
  ultimately show ?thesis using r by blast
qed

theorem findAndReplaceWithMask_sweeps_witness:
  "\<exists>ps mc'. findAndReplaceWithMask 0x200000 32 [0x0F, 0x84] None [0x90, 0xE9] None 1 0 (bare_machine jz_memory) =
       Some (ps \<noteq> [], mc') \<and>
     masked_sweep 0x200000 32 [0x0F, 0x84] None [0x90, 0xE9] None 1 0 0 jz_memory ps (mem mc')"
  using findAndReplaceWithMask_sweeps [of "bare_machine jz_memory" "[0x0F, 0x84]" "[0x90, 0xE9]" None 32 "0x200000" None 1 0]
  by (auto simp: masks_fit_def)

end
