(* ===== verification/Patcher_Kexts.thy ===== *)
theory Patcher_Kexts
  imports Patcher_Route Patcher_Lookup
begin

text \<open>
  Kext listening and the life cycle of the patcher (\<open>kern_patcher.cpp\<close>): the handlers waiting for
  a kext, the dispatch when one is loaded, the two listener hooks, initialisation and removal.
  What a handler does and what the replaced kernel functions do are parameters: \<open>run\<close> is the
  effect of \<open>handler->handler(handler)\<close>, \<open>call\<close> that of calling the function at an address.
\<close>

section \<open>Handlers\<close>

definition waitOnKext :: "kext_handler \<Rightarrow> 'z patcher_scheme \<Rightarrow> 'z patcher_scheme" where
  "waitOnKext h st =
     (if \<not> that st then setError KextListeningFailure st
      else
        (let st1 = (if kh_loaded h then st\<lparr>waitingForAlreadyLoadedKexts := True\<rparr> else st);
             (ok, v, mc) = ev_push_back 2 h (khandlers st1) (mach st1);
             st2 = st1\<lparr>khandlers := v, mach := mc\<rparr>
         in if ok then st2 else setError MemoryIssue st2))"

primrec update_features :: "kext_info \<Rightarrow> kext_handler list \<Rightarrow> kext_handler list" where
  "update_features info [] = []"
| "update_features info (h # hs) =
     (if kh_id h = ki_id info
      then h\<lparr>kh_loaded := kh_loaded h \<or> ki_Loaded info, kh_reloadable := kh_reloadable h \<or> ki_Reloadable info\<rparr> # hs
      else h # update_features info hs)"

definition updateKextHandlerFeatures :: "nat \<Rightarrow> 'z patcher_scheme \<Rightarrow> 'z patcher_scheme" where
  "updateKextHandlerFeatures k st =
     st\<lparr>khandlers := (khandlers st)\<lparr>ev_items := update_features (kexts st k) (ev_items (khandlers st))\<rparr>\<rparr>"

definition set_handler :: "nat \<Rightarrow> kext_handler \<Rightarrow> 'z patcher_scheme \<Rightarrow> 'z patcher_scheme" where
  "set_handler i h st = st\<lparr>khandlers := (khandlers st)\<lparr>ev_items := (ev_items (khandlers st))[i := h]\<rparr>\<rparr>"

section \<open>Listening for kexts\<close>

text \<open>The two kernel functions that report kext loading and unloading, with their originals kept.\<close>

definition listener_requests :: "'z patcher_scheme \<Rightarrow> route_request list" where
  "listener_requests st =
     [RouteRequest ''__ZN6OSKext6unloadEv'' (onOSKextUnload_fn st) (orgOSKextUnload st),
      RouteRequest ''__ZN6OSKext23saveLoadedKextPanicListEv'' (onOSKextSave_fn st) (orgOSKextSave st)]"

definition setupKextListening :: "'z patcher_scheme \<Rightarrow> 'z patcher_scheme option" where
  "setupKextListening st =
     (if that st then Some st
      else do {
        let (a, st1) = patcher_solveSymbol KernelID ''_kmod'' st;
        let st2 = st1\<lparr>kextKmods := a\<rparr>;
        if a = 0 then Some (setError NoSymbolFound st2)
        else do {
          (ok, _, st3) \<leftarrow> routeMultiple KernelID (listener_requests st2) 0 0 True False st2;
          Some (if ok \<and> getError st3 = NoError then st3\<lparr>that := True\<rparr> else st3)
        }
      })"

text \<open>The packed layout of \<open>kmod_info_t\<close>.\<close>

definition kmod_next :: "memory \<Rightarrow> addr \<Rightarrow> addr" where "kmod_next m k = load64 m k"
definition kmod_name :: "addr \<Rightarrow> addr" where "kmod_name k = k + 16"
definition kmod_address :: "memory \<Rightarrow> addr \<Rightarrow> addr" where "kmod_address m k = load64 m (k + 156)"
definition kmod_size :: "memory \<Rightarrow> addr \<Rightarrow> u64" where "kmod_size m k = load64 m (k + 164)"
definition KMOD_MAX_NAME :: nat where "KMOD_MAX_NAME = 64"

text \<open>
  The loop of \<open>processKext\<close> from handler \<open>i\<close> on, \<open>n\<close> bounding the handlers left: the first one with
  the name and the UUID of the kext runs and is removed unless it is reloadable.
\<close>

definition run_handler :: "(kext_handler \<Rightarrow> 'z patcher_scheme \<Rightarrow> 'z patcher_scheme option) \<Rightarrow> nat \<Rightarrow> addr \<Rightarrow> u64
    \<Rightarrow> 'z patcher_scheme \<Rightarrow> 'z patcher_scheme option" where
  "run_handler run i kmodAddr sz st = do {
     let h = (ev_items (khandlers st) ! i)\<lparr>kh_address := kmodAddr, kh_size := sz\<rparr>;
     st1 \<leftarrow> run h (set_handler i h st);
     if ev_size (khandlers st1) \<le> i then None
     else if kh_reloadable (ev_items (khandlers st1) ! i) then Some st1
     else do {
       (v, st2) \<leftarrow> ev_erase (\<lambda>_. Some) i True (khandlers st1) st1;
       Some (st2\<lparr>khandlers := v\<rparr>)
     }
   }"

primrec process_handlers :: "(kext_handler \<Rightarrow> 'z patcher_scheme \<Rightarrow> 'z patcher_scheme option) \<Rightarrow> kern_env \<Rightarrow> addr
    \<Rightarrow> bool \<Rightarrow> nat \<Rightarrow> nat \<Rightarrow> 'z patcher_scheme \<Rightarrow> 'z patcher_scheme option" where
  "process_handlers run env kmod loaded 0 i st = Some st"
| "process_handlers run env kmod loaded (Suc n) i st =
     (let h = ev_items (khandlers st) ! i; kmodAddr = kmod_address (pmem st) kmod in
      if loaded \<and> \<not> kh_loaded h then process_handlers run env kmod loaded n (Suc i) st
      else if strncmp_eq (pmem st) (kmod_name kmod) (kh_id h) KMOD_MAX_NAME then do {
        info \<leftarrow> kinfo (kh_index h) st;
        (cur, mc, info1) \<leftarrow> isCurrentBinary env kmodAddr (mach st) info;
        let st1 = set_kinfo (kh_index h) info1 (st\<lparr>mach := mc\<rparr>);
        if cur then run_handler run i kmodAddr (kmod_size (pmem st) kmod) st1
        else process_handlers run env kmod loaded n (Suc i) st1
      }
      else process_handlers run env kmod loaded n (Suc i) st)"

definition patcher_processKext :: "(kext_handler \<Rightarrow> 'z patcher_scheme \<Rightarrow> 'z patcher_scheme option) \<Rightarrow> kern_env \<Rightarrow> addr
    \<Rightarrow> bool \<Rightarrow> 'z patcher_scheme \<Rightarrow> 'z patcher_scheme option" where
  "patcher_processKext run env kmod loaded st =
     process_handlers run env kmod loaded (ev_size (khandlers st)) 0 st"

partial_function (option) process_loaded :: "(kext_handler \<Rightarrow> 'z patcher_scheme \<Rightarrow> 'z patcher_scheme option) \<Rightarrow> kern_env
    \<Rightarrow> addr \<Rightarrow> 'z patcher_scheme \<Rightarrow> 'z patcher_scheme option" where
  "process_loaded run env kmod st =
     (if kmod = 0 then Some st
      else patcher_processKext run env kmod True st \<bind> (\<lambda>st1.
             process_loaded run env (kmod_next (pmem st1) kmod) st1))"

declare process_loaded.simps [code]

definition processAlreadyLoadedKexts :: "(kext_handler \<Rightarrow> 'z patcher_scheme \<Rightarrow> 'z patcher_scheme option) \<Rightarrow> kern_env
    \<Rightarrow> 'z patcher_scheme \<Rightarrow> 'z patcher_scheme option" where
  "processAlreadyLoadedKexts run env st = process_loaded run env (load64 (pmem st) (kextKmods st)) st"

definition patcher_activate :: "(kext_handler \<Rightarrow> 'z patcher_scheme \<Rightarrow> 'z patcher_scheme option) \<Rightarrow> kern_env
    \<Rightarrow> 'z patcher_scheme \<Rightarrow> 'z patcher_scheme option" where
  "patcher_activate run env st = do {
     st1 \<leftarrow> (if BigSur \<le> version_major env \<and> waitingForAlreadyLoadedKexts st then do {
               st2 \<leftarrow> processAlreadyLoadedKexts run env st;
               Some (st2\<lparr>waitingForAlreadyLoadedKexts := False\<rparr>)
             } else Some st);
     Some (st1\<lparr>activated := True\<rparr>)
   }"

section \<open>The hooks\<close>

definition kOSReturnError :: u32 where "kOSReturnError = 0xdc000001"

definition onOSKextUnload :: "(addr \<Rightarrow> addr \<Rightarrow> 'z patcher_scheme \<Rightarrow> (u32 \<times> 'z patcher_scheme) option) \<Rightarrow> addr
    \<Rightarrow> 'z patcher_scheme \<Rightarrow> (u32 \<times> 'z patcher_scheme) option" where
  "onOSKextUnload call thisKext st =
     (if that st then do {
        (status, st1) \<leftarrow> call (load64 (pmem st) (orgOSKextUnload st)) thisKext (st\<lparr>isKextUnloading := True\<rparr>);
        Some (status, st1\<lparr>isKextUnloading := False\<rparr>)
      } else Some (kOSReturnError, st))"

definition onOSKextSaveLoadedKextPanicList :: "(addr \<Rightarrow> 'z patcher_scheme \<Rightarrow> 'z patcher_scheme option)
    \<Rightarrow> (kext_handler \<Rightarrow> 'z patcher_scheme \<Rightarrow> 'z patcher_scheme option) \<Rightarrow> kern_env
    \<Rightarrow> 'z patcher_scheme \<Rightarrow> 'z patcher_scheme option" where
  "onOSKextSaveLoadedKextPanicList call run env st =
     (if \<not> that st \<or> \<not> activated st then Some st
      else do {
        st1 \<leftarrow> call (load64 (pmem st) (orgOSKextSave st)) st;
        if isKextUnloading st1 then Some st1
        else if waitingForAlreadyLoadedKexts st1 then do {
          st2 \<leftarrow> processAlreadyLoadedKexts run env st1;
          Some (st2\<lparr>waitingForAlreadyLoadedKexts := False\<rparr>)
        } else do {
          let kmod = load64 (pmem st1) (kextKmods st1);
          if kmod \<noteq> 0 then patcher_processKext run env kmod False st1 else Some st1
        }
      })"

section \<open>Life cycle\<close>

definition patcher_freeFileBufferResources :: "'z patcher_scheme \<Rightarrow> 'z patcher_scheme" where
  "patcher_freeFileBufferResources st =
     (case kinfo KernelID st of
        Some k \<Rightarrow> set_kinfo KernelID (freeFileBufferResources k) st
      | None \<Rightarrow> st)"

definition init_prelink :: "kern_env \<Rightarrow> bool \<Rightarrow> 'z patcher_scheme \<Rightarrow> 'z patcher_scheme option" where
  "init_prelink env usingPrelinkedCache st =
     (if usingPrelinkedCache then do {
        (i, st1) \<leftarrow> loadKinfo env ''kernel'' prelinkKernelPaths True False st;
        Some (if getError st1 = NoError \<and> i = KernelID then st1\<lparr>prelinkInfo := Some KernelID\<rparr>
              else clearError st1)
      } else Some st)"

definition init_lock :: "'z patcher_scheme \<Rightarrow> bool \<times> 'z patcher_scheme" where
  "init_lock st =
     (if kernelWriteLock (mach st) then (True, st)
      else let (p, st1) = kalloc st in
           if p = 0 then (False, setError LockError st1)
           else (True, st1\<lparr>mach := (mach st1)\<lparr>kernelWriteLock := True\<rparr>\<rparr>))"

definition patcher_init :: "kern_env \<Rightarrow> bool \<Rightarrow> 'z patcher_scheme \<Rightarrow> 'z patcher_scheme option" where
  "patcher_init env usingPrelinkedCache st0 = do {
     st <- init_prelink env usingPrelinkedCache st0;
     (ready, st1) \<leftarrow> (if prelinkInfo st = None then do {
                        (i, st2) \<leftarrow> loadKinfo env ''kernel'' kernelPaths True False st;
                        Some (getError st2 = NoError \<and> i = KernelID, st2)
                      } else Some (True, st));
     if \<not> ready then Some st1
     else do {
       let (locked, st2) = init_lock st1;
       if \<not> locked then Some st2
       else do {
         info \<leftarrow> kinfo KernelID st2;
         (r, mc, info1) \<leftarrow> getRunningAddresses env 0 0 False (mach st2) info;
         let st3 = set_kinfo KernelID info1 (st2\<lparr>mach := mc\<rparr>);
         Some (if r \<noteq> KERN_SUCCESS then setError KernRunningInitFailure st3 else st3)
       }
     }
   }"

primrec restore_all :: "addr list \<Rightarrow> 'z patcher_scheme \<Rightarrow> 'z patcher_scheme option" where
  "restore_all [] st = Some st"
| "restore_all (p # ps) st = Patch_restore p st \<bind> restore_all ps"

definition remove_patches :: "'z patcher_scheme \<Rightarrow> 'z patcher_scheme option" where
  "remove_patches st =
     (if ev_size (kinfos st) > 0 then do {
        (r, st1) \<leftarrow> kw_on st;
        if r = KERN_SUCCESS then do {
          st2 \<leftarrow> restore_all (ev_items (kpatches st1)) st1;
          (_, st3) \<leftarrow> kw_off st2;
          Some st3
        } else Some st1
      } else Some st)"

definition patcher_deinit :: "'z patcher_scheme \<Rightarrow> 'z patcher_scheme option" where
  "patcher_deinit st = do {
     st1 \<leftarrow> remove_patches st;
     (v, st2) \<leftarrow> ev_deinit Patch_deleter (kpatches st1) st1;
     let st3 = st2\<lparr>kpatches := v\<rparr>;
     (ks, st4) \<leftarrow> ev_deinit (\<lambda>_. Some) (kinfos st3) st3;
     Some (st4\<lparr>kinfos := ks, mach := (mach st4)\<lparr>kernelWriteLock := False\<rparr>\<rparr>)
   }"

end
