(* ===== verification/Lilu_Config.thy ===== *)
theory Lilu_Config
  imports Patcher_State
begin

text \<open>
  The boot argument handling of \<open>kern_start.cpp\<close> (\<open>Configuration::getBootArguments\<close>). The only other
  input is whether the I/O registry says that an installer or recovery image was booted.
\<close>

record configuration =
  isDisabled :: bool
  isUserDisabled :: bool
  preferSlowMode :: bool
  cfg_allowDecompress :: bool
  installOrRecovery :: bool
  safeMode :: bool
  betaForAll :: bool
  debugForAll :: bool
  startSuccess :: bool
  readArguments :: bool
  debugEnabled :: bool

definition config0 :: configuration where
  "config0 = \<lparr>isDisabled = True, isUserDisabled = False, preferSlowMode = False,
     cfg_allowDecompress = True, installOrRecovery = False, safeMode = False, betaForAll = False,
     debugForAll = False, startSuccess = False, readArguments = False, debugEnabled = False\<rparr>"

definition minKernel :: nat where "minKernel = 8"
definition maxKernel :: nat where "maxKernel = 25"
definition Mavericks :: nat where "Mavericks = 13"

text \<open>Whether the arguments disable the extension.\<close>

definition args_disable :: "kern_env \<Rightarrow> bool" where
  "args_disable env =
     (let off = checkKernelArgument env ''-liluoff'' in
      if checkKernelArgument env ''-liluforce'' then off
      else
        (let single = (off \<or> checkKernelArgument env ''-s'') in
         if \<not> compatibleKernel env minKernel maxKernel \<and>
            \<not> checkKernelArgument env ''-lilubetaall'' \<and> \<not> checkKernelArgument env ''-lilubeta''
         then True else single))"

definition args_recovery :: "kern_env \<Rightarrow> bool \<Rightarrow> bool" where
  "args_recovery env ramdisk =
     (ramdisk \<or> checkKernelArgument env ''rp0'' \<or> checkKernelArgument env ''rp'' \<or>
      checkKernelArgument env ''container-dmg'' \<or> checkKernelArgument env ''root-dmg'' \<or>
      checkKernelArgument env ''auth-root-dmg'')"

definition args_slow :: "kern_env \<Rightarrow> bool \<Rightarrow> bool" where
  "args_slow env recovery =
     (let slow0 = (version_major env \<le> Mavericks \<or> recovery);
          slow1 = (if checkKernelArgument env ''-liluslow'' then True
                   else if checkKernelArgument env ''-lilufast'' then False else slow0);
          slow2 = (if \<not> slow1 \<and> version_major env \<le> Mavericks then True else slow1)
      in if \<not> slow2 \<and> recovery then True else slow2)"

definition getBootArguments :: "kern_env \<Rightarrow> bool \<Rightarrow> configuration \<Rightarrow> bool \<times> configuration" where
  "getBootArguments env ramdisk c =
     (if readArguments c then (\<not> isDisabled c, c)
      else
        (let dis = args_disable env; recov = args_recovery env ramdisk;
             c1 = c\<lparr>isDisabled := dis,
                    isUserDisabled := (checkKernelArgument env ''-liluuseroff'' \<or>
                       version_major env \<le> SnowLeopard \<or> BigSur \<le> version_major env),
                    preferSlowMode := args_slow env recov,
                    cfg_allowDecompress := \<not> checkKernelArgument env ''-lilulowmem'',
                    installOrRecovery := recov,
                    safeMode := checkKernelArgument env ''-x'',
                    betaForAll := checkKernelArgument env ''-lilubetaall'',
                    debugForAll := checkKernelArgument env ''-liludbgall'',
                    readArguments := True,
                    debugEnabled := (checkKernelArgument env ''-liludbgall'' \<or>
                       checkKernelArgument env ''-liludbg'')\<rparr>
         in (\<not> dis, c1)))"

section \<open>What the arguments decide\<close>

lemma getBootArguments_once:
  "getBootArguments env r c = (b, c') \<Longrightarrow> getBootArguments env' r' c' = (b, c')"
  by (auto simp: getBootArguments_def Let_def split: if_splits)

text \<open>Slow mode is unavoidable on old systems and in recovery, whatever the arguments say.\<close>

lemma args_slow_forced: "version_major env \<le> Mavericks \<or> recovery \<Longrightarrow> args_slow env recovery"
  by (auto simp: args_slow_def Let_def)

lemma args_slow_choice:
  "\<not> version_major env \<le> Mavericks \<Longrightarrow> \<not> recovery \<Longrightarrow>
     args_slow env recovery \<longleftrightarrow> checkKernelArgument env ''-liluslow''"
  by (simp add: args_slow_def Let_def)

lemma args_disable_iff:
  "args_disable env \<longleftrightarrow>
     checkKernelArgument env ''-liluoff'' \<or>
     (\<not> checkKernelArgument env ''-liluforce'' \<and>
      (checkKernelArgument env ''-s'' \<or>
       (\<not> (8 \<le> version_major env \<and> version_major env \<le> 25) \<and>
        \<not> checkKernelArgument env ''-lilubetaall'' \<and> \<not> checkKernelArgument env ''-lilubeta'')))"
  by (auto simp: args_disable_def compatibleKernel_def minKernel_def maxKernel_def KernelAny_def Let_def)

end
