(* ===== verification/Lilu_Api.thy ===== *)
theory Lilu_Api
  imports Patcher_Kexts Lilu_Config
begin

text \<open>
  \<open>LiluAPI\<close> (\<open>kern_api.cpp\<close>): access control, load decisions, the registration of callbacks and the
  processing of what was registered when the patcher is ready and when a kext is loaded. A
  callback is a pair of pointers (function, user); what it does is a parameter of the operations
  that call it. Locks belong to one thread: taking one that is held blocks for ever.
\<close>

datatype api_error = ApiNoError | ApiLockError | MemoryError | UnsupportedFeature | IncompatibleOS
  | Disabled | TooLate | Offline

text \<open>A stored process is its pointer and its section number (0 is disabled).\<close>

record lilu = patcher +
  config :: configuration
  access_locked :: bool
  currentRunMode :: u32
  apiRequestsOver :: bool
  patcherLoadedCallbacks :: "(addr \<times> addr) evector"
  kextLoadedCallbacks :: "(addr \<times> addr) evector"
  binaryLoadedCallbacks :: "(addr \<times> addr) evector"
  entitlementRequestedCallbacks :: "(addr \<times> addr) evector"
  storedKexts :: "(nat \<times> nat) evector"
  storedProcs :: "(addr \<times> u32) evector"
  storedBinaryMods :: "addr evector"
  copyClientEntitlement_fn :: addr
  orgCopyClientEntitlement :: addr

definition RunningNormal :: u32 where "RunningNormal = 1"
definition RunningInstallerRecovery :: u32 where "RunningInstallerRecovery = 2"
definition RunningSafeMode :: u32 where "RunningSafeMode = 4"

definition api_init :: "'z lilu_scheme \<Rightarrow> 'z lilu_scheme" where
  "api_init st =
     st\<lparr>currentRunMode := currentRunMode st OR
          (if installOrRecovery (config st) then RunningInstallerRecovery
           else if safeMode (config st) then RunningSafeMode else RunningNormal)\<rparr>"

section \<open>Access\<close>

text \<open>\<open>moduleVersion\<close> is the version the extension was built with.\<close>

definition requestAccess :: "nat \<Rightarrow> nat \<Rightarrow> bool \<Rightarrow> 'z lilu_scheme \<Rightarrow> (api_error \<times> 'z lilu_scheme) option" where
  "requestAccess moduleVersion version check st =
     (if \<not> startSuccess (config st) then Some (Offline, st)
      else if version > moduleVersion then Some (UnsupportedFeature, st)
      else if access_locked st then (if check then Some (ApiLockError, st) else None)
      else if apiRequestsOver st then Some (TooLate, st)
      else Some (ApiNoError, st\<lparr>access_locked := True\<rparr>))"

definition releaseAccess :: "'z lilu_scheme \<Rightarrow> api_error \<times> 'z lilu_scheme" where
  "releaseAccess st = (ApiNoError, st\<lparr>access_locked := False\<rparr>)"

definition finaliseRequests :: "'z lilu_scheme \<Rightarrow> 'z lilu_scheme option" where
  "finaliseRequests st = (if access_locked st then None else Some (st\<lparr>apiRequestsOver := True\<rparr>))"

text \<open>The second component is \<open>printDebug\<close>.\<close>

definition shouldLoad :: "kern_env \<Rightarrow> u32 \<Rightarrow> string list \<Rightarrow> string list \<Rightarrow> string list \<Rightarrow> nat \<Rightarrow> nat
    \<Rightarrow> 'z lilu_scheme \<Rightarrow> api_error \<times> bool" where
  "shouldLoad env runmode disableArg debugArg betaArg lo hi st =
     (if runmode AND currentRunMode st = 0 then (Disabled, False)
      else if list_ex (checkKernelArgument env) disableArg then (Disabled, False)
      else if \<not> compatibleKernel env lo hi \<and>
              \<not> (betaForAll (config st) \<or> list_ex (checkKernelArgument env) betaArg)
      then (IncompatibleOS, False)
      else (ApiNoError, debugForAll (config st) \<or> list_ex (checkKernelArgument env) debugArg))"

section \<open>Registration\<close>

text \<open>
  Storing a pair: one allocation for the pair, one for the vector when it is full. \<open>get\<close> and
  \<open>put\<close> select the vector.
\<close>

definition store_pair :: "nat \<Rightarrow> 'a \<Rightarrow> ('z lilu_scheme \<Rightarrow> 'a evector) \<Rightarrow> ('a evector \<Rightarrow> 'z lilu_scheme \<Rightarrow> 'z lilu_scheme)
    \<Rightarrow> 'z lilu_scheme \<Rightarrow> api_error \<times> 'z lilu_scheme" where
  "store_pair MUL x get put st =
     (let (p, st1) = kalloc st in
      if p = 0 then (MemoryError, st1)
      else (let (ok, v, mc) = ev_push_back MUL x (get st1) (mach st1);
                st2 = put v (st1\<lparr>mach := mc\<rparr>)
            in (if ok then ApiNoError else MemoryError, st2)))"

definition onPatcherLoad :: "addr \<Rightarrow> addr \<Rightarrow> 'z lilu_scheme \<Rightarrow> api_error \<times> 'z lilu_scheme" where
  "onPatcherLoad callback user st =
     store_pair 2 (callback, user) patcherLoadedCallbacks (\<lambda>v s. s\<lparr>patcherLoadedCallbacks := v\<rparr>) st"

text \<open>\<open>infos\<close> is the pointer to the first of \<open>num\<close> consecutive \<open>KextInfo\<close>s.\<close>

definition onKextLoad :: "nat option \<Rightarrow> nat \<Rightarrow> addr \<Rightarrow> addr \<Rightarrow> 'z lilu_scheme \<Rightarrow> api_error \<times> 'z lilu_scheme" where
  "onKextLoad infos num callback user st =
     (let (e1, st1) = (if callback \<noteq> 0
                       then store_pair 4 (callback, user) kextLoadedCallbacks (\<lambda>v s. s\<lparr>kextLoadedCallbacks := v\<rparr>) st
                       else (ApiNoError, st))
      in if e1 \<noteq> ApiNoError then (e1, st1)
         else case infos of
                None \<Rightarrow> (ApiNoError, st1)
              | Some k \<Rightarrow> store_pair 4 (k, num) storedKexts (\<lambda>v s. s\<lparr>storedKexts := v\<rparr>) st1)"

primrec store_all :: "'a list \<Rightarrow> ('z lilu_scheme \<Rightarrow> 'a evector) \<Rightarrow> ('a evector \<Rightarrow> 'z lilu_scheme \<Rightarrow> 'z lilu_scheme)
    \<Rightarrow> 'z lilu_scheme \<Rightarrow> api_error \<times> 'z lilu_scheme" where
  "store_all [] get put st = (ApiNoError, st)"
| "store_all (x # xs) get put st =
     (let (ok, v, mc) = ev_push_back 2 x (get st) (mach st); st1 = put v (st\<lparr>mach := mc\<rparr>)
      in if ok then store_all xs get put st1 else (MemoryError, st1))"

definition SectionDisabled :: u32 where "SectionDisabled = 0"

definition onProcLoad :: "(addr \<times> u32) list \<Rightarrow> addr \<Rightarrow> addr \<Rightarrow> addr list \<Rightarrow> 'z lilu_scheme \<Rightarrow> api_error \<times> 'z lilu_scheme" where
  "onProcLoad infos callback user mods st =
     (let (e1, st1) = (if callback \<noteq> 0
                       then store_pair 2 (callback, user) binaryLoadedCallbacks (\<lambda>v s. s\<lparr>binaryLoadedCallbacks := v\<rparr>) st
                       else (ApiNoError, st)) in
      if e1 \<noteq> ApiNoError then (e1, st1)
      else
        (let (e2, st2) = store_all (filter (\<lambda>p. snd p \<noteq> SectionDisabled) infos) storedProcs
                           (\<lambda>v s. s\<lparr>storedProcs := v\<rparr>) st1
         in if e2 \<noteq> ApiNoError then (e2, st2)
            else store_all mods storedBinaryMods (\<lambda>v s. s\<lparr>storedBinaryMods := v\<rparr>) st2))"

definition onEntitlementRequest :: "addr \<Rightarrow> addr \<Rightarrow> 'z lilu_scheme \<Rightarrow> api_error \<times> 'z lilu_scheme" where
  "onEntitlementRequest callback user st =
     store_pair 2 (callback, user) entitlementRequestedCallbacks (\<lambda>v s. s\<lparr>entitlementRequestedCallbacks := v\<rparr>) st"

section \<open>Processing\<close>

text \<open>
  The callbacks in the order of registration. Registration is closed by \<open>finaliseRequests\<close> before
  any of them runs, so the list is the one at the start.
\<close>

primrec call_list :: "(addr \<times> addr \<Rightarrow> 's \<Rightarrow> 's option) \<Rightarrow> (addr \<times> addr) list \<Rightarrow> 's \<Rightarrow> 's option" where
  "call_list call [] st = Some st"
| "call_list call (c # cs) st = call c st \<bind> call_list call cs"

definition processKextLoadCallbacks :: "(nat \<Rightarrow> addr \<Rightarrow> u64 \<Rightarrow> addr \<times> addr \<Rightarrow> 'z lilu_scheme \<Rightarrow> 'z lilu_scheme option) \<Rightarrow> kern_env
    \<Rightarrow> nat \<Rightarrow> addr \<Rightarrow> u64 \<Rightarrow> bool \<Rightarrow> 'z lilu_scheme \<Rightarrow> 'z lilu_scheme option" where
  "processKextLoadCallbacks kcall env i slide sz reloadable st = do {
     (sz1, st1) \<leftarrow> updateRunningInfo env i slide sz reloadable st;
     call_list (kcall i slide sz1) (ev_items (kextLoadedCallbacks st1)) st1
   }"

text \<open>What a kext handler does: the lambda of \<open>processPatcherLoadCallbacks\<close>.\<close>

definition api_handler :: "(nat \<Rightarrow> addr \<Rightarrow> u64 \<Rightarrow> addr \<times> addr \<Rightarrow> 'z lilu_scheme \<Rightarrow> 'z lilu_scheme option) \<Rightarrow> kern_env
    \<Rightarrow> kext_handler \<Rightarrow> 'z lilu_scheme \<Rightarrow> 'z lilu_scheme option" where
  "api_handler kcall env h st =
     processKextLoadCallbacks kcall env (kh_index h) (kh_address h) (kh_size h) (kh_reloadable h) st"

text \<open>One stored kext. The flag says whether to go on with the next one.\<close>

definition queue_kext :: "kern_env \<Rightarrow> nat \<Rightarrow> 'z lilu_scheme \<Rightarrow> (bool \<times> 'z lilu_scheme) option" where
  "queue_kext env k st =
     (let info = kexts st k in
      if ki_Disabled info then Some (True, st)
      else if ki_FSOnly info \<and> ki_paths info = [] then Some (True, st)
      else do {
        (_, st1) \<leftarrow> loadKinfo_kext env k st;
        let e = getError st1;
        if e \<noteq> NoError then
          (let st2 = clearError st1 in
           Some (True, if e = AlreadyDone \<and> (ki_Loaded info \<or> ki_Reloadable info)
                       then updateKextHandlerFeatures k st2 else st2))
        else do {
          st2 \<leftarrow> setupKextListening st1;
          if getError st2 \<noteq> NoError then Some (False, clearError st2)
          else do {
            let (p, st3) = kalloc st2;
            if p = 0 then Some (False, st3)
            else do {
              let i1 = kexts st3 k;
              let st4 = waitOnKext (KextHandler_create (ki_id i1) (ki_loadIndex i1) (ki_Loaded i1) (ki_Reloadable i1)) st3;
              Some (if getError st4 \<noteq> NoError then (False, clearError st4) else (True, st4))
            }
          }
        }
      })"

primrec queue_kexts :: "kern_env \<Rightarrow> nat list \<Rightarrow> 'z lilu_scheme \<Rightarrow> 'z lilu_scheme option" where
  "queue_kexts env [] st = Some st"
| "queue_kexts env (k # ks) st = do {
     (go, st1) \<leftarrow> queue_kext env k st;
     if go then queue_kexts env ks st1 else Some st1
   }"

definition processPatcherLoadCallbacks :: "(addr \<times> addr \<Rightarrow> 'z lilu_scheme \<Rightarrow> 'z lilu_scheme option) \<Rightarrow> kern_env
    \<Rightarrow> 'z lilu_scheme \<Rightarrow> 'z lilu_scheme option" where
  "processPatcherLoadCallbacks pcall env st = do {
     st1 \<leftarrow> call_list pcall (ev_items (patcherLoadedCallbacks st)) st;
     st2 \<leftarrow> (if ev_size (entitlementRequestedCallbacks st1) > 0
             then map_option (\<lambda>(_, _, s). s) (routeMultiple KernelID
                    [RouteRequest ''__ZN12IOUserClient21copyClientEntitlementEP4taskPKc''
                       (copyClientEntitlement_fn st1) (orgCopyClientEntitlement st1)] 0 0 True False st1)
             else Some st1);
     st3 \<leftarrow> queue_kexts env (concat (map (\<lambda>(k, n). [k..<k + n]) (ev_items (storedKexts st2)))) st2;
     Some (patcher_freeFileBufferResources st3)
   }"

primrec drop_disabled :: "(addr \<times> u32) list \<Rightarrow> (addr \<times> u32) list" where
  "drop_disabled [] = []"
| "drop_disabled (p # ps) = (if snd p = SectionDisabled then drop_disabled ps else p # drop_disabled ps)"

text \<open>\<open>register\<close> is \<open>UserPatcher::registerPatches\<close>.\<close>

definition processUserLoadCallbacks :: "((addr \<times> u32) list \<Rightarrow> addr list \<Rightarrow> 'z lilu_scheme \<Rightarrow> 'z lilu_scheme) \<Rightarrow> 'z lilu_scheme \<Rightarrow> 'z lilu_scheme" where
  "processUserLoadCallbacks register st =
     (if ev_size (storedProcs st) = 0 \<and> ev_size (storedBinaryMods st) = 0 then st
      else
        (let ps = drop_disabled (ev_items (storedProcs st));
             v = (storedProcs st)\<lparr>ev_items := ps, ev_rsvd := (if ps = [] then 0 else ev_rsvd (storedProcs st))\<rparr>
         in register ps (ev_items (storedBinaryMods st)) (st\<lparr>storedProcs := v\<rparr>)))"

definition api_copyClientEntitlement :: "(addr \<Rightarrow> addr \<Rightarrow> string \<Rightarrow> 'o) \<Rightarrow> (addr \<times> addr \<Rightarrow> addr \<Rightarrow> string \<Rightarrow> 'o \<Rightarrow> 'o)
    \<Rightarrow> addr \<Rightarrow> string \<Rightarrow> 'z lilu_scheme \<Rightarrow> 'o option" where
  "api_copyClientEntitlement call ecall task entitlement st =
     (let org = load64 (pmem st) (orgCopyClientEntitlement st) in
      if org \<noteq> 0
      then Some (fold (\<lambda>c obj. ecall c task entitlement obj) (ev_items (entitlementRequestedCallbacks st))
                   (call org task entitlement))
      else None)"

end
