(* ===== verification/Nvram_Args.thy ===== *)
theory Nvram_Args
  imports Mach_Info
begin

text \<open>
  Kryptonite's boot arguments (\<open>kern_nvramargs.cpp\<close>) and kernel version gates
  (\<open>kern_compatibility.cpp\<close>). Messages are not modelled.
\<close>

record nvram_args =
  gpu :: string
  tbtVersion :: int
  sequoiaForce :: bool
  probeMode :: bool
  skipAllPatches :: bool
  enableIntelAGDCDisabler :: bool
  enableIntelForceOnline :: bool
  enableAMDCompatibilityPatch :: bool
  enableAMDSharedUserClientVariableOutput :: bool
  enableAMDAccelPrime :: bool
  enableAMDLinkValidationPatch :: bool
  enableAMDFramebufferValidationPatch :: bool
  enableAMD24BitOutputClamp :: bool
  enableAMDIOSurfaceGuard :: bool
  skipAGDCPatch :: bool
  skipAGDPPatch :: bool
  skipIOGFXPatch :: bool
  skipIOPCIPatch :: bool
  skipMuxPatch :: bool
  skipTBRoutePatch :: bool
  skipSequoiaPatch :: bool

text \<open>The statics before \<open>init\<close>.\<close>

definition nvram_args0 :: nvram_args where
  "nvram_args0 = \<lparr>gpu = [], tbtVersion = 0, sequoiaForce = False, probeMode = False,
     skipAllPatches = False, enableIntelAGDCDisabler = False, enableIntelForceOnline = False,
     enableAMDCompatibilityPatch = False, enableAMDSharedUserClientVariableOutput = False,
     enableAMDAccelPrime = False, enableAMDLinkValidationPatch = False,
     enableAMDFramebufferValidationPatch = False, enableAMD24BitOutputClamp = False,
     enableAMDIOSurfaceGuard = False, skipAGDCPatch = False, skipAGDPPatch = False,
     skipIOGFXPatch = False, skipIOPCIPatch = False, skipMuxPatch = False,
     skipTBRoutePatch = False, skipSequoiaPatch = False\<rparr>"

definition parseBooleanBootArg :: "kern_env \<Rightarrow> string \<Rightarrow> bool" where
  "parseBooleanBootArg env name =
     (case boot_arg_int env name of
        Some v \<Rightarrow> v \<noteq> 0
      | None \<Rightarrow> checkKernelArgument env name)"

definition getGPU :: "kern_env \<Rightarrow> nvram_args \<Rightarrow> nvram_args" where
  "getGPU env a = (case boot_arg_str env ''krygpu'' 5 of None \<Rightarrow> a | Some s \<Rightarrow> a\<lparr>gpu := s\<rparr>)"

text \<open>An unsupported version is reported and kept.\<close>

definition getTBTVersion :: "kern_env \<Rightarrow> nvram_args \<Rightarrow> nvram_args" where
  "getTBTVersion env a = (case boot_arg_int env ''krytbtv'' of None \<Rightarrow> a | Some v \<Rightarrow> a\<lparr>tbtVersion := v\<rparr>)"

definition getSequoiaForce :: "kern_env \<Rightarrow> nvram_args \<Rightarrow> nvram_args" where
  "getSequoiaForce env a =
     (case boot_arg_int env ''kryfsequoia'' of
        Some v \<Rightarrow> a\<lparr>sequoiaForce := (v \<noteq> 0)\<rparr>
      | None \<Rightarrow> a\<lparr>sequoiaForce := checkKernelArgument env ''kryfsequoia''\<rparr>)"

definition getPatchControls :: "kern_env \<Rightarrow> nvram_args \<Rightarrow> nvram_args" where
  "getPatchControls env a =
     a\<lparr>probeMode := parseBooleanBootArg env ''kryprobe'',
       skipAllPatches := parseBooleanBootArg env ''kryskipall'',
       enableIntelAGDCDisabler := parseBooleanBootArg env ''kryigfxagdc'',
       enableIntelForceOnline := parseBooleanBootArg env ''kryigfxonln'',
       enableAMDCompatibilityPatch := parseBooleanBootArg env ''kryamdcompat'',
       enableAMDSharedUserClientVariableOutput := parseBooleanBootArg env ''kryamdshmvar'',
       enableAMDAccelPrime := parseBooleanBootArg env ''kryamdaccelprime'',
       enableAMDLinkValidationPatch := parseBooleanBootArg env ''kryamdlink'',
       enableAMDFramebufferValidationPatch := parseBooleanBootArg env ''kryamdfbval'',
       enableAMD24BitOutputClamp := parseBooleanBootArg env ''kryrad24'',
       enableAMDIOSurfaceGuard := parseBooleanBootArg env ''kryamdsurfguard'',
       skipAGDCPatch := parseBooleanBootArg env ''kryskipagdc'',
       skipAGDPPatch := parseBooleanBootArg env ''kryskipagdp'',
       skipIOGFXPatch := parseBooleanBootArg env ''kryskipiogfx'',
       skipIOPCIPatch := parseBooleanBootArg env ''kryskipiopci'',
       skipMuxPatch := parseBooleanBootArg env ''kryskipmux'',
       skipTBRoutePatch := parseBooleanBootArg env ''kryskiptbroute'',
       skipSequoiaPatch := parseBooleanBootArg env ''kryskipseq''\<rparr>"

definition NVRAMArgs_init :: "kern_env \<Rightarrow> nvram_args \<Rightarrow> nvram_args" where
  "NVRAMArgs_init env a = getPatchControls env (getSequoiaForce env (getTBTVersion env (getGPU env a)))"

definition isAMD :: "nvram_args \<Rightarrow> bool" where "isAMD a \<longleftrightarrow> gpu a = ''AMD''"
definition isNVDA :: "nvram_args \<Rightarrow> bool" where "isNVDA a \<longleftrightarrow> gpu a = ''NVDA''"
definition isThunderbolt1 :: "nvram_args \<Rightarrow> bool" where "isThunderbolt1 a \<longleftrightarrow> tbtVersion a = 1"
definition isThunderbolt2 :: "nvram_args \<Rightarrow> bool" where "isThunderbolt2 a \<longleftrightarrow> tbtVersion a = 2"

definition skipThunderboltEnum :: "kern_env \<Rightarrow> bool" where
  "skipThunderboltEnum env = parseBooleanBootArg env ''skipthunderboltenum''"

section \<open>Kernel versions\<close>

definition HighSierra :: nat where "HighSierra = 17"
definition Mojave :: nat where "Mojave = 18"
definition Catalina :: nat where "Catalina = 19"
definition Sequoia :: nat where "Sequoia = 24"

definition isUnsupported :: "kern_env \<Rightarrow> bool" where
  "isUnsupported env \<longleftrightarrow> version_major env < HighSierra \<or> (version_major env = HighSierra \<and> version_minor env < 5)"

definition isOlderKernel :: "kern_env \<Rightarrow> bool" where
  "isOlderKernel env \<longleftrightarrow> version_major env < Catalina \<or> (version_major env = Catalina \<and> version_minor env < 1)"

definition isSequoiaForced :: "nvram_args \<Rightarrow> bool" where
  "isSequoiaForced a = sequoiaForce a"

end
