(* ===== verification/Hooks.thy ===== *)
theory Hooks
  imports Nvram_Args
begin

text \<open>
  The replacement functions of \<open>kern_hooks.cpp\<close>. The state they work on is memory, the part of the
  I/O registry they touch (properties and providers of the services, and the services they ask
  to be matched again) and the external method structures. The function a hook replaces is a
  parameter, \<open>None\<close> when its pointer is still null.
\<close>

section \<open>State\<close>

datatype io_property = OSBool bool | OSStr string | OSOther nat

record io_service =
  io_props :: "string \<Rightarrow> io_property option"
  io_provider :: addr

record ext_method =
  em_object :: addr
  em_func :: addr
  em_flags :: u32
  em_count0 :: u64
  em_count1 :: u64

record hook_state =
  hmem :: memory
  registry :: "addr \<Rightarrow> io_service"
  reprobed :: "addr list"
  methods :: "addr \<Rightarrow> ext_method"
  variableOutputMethod :: addr
  variableOutputLogged :: bool

type_synonym ioreturn = u32

definition kIOReturnSuccess :: ioreturn where "kIOReturnSuccess = 0"
definition kIOReturnUnsupported :: ioreturn where "kIOReturnUnsupported = 0xe00002c7"
definition kIOReturnNotFound :: ioreturn where "kIOReturnNotFound = 0xe00002f0"
definition kAMDTimingValidationFailure :: ioreturn where "kAMDTimingValidationFailure = 0xe00002bc"
definition kAMDTimingUnsupportedFailure :: ioreturn where "kAMDTimingUnsupportedFailure = 0xe00002c7"
definition kAGDCRegisterCallback :: u32 where "kAGDCRegisterCallback = 0x923"
definition kAGDCValidateDetailedTiming :: u32 where "kAGDCValidateDetailedTiming = 10"
definition kVariableOutputSelector :: u32 where "kVariableOutputSelector = 6003"
definition kVariableOutputNormalizedSelector :: u32 where "kVariableOutputNormalizedSelector = 2"
definition kIOUCTypeMask :: u32 where "kIOUCTypeMask = 0xf"
definition kIOUCScalarIStructO :: u32 where "kIOUCScalarIStructO = 2"
definition kIOUCStructIStructO :: u32 where "kIOUCStructIStructO = 3"
definition kIOUCVariableStructureSize :: u64 where "kIOUCVariableStructureSize = 0xffffffff"

definition getProperty :: "addr \<Rightarrow> string \<Rightarrow> hook_state \<Rightarrow> io_property option" where
  "getProperty e key h = io_props (registry h e) key"

definition setProperty :: "addr \<Rightarrow> string \<Rightarrow> io_property \<Rightarrow> hook_state \<Rightarrow> hook_state" where
  "setProperty e key v h =
     h\<lparr>registry := (registry h)(e := (registry h e)\<lparr>io_props := (io_props (registry h e))(key \<mapsto> v)\<rparr>)\<rparr>"

section \<open>Accelerator properties\<close>

definition ensureBooleanProperty :: "addr \<Rightarrow> string \<Rightarrow> bool \<Rightarrow> hook_state \<Rightarrow> bool \<times> hook_state" where
  "ensureBooleanProperty entry key v h =
     (if entry = 0 then (False, h)
      else if getProperty entry key h = Some (OSBool v) then (False, h)
      else (True, setProperty entry key (OSBool v) h))"

definition prime_one :: "addr \<Rightarrow> hook_state \<Rightarrow> bool \<times> hook_state" where
  "prime_one s h =
     (let (c1, h1) = ensureBooleanProperty s ''LoadAccelerator'' True h;
          (c2, h2) = ensureBooleanProperty s ''LoadHWServices'' True h1
      in (c1 \<or> c2, h2))"

definition is_pci :: "addr \<Rightarrow> hook_state \<Rightarrow> bool" where
  "is_pci s h \<longleftrightarrow> getProperty s ''vendor-id'' h \<noteq> None \<and> getProperty s ''device-id'' h \<noteq> None"

text \<open>Up the provider chain to the PCI device; the result is that device (0 if there is none).\<close>

partial_function (option) prime_chain :: "addr \<Rightarrow> bool \<Rightarrow> hook_state \<Rightarrow> (addr \<times> bool \<times> hook_state) option" where
  "prime_chain current changed h =
     (if current = 0 then Some (0, changed, h)
      else
        (let c = prime_one current h in
         if is_pci current (snd c) then Some (current, changed \<or> fst c, snd c)
         else prime_chain (io_provider (registry (snd c) current)) (changed \<or> fst c) (snd c)))"

declare prime_chain.simps [code]

definition primeAMDLoadProperties :: "nvram_args \<Rightarrow> addr \<Rightarrow> hook_state \<Rightarrow> hook_state option" where
  "primeAMDLoadProperties a service h =
     (if \<not> enableAMDAccelPrime a then Some h
      else if service = 0 then Some h
      else do {
        (pci, changed, h1) \<leftarrow> prime_chain service False h;
        Some (if \<not> changed \<or> pci = 0 then h1 else h1\<lparr>reprobed := reprobed h1 @ [pci]\<rparr>)
      })"

text \<open>\<open>ok\<close> says whether each of the two string allocations succeeds.\<close>

definition setAMDAccelGVAProperties :: "bool \<times> bool \<Rightarrow> addr \<Rightarrow> hook_state \<Rightarrow> hook_state" where
  "setAMDAccelGVAProperties ok s h =
     (if s = 0 then h
      else case getProperty s ''IOGVACodec'' h of
             Some (OSStr codec) \<Rightarrow>
               if take 3 codec \<noteq> ''AMD'' then h
               else
                 (let h1 = (if getProperty s ''IOGVAHEVCDecode'' h = None \<and> fst ok
                            then setProperty s ''IOGVAHEVCDecode'' (OSStr ''1'') h else h)
                  in if getProperty s ''IOGVAHEVCEncode'' h1 = None \<and> snd ok
                     then setProperty s ''IOGVAHEVCEncode'' (OSStr ''1'') h1 else h1)
           | _ \<Rightarrow> setProperty s ''IOGVACodec'' (OSStr ''VCE'') h)"

section \<open>The hooks\<close>

definition thunderboltShouldSkipEnumeration :: "kern_env \<Rightarrow> int" where
  "thunderboltShouldSkipEnumeration env = (if skipThunderboltEnum env then 1 else 0)"

definition intelFBClientDoAttribute :: "(hook_state \<Rightarrow> ioreturn \<times> hook_state) option \<Rightarrow> u32 \<Rightarrow> hook_state
    \<Rightarrow> ioreturn \<times> hook_state" where
  "intelFBClientDoAttribute org attribute h =
     (if attribute = kAGDCRegisterCallback then (kIOReturnUnsupported, h)
      else case org of None \<Rightarrow> (kIOReturnUnsupported, h) | Some f \<Rightarrow> f h)"

definition intelFramebufferGetOnlineInfo :: "(hook_state \<Rightarrow> ioreturn \<times> hook_state) option \<Rightarrow> addr \<Rightarrow> hook_state
    \<Rightarrow> ioreturn \<times> hook_state" where
  "intelFramebufferGetOnlineInfo org displayConnected h =
     (let (ret, h1) = (case org of None \<Rightarrow> (kIOReturnSuccess, h) | Some f \<Rightarrow> f h)
      in if displayConnected \<noteq> 0 \<and> hmem h1 displayConnected = 0
         then (ret, h1\<lparr>hmem := (hmem h1)(displayConnected := 1)\<rparr>) else (ret, h1))"

definition amd9500FindProjectByPartNumber :: "nvram_args \<Rightarrow> addr \<Rightarrow> hook_state \<Rightarrow> (ioreturn \<times> hook_state) option" where
  "amd9500FindProjectByPartNumber a controller h =
     map_option (\<lambda>h1. (kIOReturnNotFound, h1)) (primeAMDLoadProperties a controller h)"

definition amdSupportTestVRAM :: "nvram_args \<Rightarrow> addr \<Rightarrow> hook_state \<Rightarrow> (bool \<times> hook_state) option" where
  "amdSupportTestVRAM a controller h =
     map_option (\<lambda>h1. (True, h1)) (primeAMDLoadProperties a controller h)"

definition amdRadeonPopulateAccelConfig :: "(hook_state \<Rightarrow> hook_state) option \<Rightarrow> bool \<times> bool \<Rightarrow> addr \<Rightarrow> hook_state \<Rightarrow> hook_state" where
  "amdRadeonPopulateAccelConfig org ok s h =
     setAMDAccelGVAProperties ok s (case org of None \<Rightarrow> h | Some f \<Rightarrow> f h)"

text \<open>
  The common part of the two shared user client hooks after the original returned a method:
  a structure output of fixed size is relaxed in a copy of the method.
\<close>

definition relax_method :: "addr \<Rightarrow> u32 \<Rightarrow> hook_state \<Rightarrow> addr \<times> hook_state" where
  "relax_method mth index h =
     (let em = methods h mth; type = em_flags em AND kIOUCTypeMask in
      if index \<noteq> kVariableOutputSelector \<and> index \<noteq> kVariableOutputNormalizedSelector then (mth, h)
      else if type \<noteq> kIOUCScalarIStructO \<and> type \<noteq> kIOUCStructIStructO then (mth, h)
      else if em_count1 em = kIOUCVariableStructureSize then (mth, h)
      else (variableOutputMethod h,
            h\<lparr>methods := (methods h)(variableOutputMethod h := em\<lparr>em_count1 := kIOUCVariableStructureSize\<rparr>)\<rparr>))"

definition amdAccelSharedUserClientGetTargetAndMethodForIndex ::
    "(hook_state \<Rightarrow> addr \<times> hook_state) option \<Rightarrow> u32 \<Rightarrow> hook_state \<Rightarrow> addr \<times> hook_state" where
  "amdAccelSharedUserClientGetTargetAndMethodForIndex org index h =
     (case org of
        None \<Rightarrow> (0, h)
      | Some f \<Rightarrow>
          (let (mth, h1) = f h in
           if mth = 0 then (0, h1)
           else
             (let h2 = (if index = kVariableOutputSelector \<or> index = kVariableOutputNormalizedSelector
                        then h1\<lparr>variableOutputLogged := True\<rparr> else h1)
              in relax_method mth index h2)))"

definition ioAccelSharedUserClientGetTargetAndMethodForIndex ::
    "(hook_state \<Rightarrow> addr \<times> hook_state) option \<Rightarrow> u32 \<Rightarrow> hook_state \<Rightarrow> addr \<times> hook_state" where
  "ioAccelSharedUserClientGetTargetAndMethodForIndex org index h =
     (case org of
        None \<Rightarrow> (0, h)
      | Some f \<Rightarrow> (let (mth, h1) = f h in if mth = 0 then (0, h1) else relax_method mth index h1))"

text \<open>\<open>modeStatus\<close> is at byte 176 of the packed \<open>AGDCValidateDetailedTiming\<close>.\<close>

definition modeStatus :: "memory \<Rightarrow> addr \<Rightarrow> u32" where
  "modeStatus m cmd = load32 m (cmd + 176)"

definition set_modeStatus :: "addr \<Rightarrow> u32 \<Rightarrow> memory \<Rightarrow> memory" where
  "set_modeStatus cmd v m = write_bytes m (cmd + 176) (le_bytes 4 v)"

definition atiDeviceControlNotifyLinkChange :: "(hook_state \<Rightarrow> bool \<times> hook_state) option \<Rightarrow> nvram_args \<Rightarrow> addr \<Rightarrow> u32
    \<Rightarrow> addr \<Rightarrow> hook_state \<Rightarrow> (bool \<times> hook_state) option" where
  "atiDeviceControlNotifyLinkChange org a control event eventData h = do {
     let (ret, h1) = (case org of None \<Rightarrow> (False, h) | Some f \<Rightarrow> f h);
     h2 \<leftarrow> (if event \<in> {1, 2, 0x5b, 0x5d} then primeAMDLoadProperties a control h1 else Some h1);
     let status = modeStatus (hmem h2) eventData;
     Some (if event = kAGDCValidateDetailedTiming \<and> eventData \<noteq> 0 \<and> (\<not> ret \<or> status < 1 \<or> status > 3)
           then (True, h2\<lparr>hmem := set_modeStatus eventData 2 (hmem h2)\<rparr>)
           else (ret, h2))
   }"

definition amdFramebufferValidateDetailedTiming :: "(hook_state \<Rightarrow> ioreturn \<times> hook_state) option \<Rightarrow> u64 \<Rightarrow> hook_state
    \<Rightarrow> ioreturn \<times> hook_state" where
  "amdFramebufferValidateDetailedTiming org payloadSize h =
     (case org of
        None \<Rightarrow> (kIOReturnSuccess, h)
      | Some f \<Rightarrow>
          (let (ret, h1) = f h in
           if payloadSize = 0xCC \<and> (ret = kAMDTimingValidationFailure \<or> ret = kAMDTimingUnsupportedFailure)
           then (kIOReturnSuccess, h1) else (ret, h1)))"

definition forceLegacyAMDHdmiCapabilityMask :: u32 where
  "forceLegacyAMDHdmiCapabilityMask = 0"

definition amdBaffinGetCapabilities :: "addr \<Rightarrow> u32" where
  "amdBaffinGetCapabilities controller = forceLegacyAMDHdmiCapabilityMask"

end
