(* ===== verification/Patches.thy ===== *)
theory Patches
  imports Lilu_Api Hooks
begin

text \<open>
  Kryptonite's patches (\<open>kern_patches.cpp\<close>) and the applicator (\<open>kern_patchapplicator.cpp\<close>). Each patch is
  gated by the boot arguments and is a lookup patch or a route to one of the hooks. The plugin's
  state extends the API's with its boot arguments and its link-time addresses: the first of its
  \<open>KextInfo\<close>s, its hook functions and the variables that keep the functions they replace.
\<close>

section \<open>State\<close>

datatype hook = HThunderboltSkip | HIntelAttribute | HIntelOnline | HFindProject | HTestVRAM
  | HPopulateAccel | HAMDSharedClient | HIOAccelSharedClient | HNotifyLinkChange | HValidateTiming

record kryptonite = lilu +
  nvram :: nvram_args
  kextList :: nat
  hook_fn :: "hook \<Rightarrow> addr"
  hook_org :: "hook \<Rightarrow> addr"

section \<open>The applicator\<close>

definition PA_applyLookupPatch :: "lookup_patch \<Rightarrow> 'z patcher_scheme \<Rightarrow> 'z patcher_scheme option" where
  "PA_applyLookupPatch p st = do {
     st1 \<leftarrow> applyLookupPatch (Some p) 0 0 st;
     Some (if getError st1 \<noteq> NoError then clearError st1 else st1)
   }"

text \<open>The request is returned with the address it was solved to.\<close>

definition PA_applyRoutingPatch :: "nat \<Rightarrow> route_request \<Rightarrow> addr \<Rightarrow> u64 \<Rightarrow> 'z patcher_scheme
    \<Rightarrow> (route_request \<times> 'z patcher_scheme) option" where
  "PA_applyRoutingPatch i q address sz st = do {
     (routed, qs, st1) \<leftarrow> routeMultiple i [q] address sz True False st;
     Some (hd qs, if \<not> routed \<or> getError st1 \<noteq> NoError then clearError st1 else st1)
   }"

section \<open>Bytes\<close>

definition tb_old_find :: "byte list" where
  "tb_old_find =
     [0x49, 0x4f, 0x54, 0x68, 0x75, 0x6e, 0x64, 0x65, 0x72, 0x62, 0x6f, 0x6c, 0x74, 0x53, 0x77,
      0x69, 0x74, 0x63, 0x68, 0x54, 0x79, 0x70, 0x65, 0x33]"

definition tb_old_repl :: "byte \<Rightarrow> byte list" where
  "tb_old_repl tbSwitchTypeChar =
     [0x49, 0x4f, 0x54, 0x68, 0x75, 0x6e, 0x64, 0x65, 0x72, 0x62, 0x6f, 0x6c, 0x74, 0x53, 0x77,
      0x69, 0x74, 0x63, 0x68, 0x54, 0x79, 0x70, 0x65, tbSwitchTypeChar]"

definition tb_seq_find :: "byte list" where
  "tb_seq_find =
     [0x48, 0x83, 0xf8, 0x03, 0x72, 0x0a, 0x49, 0x8b, 0x06, 0xc6, 0x80, 0x78, 0x01, 0x00, 0x00,
      0x01]"

definition tb_seq_repl :: "byte \<Rightarrow> byte list" where
  "tb_seq_repl tbMinType =
     [0x48, 0x83, 0xf8, tbMinType, 0x72, 0x0a, 0x49, 0x8b, 0x06, 0xc6, 0x80, 0x78, 0x01, 0x00,
      0x00, 0x01]"

definition tb_new_find :: "byte list" where
  "tb_new_find =
     [0xf8, 0x03, 0x0f, 0x82, 0x78, 0xff, 0xff, 0xff, 0x49, 0x8b, 0x06, 0xc6, 0x80, 0x78, 0x01,
      0x00]"

definition tb_new_repl :: "byte list" where
  "tb_new_repl =
     [0xf8, 0x00, 0x0f, 0x82, 0x78, 0xff, 0xff, 0xff, 0x49, 0x8b, 0x06, 0xc6, 0x80, 0x78, 0x01,
      0x00]"

definition amd24_find :: "byte list" where
  "amd24_find =
     [0x2d, 0x2d, 0x52, 0x52, 0x52, 0x52, 0x52, 0x52, 0x52, 0x52, 0x52, 0x52, 0x47, 0x47, 0x47,
      0x47, 0x47, 0x47, 0x47, 0x47, 0x47, 0x47, 0x42, 0x42, 0x42, 0x42, 0x42, 0x42, 0x42, 0x42,
      0x42, 0x42]"

definition amd24_repl :: "byte list" where
  "amd24_repl =
     [0x2d, 0x2d, 0x2d, 0x2d, 0x2d, 0x2d, 0x2d, 0x2d, 0x52, 0x52, 0x52, 0x52, 0x52, 0x52, 0x52,
      0x52, 0x47, 0x47, 0x47, 0x47, 0x47, 0x47, 0x47, 0x47, 0x42, 0x42, 0x42, 0x42, 0x42, 0x42,
      0x42, 0x42]"

definition amd24_bitsFind :: "byte list" where
  "amd24_bitsFind =
     [0x05, 0x00, 0x00, 0x00, 0x08, 0x00, 0x00, 0x00, 0x0a, 0x00, 0x00, 0x00, 0x10, 0x00, 0x00,
      0x00, 0x10, 0x00, 0x00, 0x00]"

definition amd24_bitsRepl :: "byte list" where
  "amd24_bitsRepl =
     [0x05, 0x00, 0x00, 0x00, 0x08, 0x00, 0x00, 0x00, 0x08, 0x00, 0x00, 0x00, 0x10, 0x00, 0x00,
      0x00, 0x10, 0x00, 0x00, 0x00]"

definition surface_find :: "byte list" where
  "surface_find =
     [0x41, 0x83, 0xbd, 0xb0, 0x00, 0x00, 0x00, 0x00, 0x74, 0x5c]"

definition surface_repl :: "byte list" where
  "surface_repl =
     [0x45, 0x85, 0xe4, 0x74, 0x61, 0x85, 0xc9, 0x74, 0x5d, 0x90]"

definition tunnel_find :: "byte list" where
  "tunnel_find =
     [0x49, 0x4f, 0x50, 0x43, 0x49, 0x54, 0x75, 0x6e, 0x6e, 0x65, 0x6c, 0x6c, 0x65, 0x64]"

definition tunnel_repl :: "byte list" where
  "tunnel_repl =
     [0x49, 0x4f, 0x50, 0x43, 0x49, 0x54, 0x75, 0x6e, 0x6e, 0x65, 0x6c, 0x6c, 0x65, 0x71]"

definition agdp_vitFind :: "byte list" where
  "agdp_vitFind =
     [0xba, 0x05, 0x00, 0x00, 0x00]"

definition agdp_vitRepl :: "byte list" where
  "agdp_vitRepl =
     [0xba, 0x00, 0x00, 0x00, 0x00]"

definition agdp_pikFind :: "byte list" where
  "agdp_pikFind =
     [0x62, 0x6f, 0x61, 0x72, 0x64, 0x2d, 0x69, 0x64]"

definition agdp_pikRepl :: "byte list" where
  "agdp_pikRepl =
     [0x62, 0x6f, 0x61, 0x72, 0x64, 0x2d, 0x69, 0x78]"

definition mux_find :: "byte list" where
  "mux_find =
     [0x46, 0x41, 0x34, 0x43, 0x45, 0x32, 0x38, 0x44, 0x2d, 0x42, 0x36, 0x32, 0x46, 0x2d, 0x34,
      0x43, 0x39, 0x39, 0x2d, 0x39, 0x43, 0x43, 0x33, 0x2d, 0x36, 0x38, 0x31, 0x35, 0x36, 0x38,
      0x36, 0x45, 0x33, 0x30, 0x46, 0x39, 0x3a, 0x67, 0x70, 0x75, 0x2d, 0x70, 0x6f, 0x77, 0x65,
      0x72, 0x2d, 0x70, 0x72, 0x65, 0x66, 0x73]"

definition mux_repl :: "byte list" where
  "mux_repl =
     [0x46, 0x41, 0x34, 0x43, 0x45, 0x32, 0x38, 0x44, 0x2d, 0x42, 0x36, 0x32, 0x46, 0x2d, 0x34,
      0x43, 0x39, 0x39, 0x2d, 0x39, 0x43, 0x43, 0x33, 0x2d, 0x36, 0x38, 0x31, 0x35, 0x36, 0x38,
      0x36, 0x45, 0x33, 0x30, 0x46, 0x39, 0x3a, 0x67, 0x70, 0x75, 0x2d, 0x70, 0x6f, 0x77, 0x65,
      0x72, 0x2d, 0x70, 0x72, 0x65, 0x66, 0x71]"

definition seq_find :: "byte list" where
  "seq_find =
     [0x08, 0x00, 0x00, 0x00, 0x48, 0x04, 0x00, 0x00]"

definition seq_repl :: "byte list" where
  "seq_repl =
     [0x09, 0x00, 0x00, 0x00, 0x30, 0x05, 0x00, 0x00]"

definition iopci_old_find :: "byte list" where
  "iopci_old_find =
     [0xff, 0x90, 0xa8, 0x02, 0x00, 0x00, 0x48, 0x85, 0xc0, 0x0f, 0x84, 0xbc, 0x00, 0x00, 0x00]"

definition iopci_old_repl :: "byte list" where
  "iopci_old_repl =
     [0xff, 0x90, 0xa8, 0x02, 0x00, 0x00, 0x48, 0x85, 0xc0, 0x48, 0xe9, 0xbc, 0x00, 0x00, 0x00]"

definition iopci_seq_find :: "byte list" where
  "iopci_seq_find =
     [0xff, 0x90, 0xa8, 0x02, 0x00, 0x00, 0x48, 0x85, 0xc0, 0x0f, 0x84, 0xd1, 0x00, 0x00, 0x00]"

definition iopci_seq_repl :: "byte list" where
  "iopci_seq_repl =
     [0xff, 0x90, 0xa8, 0x02, 0x00, 0x00, 0x48, 0x85, 0xc0, 0x48, 0xe9, 0xd1, 0x00, 0x00, 0x00]"

definition iopci_find :: "byte list" where
  "iopci_find =
     [0xff, 0x90, 0xa8, 0x02, 0x00, 0x00, 0x48, 0x85, 0xc0, 0x0f, 0x84, 0xb9, 0x00, 0x00, 0x00]"

definition iopci_repl :: "byte list" where
  "iopci_repl =
     [0xff, 0x90, 0xa8, 0x02, 0x00, 0x00, 0x48, 0x85, 0xc0, 0x48, 0xe9, 0xb9, 0x00, 0x00, 0x00]"
definition whole_patch :: "nat \<Rightarrow> byte list \<Rightarrow> byte list \<Rightarrow> nat \<Rightarrow> lookup_patch" where
  "whole_patch kext fnd rep count =
     \<lparr>lp_kext = Some kext, lp_find = fnd, lp_replace = rep, lp_size = length fnd, lp_count = count\<rparr>"

section \<open>Gates\<close>

definition shouldSkipPatch :: "nvram_args \<Rightarrow> bool \<Rightarrow> bool" where
  "shouldSkipPatch a skipToggle \<longleftrightarrow> probeMode a \<or> skipAllPatches a \<or> skipToggle"

definition shouldSkipAMDCompatibilityPatch :: "nvram_args \<Rightarrow> bool" where
  "shouldSkipAMDCompatibilityPatch a \<longleftrightarrow>
     \<not> isAMD a \<or> \<not> enableAMDCompatibilityPatch a \<or> probeMode a \<or> skipAllPatches a"

definition Patches_init :: "kern_env \<Rightarrow> 'z kryptonite_scheme \<Rightarrow> 'z kryptonite_scheme" where
  "Patches_init env st = st\<lparr>nvram := NVRAMArgs_init env (nvram st)\<rparr>"

section \<open>Lookup patches\<close>

definition tbMinType :: "nvram_args \<Rightarrow> byte" where
  "tbMinType a = (if isThunderbolt1 a then 1 else if isThunderbolt2 a then 2 else 3)"

definition tbSwitchTypeChar :: "nvram_args \<Rightarrow> byte" where
  "tbSwitchTypeChar a = (if isThunderbolt1 a then 0x31 else if isThunderbolt2 a then 0x32 else 0x33)"

text \<open>
  Two patches take their bytes from arrays that are declared in an inner block and searched for behind it,
  where C++ no longer says what they hold; \<open>dead_array\<close> of the environment does. Sizes are taken inside.
\<close>

definition behind_block :: "kern_env \<Rightarrow> lookup_patch \<Rightarrow> lookup_patch" where
  "behind_block env p = p\<lparr>lp_find := dead_array env (lp_find p), lp_replace := dead_array env (lp_replace p)\<rparr>"

definition unblock_patch :: "kern_env \<Rightarrow> nvram_args \<Rightarrow> nat \<Rightarrow> lookup_patch" where
  "unblock_patch env a kext = behind_block env
     (if isOlderKernel env then whole_patch kext tb_old_find (tb_old_repl (tbSwitchTypeChar a)) 1
      else if version_major env = Sequoia then whole_patch kext tb_seq_find (tb_seq_repl (tbMinType a)) 1
      else whole_patch kext tb_new_find tb_new_repl 1)"

definition unblockLegacyThunderbolt :: "kern_env \<Rightarrow> nat \<Rightarrow> 'z kryptonite_scheme \<Rightarrow> 'z kryptonite_scheme option" where
  "unblockLegacyThunderbolt env kext st =
     (let a = nvram st in
      if \<not> isAMD a then Some st
      else if shouldSkipPatch a (skipAGDCPatch a) then Some st
      else PA_applyLookupPatch (unblock_patch env a kext) st)"

definition bypassPCITunnelled :: "nat \<Rightarrow> 'z kryptonite_scheme \<Rightarrow> 'z kryptonite_scheme option" where
  "bypassPCITunnelled kext st =
     (let a = nvram st in
      if \<not> isNVDA a \<and> \<not> isAMD a then Some st
      else if shouldSkipPatch a (skipIOGFXPatch a) then Some st
      else PA_applyLookupPatch (whole_patch kext tunnel_find tunnel_repl 1) st)"

definition relaxGraphicsDevicePolicy :: "nat \<Rightarrow> 'z kryptonite_scheme \<Rightarrow> 'z kryptonite_scheme option" where
  "relaxGraphicsDevicePolicy kext st =
     (let a = nvram st in
      if \<not> isNVDA a \<and> \<not> isAMD a then Some st
      else if shouldSkipPatch a (skipAGDPPatch a) then Some st
      else do {
        st1 \<leftarrow> PA_applyLookupPatch (whole_patch kext agdp_vitFind agdp_vitRepl 1) st;
        PA_applyLookupPatch (whole_patch kext agdp_pikFind agdp_pikRepl 1) st1
      })"

definition iopci_patch :: "kern_env \<Rightarrow> nat \<Rightarrow> lookup_patch" where
  "iopci_patch env kext = behind_block env
     (if version_major env = HighSierra \<or> version_major env = Mojave
      then whole_patch kext iopci_old_find iopci_old_repl 1
      else if version_major env = Sequoia then whole_patch kext iopci_seq_find iopci_seq_repl 1
      else whole_patch kext iopci_find iopci_repl 1)"

definition bypassIOPCITunnelCompatible :: "kern_env \<Rightarrow> nat \<Rightarrow> 'z kryptonite_scheme \<Rightarrow> 'z kryptonite_scheme option" where
  "bypassIOPCITunnelCompatible env kext st =
     (if shouldSkipPatch (nvram st) (skipIOPCIPatch (nvram st)) then Some st
      else PA_applyLookupPatch (iopci_patch env kext) st)"

definition updateMuxControlNVRAMVar :: "nat \<Rightarrow> 'z kryptonite_scheme \<Rightarrow> 'z kryptonite_scheme option" where
  "updateMuxControlNVRAMVar kext st =
     (if shouldSkipPatch (nvram st) (skipMuxPatch (nvram st)) then Some st
      else PA_applyLookupPatch (whole_patch kext mux_find mux_repl 1) st)"

definition applySequoiaPatch :: "nat \<Rightarrow> 'z kryptonite_scheme \<Rightarrow> 'z kryptonite_scheme option" where
  "applySequoiaPatch kext st =
     (if shouldSkipPatch (nvram st) (skipSequoiaPatch (nvram st)) then Some st
      else if \<not> isSequoiaForced (nvram st) then Some st
      else PA_applyLookupPatch (whole_patch kext seq_find seq_repl 1) st)"

definition amd_gate :: "(nvram_args \<Rightarrow> bool) \<Rightarrow> nvram_args \<Rightarrow> bool" where
  "amd_gate enabled a \<longleftrightarrow> isAMD a \<and> enabled a \<and> \<not> probeMode a \<and> \<not> skipAllPatches a"

definition guardAMDIOSurfacePlaneInfo :: "nat \<Rightarrow> 'z kryptonite_scheme \<Rightarrow> 'z kryptonite_scheme option" where
  "guardAMDIOSurfacePlaneInfo kext st =
     (if \<not> amd_gate enableAMDIOSurfaceGuard (nvram st) then Some st
      else PA_applyLookupPatch (whole_patch kext surface_find surface_repl 1) st)"

text \<open>The walk over the zero-terminated table \<open>BITS_PER_COMPONENT\<close>, 10 becoming 8.\<close>

definition normalise_bits :: "addr \<Rightarrow> 'z patcher_scheme \<Rightarrow> 'z patcher_scheme option" where
  "normalise_bits p st =
     (if load32 (pmem st) p = 10 then do {
        (r, st1) \<leftarrow> kw_on st;
        if r = KERN_SUCCESS then do {
          st2 \<leftarrow> kstore p (le_bytes 4 (8 :: u32)) st1;
          (_, st3) \<leftarrow> kw_off st2;
          Some st3
        } else Some (clearError st1)
      } else Some st)"

partial_function (option) bits_loop :: "addr \<Rightarrow> 'z patcher_scheme \<Rightarrow> 'z patcher_scheme option" where
  "bits_loop p st =
     (if load32 (pmem st) p = 0 then Some st
      else normalise_bits p st \<bind> (\<lambda>st1. bits_loop (p + 4) st1))"

declare bits_loop.simps [code]

definition forceAMD24BitOutput :: "nat \<Rightarrow> addr \<Rightarrow> u64 \<Rightarrow> nat \<Rightarrow> 'z kryptonite_scheme \<Rightarrow> 'z kryptonite_scheme option" where
  "forceAMD24BitOutput index address sz kext st =
     (if \<not> amd_gate enableAMD24BitOutputClamp (nvram st) then Some st
      else do {
        (p, st1) \<leftarrow> solveSymbol_in index ''__ZL18BITS_PER_COMPONENT'' address sz False st;
        st2 \<leftarrow> (if p \<noteq> 0 then bits_loop p st1 else Some (clearError st1));
        st3 \<leftarrow> PA_applyLookupPatch (whole_patch kext amd24_find amd24_repl 2) st2;
        PA_applyLookupPatch (whole_patch kext amd24_bitsFind amd24_bitsRepl 2) st3
      })"

section \<open>Routes\<close>

definition hook_request :: "string \<Rightarrow> hook \<Rightarrow> 'z kryptonite_scheme \<Rightarrow> route_request" where
  "hook_request symbol hk st = RouteRequest symbol (hook_fn st hk) (hook_org st hk)"

definition route_hook :: "string \<Rightarrow> hook \<Rightarrow> nat \<Rightarrow> addr \<Rightarrow> u64 \<Rightarrow> 'z kryptonite_scheme \<Rightarrow> 'z kryptonite_scheme option" where
  "route_hook symbol hk index address sz st =
     map_option snd (PA_applyRoutingPatch index (hook_request symbol hk st) address sz st)"

definition disableIntelFramebufferAGDC :: "nat \<Rightarrow> addr \<Rightarrow> u64 \<Rightarrow> 'z kryptonite_scheme \<Rightarrow> 'z kryptonite_scheme option" where
  "disableIntelFramebufferAGDC index address sz st =
     (let a = nvram st in
      if \<not> enableIntelAGDCDisabler a \<or> probeMode a \<or> skipAllPatches a then Some st
      else do {
        (q, st1) \<leftarrow> PA_applyRoutingPatch index
            (hook_request ''__ZN20IntelFBClientControl24vendor_doDeviceAttributeEjPmmS0_S0_P25IOExternalMethodArguments''
               HIntelAttribute st) address sz st;
        if rr_from q \<noteq> 0 \<and> load64 (pmem st1) (hook_org st1 HIntelAttribute) \<noteq> 0 then Some st1
        else route_hook ''__ZN20IntelFBClientControl11doAttributeEjPmmS0_S0_P25IOExternalMethodArguments''
               HIntelAttribute index address sz (clearError st1)
      })"

definition forceIntelFramebufferOnlineDisplays :: "nat \<Rightarrow> addr \<Rightarrow> u64 \<Rightarrow> 'z kryptonite_scheme \<Rightarrow> 'z kryptonite_scheme option" where
  "forceIntelFramebufferOnlineDisplays index address sz st =
     (let a = nvram st in
      if \<not> enableIntelForceOnline a \<or> probeMode a \<or> skipAllPatches a then Some st
      else route_hook ''__ZN21AppleIntelFramebuffer13GetOnlineInfoEPhS0_PNS_15DisplayPortTypeEPbb''
             HIntelOnline index address sz st)"

definition bypassAMDProjectSelection :: "nat \<Rightarrow> addr \<Rightarrow> u64 \<Rightarrow> 'z kryptonite_scheme \<Rightarrow> 'z kryptonite_scheme option" where
  "bypassAMDProjectSelection index address sz st =
     (if shouldSkipAMDCompatibilityPatch (nvram st) then Some st
      else route_hook ''__ZN17AMD9500Controller23findProjectByPartNumberEP20ControllerProperties''
             HFindProject index address sz st)"

definition skipAMDVRAMTest :: "nat \<Rightarrow> addr \<Rightarrow> u64 \<Rightarrow> 'z kryptonite_scheme \<Rightarrow> 'z kryptonite_scheme option" where
  "skipAMDVRAMTest index address sz st =
     (if shouldSkipAMDCompatibilityPatch (nvram st) then Some st
      else route_hook ''__ZN13ATIController8TestVRAME13PCI_REG_INDEXb'' HTestVRAM index address sz st)"

definition stabiliseAMDAccelConfig :: "nat \<Rightarrow> addr \<Rightarrow> u64 \<Rightarrow> 'z kryptonite_scheme \<Rightarrow> 'z kryptonite_scheme option" where
  "stabiliseAMDAccelConfig index address sz st =
     (if shouldSkipAMDCompatibilityPatch (nvram st) then Some st
      else route_hook ''__ZN37AMDRadeonX4000_AMDGraphicsAccelerator19populateAccelConfigEP13IOAccelConfig''
             HPopulateAccel index address sz st)"

definition relaxAMDSharedUserClientOutputSizing :: "nat \<Rightarrow> addr \<Rightarrow> u64 \<Rightarrow> 'z kryptonite_scheme \<Rightarrow> 'z kryptonite_scheme option" where
  "relaxAMDSharedUserClientOutputSizing index address sz st =
     (if \<not> amd_gate enableAMDSharedUserClientVariableOutput (nvram st) then Some st
      else route_hook ''__ZN39AMDRadeonX4000_AMDAccelSharedUserClient26getTargetAndMethodForIndexEPP9IOServicej''
             HAMDSharedClient index address sz st)"

definition relaxIOAccelSharedUserClientOutputSizing :: "nat \<Rightarrow> addr \<Rightarrow> u64 \<Rightarrow> 'z kryptonite_scheme \<Rightarrow> 'z kryptonite_scheme option" where
  "relaxIOAccelSharedUserClientOutputSizing index address sz st =
     (if \<not> amd_gate enableAMDSharedUserClientVariableOutput (nvram st) then Some st
      else route_hook ''__ZN24IOAccelSharedUserClient226getTargetAndMethodForIndexEPP9IOServicej''
             HIOAccelSharedClient index address sz st)"

definition validateAMDDetailedTiming :: "nat \<Rightarrow> addr \<Rightarrow> u64 \<Rightarrow> 'z kryptonite_scheme \<Rightarrow> 'z kryptonite_scheme option" where
  "validateAMDDetailedTiming index address sz st =
     (if \<not> amd_gate enableAMDLinkValidationPatch (nvram st) then Some st
      else route_hook ''__ZN16AtiDeviceControl16notifyLinkChangeE31kAGDCRegisterLinkControlEvent_tmj''
             HNotifyLinkChange index address sz st)"

definition relaxAMDFramebufferTimingValidation :: "nat \<Rightarrow> addr \<Rightarrow> u64 \<Rightarrow> 'z kryptonite_scheme \<Rightarrow> 'z kryptonite_scheme option" where
  "relaxAMDFramebufferTimingValidation index address sz st =
     (if \<not> amd_gate enableAMDFramebufferValidationPatch (nvram st) then Some st
      else route_hook ''__ZN14AMDFramebuffer22validateDetailedTimingEPvy'' HValidateTiming index address sz st)"

definition routeThunderboltEnumeration :: "kern_env \<Rightarrow> nat \<Rightarrow> addr \<Rightarrow> u64 \<Rightarrow> 'z kryptonite_scheme \<Rightarrow> 'z kryptonite_scheme option" where
  "routeThunderboltEnumeration env index address sz st =
     (if shouldSkipPatch (nvram st) (skipTBRoutePatch (nvram st)) then Some st
      else if \<not> skipThunderboltEnum env then Some st
      else route_hook ''__ZN24IOThunderboltSwitchType321shouldSkipEnumerationEv'' HThunderboltSkip index address sz st)"

end
