(* ===== verification/Patcher_Frame.thy ===== *)
theory Patcher_Frame
  imports Patcher_Route Patcher_Lookup
begin

text \<open>
  What patching leaves alone: no route, lookup patch or symbol request changes the \<open>KextInfo\<close> objects or
  the fields that the API and a plugin add to the patcher.
\<close>

definition tables :: "'z patcher_scheme \<Rightarrow> (nat \<Rightarrow> kext_info) \<times> 'z" where
  "tables st = (kexts st, patcher.more st)"

lemma tables_updates [simp]:
  "tables (st\<lparr>mach := m\<rparr>) = tables st" "tables (st\<lparr>code := e\<rparr>) = tables st" "tables (st\<lparr>kinfos := ks\<rparr>) = tables st"
  "tables (st\<lparr>kpatches := v\<rparr>) = tables st" "tables (st\<lparr>patches := ps\<rparr>) = tables st"
  "tables (st\<lparr>tempExecutableMemoryOff := n\<rparr>) = tables st"
  "tables (clearError st) = tables st" "tables (setError e st) = tables st" "tables (set_kinfo i k st) = tables st"
  by (simp_all add: tables_def clearError_def setError_def set_kinfo_def)

lemma kw_on_tables: "kw_on st = Some (r, st') \<Longrightarrow> tables st' = tables st"
  by (auto simp: kw_on_def split: bind_splits)

lemma kw_off_tables: "kw_off st = Some (r, st') \<Longrightarrow> tables st' = tables st"
  by (auto simp: kw_off_def split: bind_splits)

lemma kstore_tables: "kstore a bs st = Some st' \<Longrightarrow> tables st' = tables st"
  by (auto simp: kstore_def split: bind_splits)

lemma Patch_create_tables: "Patch_create a bs st = (p, st') \<Longrightarrow> tables st' = tables st"
  by (auto simp: Patch_create_def kalloc_def Let_def split: prod.splits if_splits)

lemma Patch_deleter_tables: "Patch_deleter p st = Some st' \<Longrightarrow> tables st' = tables st"
  by (auto simp: Patch_deleter_def split: if_splits)

lemma Patch_patch_tables: "Patch_patch p st = Some st' \<Longrightarrow> tables st' = tables st"
  by (auto simp: Patch_patch_def kstore_tables split: bind_splits)

lemmas step_tables = kw_on_tables kw_off_tables kstore_tables Patch_create_tables Patch_deleter_tables Patch_patch_tables

lemma make_patches_tables: "make_patches jp st = (ps, st') \<Longrightarrow> tables st' = tables st"
  by (auto simp: make_patches_def Let_def dest!: step_tables split: prod.splits option.splits)

lemma delete_patches_tables: "delete_patches ps st = Some st' \<Longrightarrow> tables st' = tables st"
  by (auto simp: delete_patches_def dest!: step_tables split: prod.splits bind_splits)

lemma write_jump_tables: "write_jump fr absolute slot jp ps st = Some st' \<Longrightarrow> tables st' = tables st"
  by (auto simp: write_jump_def dest!: step_tables split: prod.splits bind_splits if_splits)

lemma push_patch_tables: "push_patch p st = (ok, st') \<Longrightarrow> tables st' = tables st"
  by (auto simp: push_patch_def split: prod.splits)

lemma erase_patch_tables: "erase_patch i st = Some st' \<Longrightarrow> tables st' = tables st"
  by (auto simp: erase_patch_def ev_erase_def dest!: step_tables split: prod.splits bind_splits if_splits)

lemma keep_patches_tables: "keep_patches ps st = Some (ok, st') \<Longrightarrow> tables st' = tables st"
  by (auto simp: keep_patches_def Let_def dest!: push_patch_tables erase_patch_tables split: prod.splits bind_splits if_splits)

lemmas jump_tables = step_tables make_patches_tables delete_patches_tables write_jump_tables keep_patches_tables

lemma bind_SomeE:
  assumes "x \<bind> f = Some y" obtains z where "x = Some z" and "f z = Some y"
  using assms by (cases x) auto

lemma if_SomeE:
  assumes "(if c then x else y) = Some z" obtains c "x = Some z" | "\<not> c" "y = Some z"
  using assms by (cases c) auto

lemma route_finish_tables:
  assumes "route_finish fr to absolute kernelRoute revertible org tr slot st = Some (r, st')"
  shows "tables st' = tables st"
proof -
  obtain st1 where st1: "(if org \<noteq> 0 then kstore org (le_bytes 8 tr) st else Some st) = Some st1"
    using assms unfolding route_finish_def by (elim bind_SomeE)
  then have t1: "tables st1 = tables st" by (auto dest: kstore_tables split: if_splits)
  obtain o1 a1 d1 st2 where m: "make_patches (jump_for (pmem st1) fr to absolute slot) st1 = ((o1, a1, d1), st2)"
    by (metis prod.collapse)
  note t2 = make_patches_tables [OF m]
  show ?thesis
    using assms t1 t2 unfolding route_finish_def st1 Let_def bind.simps m prod.case
    by (elim if_SomeE bind_SomeE) (auto dest!: jump_tables split: prod.splits elim!: if_SomeE bind_SomeE)
qed

lemma take_slot_tables: "take_slot info st = Some (a, st') \<Longrightarrow> tables st' = tables st"
  by (auto simp: take_slot_def split: option.splits bind_splits prod.splits)

lemma route_again_tables: "route_again prev pj w jt info st = Some (tr, slot, st') \<Longrightarrow> tables st' = tables st"
  by (auto simp: route_again_def Let_def dest!: take_slot_tables split: bind_splits if_splits)

lemma route_with_tables:
  assumes "\<And>fr n s a s'. mk fr n s = Some (a, s') \<Longrightarrow> tables s' = tables s"
  shows "route_with mk fr to w kernelRoute revertible jt info org st = Some (r, st') \<Longrightarrow> tables st' = tables st"
  by (auto simp: route_with_def route_fresh_def Let_def
      dest!: route_finish_tables route_again_tables take_slot_tables assms split: prod.splits bind_splits if_splits)

lemma route_plain_tables: "route_plain fr to revertible st = Some (r, st') \<Longrightarrow> tables st' = tables st"
  unfolding route_plain_def by (erule route_with_tables [rotated]) simp

lemma createTrampoline_tables: "createTrampoline f least ops st = Some (a, st') \<Longrightarrow> tables st' = tables st"
  by (auto simp: createTrampoline_def Let_def dest!: step_tables route_plain_tables split: prod.splits bind_splits if_splits)

lemma routeFunctionInternal_tables:
  "routeFunctionInternal fr to w kernelRoute revertible jt info org st = Some (r, st') \<Longrightarrow> tables st' = tables st"
  unfolding routeFunctionInternal_def by (erule route_with_tables [rotated]) (rule createTrampoline_tables)

lemma erase_inst_tables: "erase_inst a st = Some st' \<Longrightarrow> tables st' = tables st"
  by (auto simp: erase_inst_def dest!: step_tables split: bind_splits if_splits)

lemma erase_coverage_loop_tables: "erase_coverage_loop n limit sofar a st = Some st' \<Longrightarrow> tables st' = tables st"
  by (induction n arbitrary: sofar a st)
     (auto simp: Let_def dest!: erase_inst_tables split: bind_splits if_splits)

lemma patcher_solveSymbol_tables: "patcher_solveSymbol i symbol st = (a, st') \<Longrightarrow> tables st' = tables st"
  by (auto simp: patcher_solveSymbol_def Let_def split: option.splits if_splits)

lemma solveSymbol_in_tables: "solveSymbol_in i symbol start sz crash st = Some (a, st') \<Longrightarrow> tables st' = tables st"
  by (auto simp: solveSymbol_in_def dest!: patcher_solveSymbol_tables split: prod.splits if_splits)

lemma solve_requests_tables:
  "solve_requests i start sz force errs qs st = Some (go, errs', qs', st') \<Longrightarrow> tables st' = tables st"
proof (induction qs arbitrary: start sz force errs st go errs' qs' st')
  case (Cons q qs)
  show ?case using Cons.prems
    by (auto dest!: Cons.IH solveSymbol_in_tables patcher_solveSymbol_tables split: option.splits bind_splits if_splits)
qed simp

lemma route_requests_tables:
  "route_requests i kernelRoute force jump errs qs st = Some (ok, st') \<Longrightarrow> tables st' = tables st"
proof (induction qs arbitrary: force errs st)
  case (Cons q qs)
  show ?case using Cons.prems
    by (auto simp: eraseCoverageInstPrefix_def dest!: Cons.IH routeFunctionInternal_tables erase_coverage_loop_tables
        split: bind_splits if_splits)
qed simp

lemma routeMultiple_tables: "routeMultiple i qs start sz kernelRoute force st = Some (ok, qs', st') \<Longrightarrow> tables st' = tables st"
  by (auto simp: routeMultiple_def routeMultipleInternal_def dest!: solve_requests_tables route_requests_tables
      split: bind_splits if_splits)

lemma applyLookupPatch_tables: "applyLookupPatch p start sz st = Some st' \<Longrightarrow> tables st' = tables st"
  by (auto simp: applyLookupPatch_def Let_def dest!: step_tables split: option.splits prod.splits bind_splits if_splits)

end
