(* ===== verification/Patch_Set.thy ===== *)
theory Patch_Set
  imports Patches Patcher_Frame
begin

text \<open>
  The target kexts (\<open>kern_targetkexts.hpp\<close>), the patch set (\<open>kern_patchset.cpp\<close>) and the start of the
  plugin (\<open>kern_start.cpp\<close>, \<open>plugin_start.cpp\<close>).
\<close>

section \<open>Target kexts\<close>

definition targetKexts :: "string list" where
  "targetKexts =
     [''/System/Library/Extensions/AppleGraphicsControl.kext/Contents/PlugIns/AppleGPUWrangler.kext/Contents/MacOS/AppleGPUWrangler'',
      ''/System/Library/Extensions/IOGraphicsFamily.kext/IOGraphicsFamily'',
      ''/System/Library/Extensions/AppleGraphicsControl.kext/Contents/PlugIns/AppleMuxControl.kext/Contents/MacOS/AppleMuxControl'',
      ''/System/Library/Extensions/IOThunderboltFamily.kext/Contents/MacOS/IOThunderboltFamily'',
      ''/System/Library/Extensions/IOPCIFamily.kext/IOPCIFamily'',
      ''/System/Library/Extensions/AMDRadeonX4000.kext/Contents/MacOS/AMDRadeonX4000'',
      ''/System/Library/Extensions/AMDRadeonX4000HWServices.kext/Contents/MacOS/AMDRadeonX4000HWServices'',
      ''/System/Library/Extensions/AMD9500Controller.kext/Contents/MacOS/AMD9500Controller'',
      ''/System/Library/Extensions/AMDFramebuffer.kext/Contents/MacOS/AMDFramebuffer'',
      ''/System/Library/Extensions/AppleGraphicsControl.kext/Contents/PlugIns/AppleGraphicsDevicePolicy.kext/Contents/MacOS/AppleGraphicsDevicePolicy'',
      ''/System/Library/Extensions/AMDSupport.kext/Contents/MacOS/AMDSupport'']"

definition iopcifamilyKextPaths :: "string list" where
  "iopcifamilyKextPaths = [''/System/Library/Extensions/IOPCIFamily.kext/IOPCIFamily'',
     ''/System/Library/Extensions/IOPCIFamily.kext/Contents/MacOS/IOPCIFamily'']"

definition intelFramebufferCapriKextPaths :: "string list" where
  "intelFramebufferCapriKextPaths =
     [''/Library/Extensions/AppleIntelFramebufferCapri.kext/Contents/MacOS/AppleIntelFramebufferCapri'',
      ''/System/Library/Extensions/AppleIntelFramebufferCapri.kext/Contents/MacOS/AppleIntelFramebufferCapri'']"

definition amdSupportKextPaths :: "string list" where
  "amdSupportKextPaths = [''/System/Library/Extensions/AMDSupport.kext/Contents/MacOS/AMDSupport'']"

definition ioAcceleratorFamily2KextPaths :: "string list" where
  "ioAcceleratorFamily2KextPaths =
     [''/System/Library/Extensions/IOAcceleratorFamily2.kext/Contents/MacOS/IOAcceleratorFamily2'']"

definition kext_entry :: "string \<Rightarrow> string list \<Rightarrow> kext_info" where
  "kext_entry ident paths = \<lparr>ki_id = ident, ki_paths = paths, ki_Loaded = True, ki_Reloadable = False,
     ki_Disabled = False, ki_FSOnly = False, ki_FSFallback = False, ki_loadIndex = KextInfo_Unloaded\<rparr>"

text \<open>
  The path arrays: those of \<open>targetKexts\<close> start at element \<open>i\<close> but have the length of the whole
  array, so the code reads \<open>i\<close> pointers behind its end. What is there is the parameter \<open>beyond\<close>.
\<close>

definition target_paths :: "(nat \<Rightarrow> string) \<Rightarrow> nat \<Rightarrow> string list" where
  "target_paths beyond i = drop i targetKexts @ map beyond [0..<i]"

definition kextList_init :: "(nat \<Rightarrow> string) \<Rightarrow> kext_info list" where
  "kextList_init beyond =
     [kext_entry ''com.apple.AppleGPUWrangler'' (target_paths beyond 0),
      kext_entry ''com.apple.iokit.IOGraphicsFamily'' (target_paths beyond 1),
      kext_entry ''com.apple.driver.AppleMuxControl'' (target_paths beyond 2),
      kext_entry ''com.apple.iokit.IOThunderboltFamily'' (target_paths beyond 3),
      kext_entry ''com.apple.iokit.IOPCIFamily'' iopcifamilyKextPaths,
      kext_entry ''com.apple.kext.AMDRadeonX4000'' (target_paths beyond 5),
      kext_entry ''com.apple.kext.AMDRadeonX4000HWServices'' (target_paths beyond 6),
      kext_entry ''com.apple.kext.AMD9500Controller'' (target_paths beyond 7),
      kext_entry ''com.apple.kext.AMDFramebuffer'' (target_paths beyond 8),
      kext_entry ''com.apple.driver.AppleGraphicsDevicePolicy'' (target_paths beyond 9),
      kext_entry ''com.apple.driver.AppleIntelFramebufferCapri'' intelFramebufferCapriKextPaths,
      kext_entry ''com.apple.kext.AMDSupport'' amdSupportKextPaths,
      kext_entry ''com.apple.iokit.IOAcceleratorFamily2'' ioAcceleratorFamily2KextPaths]"

definition kextListSize :: nat where
  "kextListSize = 13"

section \<open>The patch set\<close>

text \<open>The guarded calls of one round of the loop, in the order of the code.\<close>

definition kext_is :: "nat \<Rightarrow> nat \<Rightarrow> 'z kryptonite_scheme \<Rightarrow> bool" where
  "kext_is i j st \<longleftrightarrow> ki_id (kexts st (kextList st + i)) = ki_id (kexts st (kextList st + j))"

definition when_kext :: "nat \<Rightarrow> nat \<Rightarrow> ('z kryptonite_scheme \<Rightarrow> 'z kryptonite_scheme option) \<Rightarrow> 'z kryptonite_scheme \<Rightarrow> 'z kryptonite_scheme option" where
  "when_kext i j act st = (if kext_is i j st then act st else Some st)"

definition process_entry :: "kern_env \<Rightarrow> nat \<Rightarrow> nat \<Rightarrow> addr \<Rightarrow> u64 \<Rightarrow> 'z kryptonite_scheme \<Rightarrow> 'z kryptonite_scheme option" where
  "process_entry env i index address sz st =
     (let k = kextList st + i in do {
        st \<leftarrow> when_kext i 0 (\<lambda>s. unblockLegacyThunderbolt env k s \<bind> bypassPCITunnelled k \<bind> applySequoiaPatch k) st;
        st \<leftarrow> when_kext i 1 (bypassPCITunnelled k) st;
        st \<leftarrow> when_kext i 9 (relaxGraphicsDevicePolicy k) st;
        st \<leftarrow> when_kext i 10 (\<lambda>s. disableIntelFramebufferAGDC index address sz s \<bind>
                                 forceIntelFramebufferOnlineDisplays index address sz) st;
        st \<leftarrow> when_kext i 11 (\<lambda>s. skipAMDVRAMTest index address sz s \<bind> validateAMDDetailedTiming index address sz) st;
        st \<leftarrow> when_kext i 5 (\<lambda>s. bypassPCITunnelled k s \<bind> stabiliseAMDAccelConfig index address sz \<bind>
                                guardAMDIOSurfacePlaneInfo k) st;
        st \<leftarrow> when_kext i 7 (bypassAMDProjectSelection index address sz) st;
        st \<leftarrow> when_kext i 8 (\<lambda>s. relaxAMDFramebufferTimingValidation index address sz s \<bind>
                                forceAMD24BitOutput index address sz k) st;
        st \<leftarrow> when_kext i 2 (updateMuxControlNVRAMVar k) st;
        st \<leftarrow> when_kext i 3 (routeThunderboltEnumeration env index address sz) st;
        when_kext i 4 (bypassIOPCITunnelCompatible env k) st
      })"

primrec process_entries :: "kern_env \<Rightarrow> nat list \<Rightarrow> nat \<Rightarrow> addr \<Rightarrow> u64 \<Rightarrow> 'z kryptonite_scheme \<Rightarrow> 'z kryptonite_scheme option" where
  "process_entries env [] index address sz st = Some st"
| "process_entries env (i # is) index address sz st =
     (if ki_loadIndex (kexts st (kextList st + i)) \<noteq> index then process_entries env is index address sz st
      else process_entry env i index address sz st \<bind> process_entries env is index address sz)"

definition PatchSet_processKext :: "kern_env \<Rightarrow> nat \<Rightarrow> addr \<Rightarrow> u64 \<Rightarrow> 'z kryptonite_scheme \<Rightarrow> 'z kryptonite_scheme option" where
  "PatchSet_processKext env index address sz st =
     map_option clearError (process_entries env [0..<kextListSize] index address sz st)"

text \<open>\<open>callback\<close> and \<open>self\<close> are the addresses of the registered lambda and of the patch set.\<close>

definition PatchSet_init :: "kern_env \<Rightarrow> addr \<Rightarrow> addr \<Rightarrow> 'z kryptonite_scheme \<Rightarrow> 'z kryptonite_scheme" where
  "PatchSet_init env callback self st =
     (let st1 = Patches_init env st in snd (onKextLoad (Some (kextList st1)) kextListSize callback self st1))"

section \<open>Starting the plugin\<close>

definition plugin_start :: "kern_env \<Rightarrow> addr \<Rightarrow> addr \<Rightarrow> 'z kryptonite_scheme \<Rightarrow> 'z kryptonite_scheme" where
  "plugin_start env callback self st = (if isUnsupported env then st else PatchSet_init env callback self st)"

definition CompatibilityVersion :: nat where
  "CompatibilityVersion = 120"

text \<open>
  The kernel extension's start function: its own \<open>startSuccess\<close> and debug flags are the first
  components. The registration happens while the API is held.
\<close>

definition plugin_kern_start :: "kern_env \<Rightarrow> nat \<Rightarrow> addr \<Rightarrow> addr \<Rightarrow> 'z kryptonite_scheme
    \<Rightarrow> (bool \<times> bool \<times> 'z kryptonite_scheme) option" where
  "plugin_kern_start env moduleVersion callback self st = do {
     (e, st1) \<leftarrow> requestAccess moduleVersion CompatibilityVersion False st;
     let (started, dbg, st2) =
       (if e = ApiNoError then
          (let (e2, dbg1) = shouldLoad env RunningNormal [''-krydisable''] [''-krydbg''] [''-krybeta''] HighSierra Sequoia st1;
               st3 = (if e2 = ApiNoError then plugin_start env callback self st1 else st1)
           in (e2 = ApiNoError, dbg1, snd (releaseAccess st3)))
        else (False, False, st1));
     Some (started, dbg \<or> checkKernelArgument env ''-krydbg'' \<or> checkKernelArgument env ''-liludbgall'', st2)
   }"

definition plugin_kern_stop :: "bool \<Rightarrow> kern_return" where
  "plugin_kern_stop started = (if started then KERN_FAILURE else KERN_SUCCESS)"

section \<open>A plugin at rest\<close>

text \<open>The kexts of the list are loaded, entry \<open>i\<close> as image \<open>Suc i\<close>; the hooks are behind each other.\<close>

definition rest_plugin :: "memory \<Rightarrow> mach_info list \<Rightarrow> nvram_args \<Rightarrow> kryptonite" where
  "rest_plugin m infos a = patcher.extend
     (bare_patcher m infos (\<lambda>i. if i < kextListSize then (kextList_init (\<lambda>_. []) ! i)\<lparr>ki_loadIndex := Suc i\<rparr> else kext_at [] 0))
     \<lparr>config = config0, access_locked = False, currentRunMode = 1, apiRequestsOver = False,
      patcherLoadedCallbacks = ev_empty, kextLoadedCallbacks = ev_empty, binaryLoadedCallbacks = ev_empty,
      entitlementRequestedCallbacks = ev_empty, storedKexts = ev_empty, storedProcs = ev_empty, storedBinaryMods = ev_empty,
      copyClientEntitlement_fn = 0xA00200, orgCopyClientEntitlement = 0xB00010,
      nvram = a, kextList = 0, hook_fn = (\<lambda>_. 0xC00000), hook_org = (\<lambda>_. 0xD00000)\<rparr>"

lemma rest_plugin_fields [simp]:
  "nvram (rest_plugin m infos a) = a" "kextList (rest_plugin m infos a) = 0"
  "i < kextListSize \<Longrightarrow> kexts (rest_plugin m infos a) i = (kextList_init (\<lambda>_. []) ! i)\<lparr>ki_loadIndex := Suc i\<rparr>"
  "pmem (rest_plugin m infos a) = m" "code (rest_plugin m infos a) = NoError"
  by (simp_all add: rest_plugin_def patcher.extend_def bare_patcher_def bare_machine_def)

section \<open>Nothing happens unless it is asked for\<close>

definition all_off :: "nvram_args \<Rightarrow> bool" where
  "all_off a \<longleftrightarrow> probeMode a \<or> skipAllPatches a"

lemma all_off_patches:
  assumes "all_off (nvram st)"
  shows "unblockLegacyThunderbolt env k st = Some st" "bypassPCITunnelled k st = Some st" "applySequoiaPatch k st = Some st"
    "relaxGraphicsDevicePolicy k st = Some st" "disableIntelFramebufferAGDC index address sz st = Some st"
    "forceIntelFramebufferOnlineDisplays index address sz st = Some st" "skipAMDVRAMTest index address sz st = Some st"
    "validateAMDDetailedTiming index address sz st = Some st" "stabiliseAMDAccelConfig index address sz st = Some st"
    "guardAMDIOSurfacePlaneInfo k st = Some st" "bypassAMDProjectSelection index address sz st = Some st"
    "relaxAMDFramebufferTimingValidation index address sz st = Some st" "forceAMD24BitOutput index address sz k st = Some st"
    "updateMuxControlNVRAMVar k st = Some st" "routeThunderboltEnumeration env index address sz st = Some st"
    "bypassIOPCITunnelCompatible env k st = Some st"
  using assms
  by (auto simp: all_off_def unblockLegacyThunderbolt_def bypassPCITunnelled_def applySequoiaPatch_def relaxGraphicsDevicePolicy_def
      disableIntelFramebufferAGDC_def forceIntelFramebufferOnlineDisplays_def skipAMDVRAMTest_def validateAMDDetailedTiming_def
      stabiliseAMDAccelConfig_def guardAMDIOSurfacePlaneInfo_def bypassAMDProjectSelection_def relaxAMDFramebufferTimingValidation_def
      forceAMD24BitOutput_def updateMuxControlNVRAMVar_def routeThunderboltEnumeration_def bypassIOPCITunnelCompatible_def
      shouldSkipPatch_def shouldSkipAMDCompatibilityPatch_def amd_gate_def Let_def)

lemma when_kext_id: "act st = Some st \<Longrightarrow> when_kext i j act st = Some st"
  by (simp add: when_kext_def)

text \<open>
  C30. With \<open>kryprobe\<close> or \<open>kryskipall\<close> set, whatever the other arguments say, loading a kext changes
  nothing: no byte of memory, no route, no patch; only a pending error code is cleared.
\<close>

theorem PatchSet_processKext_off:
  assumes "probeMode (nvram st) \<or> skipAllPatches (nvram st)"
  shows "PatchSet_processKext env index address sz st = Some (clearError st)"
proof -
  have "all_off (nvram st)" using assms by (simp add: all_off_def)
  then have e: "process_entry env i index address sz st = Some st" for i
    by (simp add: process_entry_def when_kext_id all_off_patches Let_def)
  have "process_entries env is index address sz st = Some st" for "is" by (induction "is") (simp_all add: e)
  then show ?thesis by (simp add: PatchSet_processKext_def)
qed

theorem PatchSet_processKext_off_witness:
  "PatchSet_processKext kc_env 2 0x200000 32 (rest_plugin (\<lambda>_. 0) [] (nvram_args0\<lparr>probeMode := True, gpu := ''AMD''\<rparr>)) =
     Some (clearError (rest_plugin (\<lambda>_. 0) [] (nvram_args0\<lparr>probeMode := True, gpu := ''AMD''\<rparr>)))"
  by (rule PatchSet_processKext_off) simp

lemma PA_applyLookupPatch_tables: "PA_applyLookupPatch p st = Some st' \<Longrightarrow> tables st' = tables st"
  by (auto simp: PA_applyLookupPatch_def dest!: applyLookupPatch_tables split: bind_splits if_splits)

lemma PA_applyRoutingPatch_tables: "PA_applyRoutingPatch i q address sz st = Some (q', st') \<Longrightarrow> tables st' = tables st"
  by (auto simp: PA_applyRoutingPatch_def dest!: routeMultiple_tables split: bind_splits if_splits)

lemma route_hook_tables: "route_hook symbol hk index address sz st = Some st' \<Longrightarrow> tables st' = tables st"
  by (auto simp: route_hook_def dest!: PA_applyRoutingPatch_tables)

lemma normalise_bits_tables: "normalise_bits p st = Some st' \<Longrightarrow> tables st' = tables st"
  by (auto simp: normalise_bits_def dest!: step_tables split: bind_splits if_splits)

lemma bits_loop_tables:
  assumes "bits_loop p st = Some st'"
  shows "tables st' = tables st"
  using assms
proof (rule bits_loop.raw_induct [of "\<lambda>p st st'. tables st' = tables st", rotated], goal_cases)
  case (1 f p st st')
  show ?case using 1(2) by (auto dest!: 1(1) dest: normalise_bits_tables split: bind_splits if_splits)
qed

lemmas action_tables = PA_applyLookupPatch_tables PA_applyRoutingPatch_tables route_hook_tables bits_loop_tables solveSymbol_in_tables

section \<open>The table of the patch set\<close>

text \<open>What is to be done for entry \<open>j\<close> of the list of kexts, in order.\<close>

definition kext_work :: "kern_env \<Rightarrow> nat \<Rightarrow> nat \<Rightarrow> nat \<Rightarrow> addr \<Rightarrow> u64 \<Rightarrow> ('z kryptonite_scheme \<Rightarrow> 'z kryptonite_scheme option) list" where
  "kext_work env j k index address sz =
     [[unblockLegacyThunderbolt env k, bypassPCITunnelled k, applySequoiaPatch k],
      [bypassPCITunnelled k],
      [updateMuxControlNVRAMVar k],
      [routeThunderboltEnumeration env index address sz],
      [bypassIOPCITunnelCompatible env k],
      [bypassPCITunnelled k, stabiliseAMDAccelConfig index address sz, guardAMDIOSurfacePlaneInfo k],
      [],
      [bypassAMDProjectSelection index address sz],
      [relaxAMDFramebufferTimingValidation index address sz, forceAMD24BitOutput index address sz k],
      [relaxGraphicsDevicePolicy k],
      [disableIntelFramebufferAGDC index address sz, forceIntelFramebufferOnlineDisplays index address sz],
      [skipAMDVRAMTest index address sz, validateAMDDetailedTiming index address sz],
      []] ! j"

primrec run_all :: "('s \<Rightarrow> 's option) list \<Rightarrow> 's \<Rightarrow> 's option" where
  "run_all [] st = Some st"
| "run_all (f # fs) st = f st \<bind> run_all fs"

lemma run_all_simps: "run_all [] = Some" "run_all (f # fs) = (\<lambda>st. f st \<bind> run_all fs)"
  by (simp_all add: fun_eq_iff)

lemma kext_work_tables:
  assumes "f \<in> set (kext_work env j k index address sz)" and "j < 13" and "f st = Some st'"
  shows "tables st' = tables st"
proof -
  have "j = 0 \<or> j = 1 \<or> j = 2 \<or> j = 3 \<or> j = 4 \<or> j = 5 \<or> j = 6 \<or> j = 7 \<or> j = 8 \<or> j = 9 \<or> j = 10 \<or> j = 11 \<or> j = 12"
    using assms(2) by arith
  then show ?thesis using assms(1,3)
    by (elim disjE) (auto simp: kext_work_def unblockLegacyThunderbolt_def bypassPCITunnelled_def applySequoiaPatch_def
      relaxGraphicsDevicePolicy_def disableIntelFramebufferAGDC_def forceIntelFramebufferOnlineDisplays_def skipAMDVRAMTest_def
      validateAMDDetailedTiming_def stabiliseAMDAccelConfig_def guardAMDIOSurfacePlaneInfo_def bypassAMDProjectSelection_def
      relaxAMDFramebufferTimingValidation_def forceAMD24BitOutput_def updateMuxControlNVRAMVar_def
      routeThunderboltEnumeration_def bypassIOPCITunnelCompatible_def Let_def dest!: action_tables split: bind_splits if_splits)
qed

lemma run_all_tables:
  assumes "\<And>f s s'. f \<in> set fs \<Longrightarrow> f s = Some s' \<Longrightarrow> tables s' = tables s" and "run_all fs st = Some st'"
  shows "tables st' = tables st"
  using assms
proof (induction fs arbitrary: st)
  case (Cons f fs)
  obtain s1 where f: "f st = Some s1" and r: "run_all fs s1 = Some st'" using Cons.prems(2) by (auto split: bind_splits)
  have "tables s1 = tables st" using Cons.prems(1) [of f, OF _ f] by simp
  moreover have "tables st' = tables s1" by (rule Cons.IH [OF _ r]) (use Cons.prems(1) in auto)
  ultimately show ?case by simp
qed simp


section \<open>Dispatch\<close>

lemma when_kext_miss: "\<not> kext_is i j st \<Longrightarrow> when_kext i j act st = Some st"
  by (simp add: when_kext_def)

lemma when_kext_hit: "kext_is i j st \<Longrightarrow> when_kext i j act st = act st"
  by (simp add: when_kext_def)

text \<open>The identifiers are read from the tables, which no patch changes.\<close>

lemma kext_is_tables: "tables st' = tables st \<Longrightarrow> kext_is i j st' = kext_is i j st"
  by (cases st, cases st') (simp add: kext_is_def tables_def)


definition ids_distinct :: "'z kryptonite_scheme \<Rightarrow> bool" where
  "ids_distinct st \<longleftrightarrow> (\<forall>i < kextListSize. \<forall>j < kextListSize. kext_is i j st \<longleftrightarrow> i = j)"

lemma run_misses:
  assumes "\<And>j. j \<in> set js \<Longrightarrow> \<not> kext_is i j st"
  shows "run_all (map (\<lambda>j. when_kext i j (act j)) js) st = Some st"
  using assms by (induction js) (simp_all add: when_kext_def)

lemma run_dispatch:
  assumes "ids_distinct st" and "i < kextListSize" and "set js \<subseteq> {..<kextListSize}" and "distinct js"
    and "\<And>s s'. act i s = Some s' \<Longrightarrow> tables s' = tables s"
  shows "run_all (map (\<lambda>j. when_kext i j (act j)) js) st = (if i \<in> set js then act i st else Some st)"
  using assms(3,4)
proof (induction js)
  case (Cons j js)
  show ?case
  proof (cases "i = j")
    case True
    have "run_all (map (\<lambda>j. when_kext i j (act j)) js) s = Some s" if "act i st = Some s" for s
      by (rule run_misses) (use assms(1,2) Cons.prems True kext_is_tables [OF assms(5) [OF that]] in \<open>auto simp: ids_distinct_def\<close>)
    moreover have "kext_is i j st" using True assms(1,2) by (auto simp: ids_distinct_def)
    ultimately show ?thesis using True by (cases "act i st") (simp_all add: when_kext_hit)
  next
    case False
    then have "\<not> kext_is i j st" using assms(1,2) Cons.prems by (auto simp: ids_distinct_def)
    then show ?thesis using False Cons by (simp add: when_kext_miss)
  qed
qed simp

lemma process_entry_run:
  "process_entry env i index address sz st =
     run_all (map (\<lambda>j. when_kext i j (run_all (kext_work env j (kextList st + i) index address sz))) [0, 1, 9, 10, 11, 5, 7, 8, 2, 3, 4]) st"
  by (simp add: process_entry_def kext_work_def run_all_simps Let_def bind_assoc)

lemma process_entry_work:
  assumes "ids_distinct st" and "i < kextListSize"
  shows "process_entry env i index address sz st = run_all (kext_work env i (kextList st + i) index address sz) st"
proof -
  have t: "tables s' = tables s" if "run_all (kext_work env i (kextList st + i) index address sz) s = Some s'" for s s'
    by (rule run_all_tables [OF _ that]) (erule kext_work_tables, use assms(2) in \<open>simp_all add: kextListSize_def\<close>)
  have "run_all (kext_work env i (kextList st + i) index address sz) st = Some st"
    if "i \<notin> set [0, 1, 9, 10, 11, 5, 7, 8, 2, 3, 4]"
  proof -
    have "i = 6 \<or> i = 12" using that assms(2) by (simp add: kextListSize_def) arith
    then show ?thesis by (auto simp: kext_work_def)
  qed
  then show ?thesis unfolding process_entry_run
    by (subst run_dispatch) (use assms t in \<open>auto simp: kextListSize_def\<close>)
qed


lemma process_entries_skip:
  assumes "\<And>i. i \<in> set is \<Longrightarrow> ki_loadIndex (kexts st (kextList st + i)) \<noteq> index"
  shows "process_entries env is index address sz st = Some st"
  using assms by (induction "is") simp_all

lemma process_entries_append:
  "process_entries env (is @ js) index address sz st = process_entries env is index address sz st \<bind> process_entries env js index address sz"
proof (induction "is" arbitrary: st)
  case (Cons i "is")
  then show ?case by (cases "process_entry env i index address sz st") simp_all
qed simp

text \<open>The first \<open>n\<close> entries split at \<open>i\<close>.\<close>

lemma upt_split: "i < n \<Longrightarrow> [0..<n] = [0..<i] @ i # [Suc i..<n]"
  using upt_add_eq_append [of 0 i "n - i"] by (simp add: upt_conv_Cons)

definition kexts_listed :: "(nat \<Rightarrow> string) \<Rightarrow> 'z kryptonite_scheme \<Rightarrow> bool" where
  "kexts_listed beyond st \<longleftrightarrow>
     (\<forall>i < kextListSize. ki_id (kexts st (kextList st + i)) = ki_id (kextList_init beyond ! i))"

lemma kextList_ids: "distinct (map ki_id (kextList_init beyond)) \<and> length (kextList_init beyond) = kextListSize"
  by (simp add: kextList_init_def kext_entry_def kextListSize_def)

lemma kexts_listed_distinct: "kexts_listed beyond st \<Longrightarrow> ids_distinct st"
  using kextList_ids [of beyond] by (auto simp: kexts_listed_def ids_distinct_def kext_is_def distinct_conv_nth) blast

text \<open>
  C18. A kext that was loaded gets exactly the patches meant for it: when entry \<open>i\<close> of the list is the one
  with the given load index, \<open>processKext\<close> runs the actions of its row of the table one after the other, and
  nothing else, and clears the error. The table is over the identifiers of \<open>kextList\<close>.
\<close>

theorem PatchSet_processKext_dispatch:
  assumes "kexts_listed beyond st" and "i < kextListSize"
    and "\<And>j. j < kextListSize \<Longrightarrow> ki_loadIndex (kexts st (kextList st + j)) = index \<longleftrightarrow> j = i"
  shows "PatchSet_processKext env index address sz st =
     map_option clearError (run_all (kext_work env i (kextList st + i) index address sz) st)"
proof -
  let ?w = "run_all (kext_work env i (kextList st + i) index address sz) st"
  have e: "process_entry env i index address sz st = ?w"
    by (rule process_entry_work [OF kexts_listed_distinct [OF assms(1)] assms(2)])
  have tail: "process_entries env [Suc i..<kextListSize] index address sz s = Some s" if "?w = Some s" for s
  proof -
    have "tables s = tables st"
      by (rule run_all_tables [OF _ that]) (erule kext_work_tables, use assms(2) in \<open>simp_all add: kextListSize_def\<close>)
    then have "kexts s = kexts st \<and> kextList s = kextList st" by (cases s, cases st) (simp add: tables_def)
    then show ?thesis by (intro process_entries_skip) (use assms(3) in auto)
  qed
  have "process_entries env [0..<i] index address sz st = Some st"
    by (rule process_entries_skip) (use assms(2,3) in auto)
  moreover have "ki_loadIndex (kexts st (kextList st + i)) = index" using assms(2,3) by blast
  ultimately have "process_entries env [0..<kextListSize] index address sz st = ?w"
    using e tail by (cases ?w) (simp_all add: upt_split [OF assms(2)] process_entries_append)
  then show ?thesis by (simp add: PatchSet_processKext_def)
qed

theorem PatchSet_processKext_dispatch_witness:
  "PatchSet_processKext kc_env 2 0x200000 32 (rest_plugin (\<lambda>_. 0) [] (nvram_args0\<lparr>gpu := ''AMD''\<rparr>)) =
     map_option clearError (bypassPCITunnelled 1 (rest_plugin (\<lambda>_. 0) [] (nvram_args0\<lparr>gpu := ''AMD''\<rparr>)))"
proof -
  let ?st = "rest_plugin (\<lambda>_. 0) [] (nvram_args0\<lparr>gpu := ''AMD''\<rparr>)"
  have "PatchSet_processKext kc_env 2 0x200000 32 ?st =
      map_option clearError (run_all (kext_work kc_env 1 (kextList ?st + 1) 2 0x200000 32) ?st)"
    by (rule PatchSet_processKext_dispatch [of "\<lambda>_. []"]) (auto simp: kexts_listed_def, auto simp: kextListSize_def)
  then show ?thesis by (simp add: kext_work_def run_all_simps)
qed

end
