(* ===== verification/Patches_Correct.thy ===== *)
theory Patches_Correct
  imports Patch_Set
begin

text \<open>
  What two of Kryptonite's patches do to the memory of a running system: the jump of the IOPCIFamily patch, read back
  with the patcher's own decoder, and the table that \<open>forceAMD24BitOutput\<close> rewrites.
\<close>

section \<open>What the patches do to the code they find\<close>

text \<open>The decoder on a conditional jump \<open>0F 84\<close>, and on the jump \<open>E9\<close> behind a REX prefix, wherever they are.\<close>

lemma jump_lookups: "hde_lookup DELTA_OPCODES 0x84 = 0x50" "hde_lookup 0 0xE9 = 0x50" 
  "hde_lookup DELTA_PREFIXES 0x84 = 0" by code_simp+

lemma hde_no_prefix:
  assumes "c = m a" "c \<notin> {0xf3, 0xf2, 0xf0, 0x26, 0x2e, 0x36, 0x3e, 0x64, 0x65, 0x66, 0x67}"
  shows "hde_prefixes m a 16 0 0 0 hs = (1, c, 0, hs)"
proof -
  have "hde_prefixes m a (Suc 15) 0 0 0 hs = (1, c, 0, hs)"
    unfolding hde_prefixes.simps(2) Let_def using assms by auto
  then show ?thesis by simp
qed

lemma jz_decode:
  assumes "m a = 0x0F" "m (a + 1) = 0x84"
  shows "hde64_disasm m a = hde_zero\<lparr>hs_len := 6, hs_opcode := 0x0F, hs_opcode2 := 0x84, hs_imm := ucast (load32 m (a + 2)),
     hs_flags := F_IMM32 OR F_RELATIVE\<rparr>"
proof -
  define hs where "hs = hde_zero\<lparr>hs_opcode := 0x0F, hs_opcode2 := 0x84\<rparr>"
  have r: "hde_rex m a (hde_prefixes m a 16 0 0 0 hde_zero) =
     (False, \<lparr>hd_p = 1, hd_c = 0x0F, hd_pref = 1, hd_op64 = False, hd_opcode = 0, hd_cflags = 0, hd_x = 0, hd_hs = hde_zero\<rparr>)"
    using hde_no_prefix [of "0x0F" m a hde_zero] assms(1) by (simp add: hde_rex_def PRE_NONE_def hde_zero_def)
  have o: "hde_opcode m a (hde_rex m a (hde_prefixes m a 16 0 0 0 hde_zero)) =
     \<lparr>hd_p = 2, hd_c = 0x84, hd_pref = 1, hd_op64 = False, hd_opcode = 0x84, hd_cflags = 0x50, hd_x = 0, hd_hs = hs\<rparr>"
    unfolding r using assms(2) by (simp add: hde_opcode_def hde_opcode_bytes_def hde_opcode_lookup_def hde_group_def hde_prefix_check_def
        Let_def jump_lookups hs_def C_ERROR_def C_GROUP_def)
  have b: "hde_body m a = \<lparr>hd_p = 6, hd_c = 0x84, hd_pref = 1, hd_op64 = False, hd_opcode = 0x84, hd_cflags = 0x50, hd_x = 0,
     hd_hs = hs\<lparr>hs_flags := F_IMM32 OR F_RELATIVE, hs_imm := ucast (load32 m (a + 2))\<rparr>\<rparr>"
    unfolding hde_body_def o by (simp add: Let_def C_MODRM_def PRE_LOCK_def hde_imms_def C_IMM_P66_def C_REL32_def PRE_66_def hde_imm32_def
       hs_or_def hs_def hde_zero_def)
  show ?thesis unfolding hde64_disasm_def b by (simp add: hde_done_def hs_def)
qed
lemma rex_jmp_decode:
  assumes "m a = 0x48" "m (a + 1) = 0xE9"
  shows "hde64_disasm m a = hde_zero\<lparr>hs_len := 6, hs_rex_w := 1, hs_opcode := 0xE9, hs_imm := ucast (load32 m (a + 2)),
     hs_flags := F_PREFIX_REX OR F_IMM32 OR F_RELATIVE\<rparr>"
proof -
  define hs where "hs = hde_zero\<lparr>hs_flags := F_PREFIX_REX, hs_rex_w := 1\<rparr>"
  have r: "hde_rex m a (hde_prefixes m a 16 0 0 0 hde_zero) =
     (False, \<lparr>hd_p = 2, hd_c = 0xE9, hd_pref = 1, hd_op64 = False, hd_opcode = 0, hd_cflags = 0, hd_x = 0, hd_hs = hs\<rparr>)"
    using hde_no_prefix [of "0x48" m a hde_zero] assms by (simp add: hde_rex_def PRE_NONE_def hde_zero_def Let_def hs_def hs_or_def)
  have o: "hde_opcode m a (hde_rex m a (hde_prefixes m a 16 0 0 0 hde_zero)) =
     \<lparr>hd_p = 2, hd_c = 0xE9, hd_pref = 1, hd_op64 = False, hd_opcode = 0xE9, hd_cflags = 0x50, hd_x = 0, hd_hs = hs\<lparr>hs_opcode := 0xE9\<rparr>\<rparr>"
    unfolding r using assms(2) by (simp add: hde_opcode_def hde_opcode_bytes_def hde_opcode_lookup_def hde_group_def hde_prefix_check_def
        Let_def jump_lookups hs_def C_ERROR_def C_GROUP_def hde_zero_def)
  have b: "hde_body m a = \<lparr>hd_p = 6, hd_c = 0xE9, hd_pref = 1, hd_op64 = False, hd_opcode = 0xE9, hd_cflags = 0x50, hd_x = 0,
     hd_hs = hs\<lparr>hs_opcode := 0xE9, hs_flags := F_PREFIX_REX OR F_IMM32 OR F_RELATIVE, hs_imm := ucast (load32 m (a + 2))\<rparr>\<rparr>"
    unfolding hde_body_def o by (simp add: Let_def C_MODRM_def PRE_LOCK_def hde_imms_def C_IMM_P66_def C_REL32_def PRE_66_def hde_imm32_def
       hs_or_def hs_def hde_zero_def or.assoc)
  show ?thesis unfolding hde64_disasm_def b by (simp add: hde_done_def hs_def hde_zero_def)
qed
lemma offset_small: "k < 2 ^ 64 \<Longrightarrow> offset a x = k \<longleftrightarrow> x = a + of_nat k"
  by (metis add_offset offset_add_nat)

lemma iopci_bytes:
  assumes "\<And>bs. dead_array env bs = bs"
  obtains d where "lp_find (iopci_patch env kext) = [0xff, 0x90, 0xa8, 0x02, 0x00, 0x00, 0x48, 0x85, 0xc0, 0x0f, 0x84, d, 0x00, 0x00, 0x00]"
    "lp_replace (iopci_patch env kext) = [0xff, 0x90, 0xa8, 0x02, 0x00, 0x00, 0x48, 0x85, 0xc0, 0x48, 0xe9, d, 0x00, 0x00, 0x00]"
proof -
  note defs = iopci_patch_def behind_block_def whole_patch_def iopci_old_find_def iopci_old_repl_def iopci_seq_find_def iopci_seq_repl_def
    iopci_find_def iopci_repl_def
  show ?thesis using assms that [of "if version_major env = HighSierra \<or> version_major env = Mojave then 0xBC
      else if version_major env = Sequoia then 0xD1 else 0xB9"] by (simp add: defs)
qed

text \<open>Writing the replacement over a match changes the two bytes of the opcode and nothing else.\<close>

lemma iopci_write:
  assumes "\<And>bs. dead_array env bs = bs" and "read_bytes m a 15 = lp_find (iopci_patch env kext)"
  shows "write_bytes m a (lp_replace (iopci_patch env kext)) = m(a + 9 := 0x48, a + 10 := 0xE9)"
proof
  fix x
  obtain d where d: "lp_find (iopci_patch env kext) = [0xff, 0x90, 0xa8, 0x02, 0x00, 0x00, 0x48, 0x85, 0xc0, 0x0f, 0x84, d, 0x00, 0x00, 0x00]"
    "lp_replace (iopci_patch env kext) = [0xff, 0x90, 0xa8, 0x02, 0x00, 0x00, 0x48, 0x85, 0xc0, 0x48, 0xe9, d, 0x00, 0x00, 0x00]"
    by (rule iopci_bytes [OF assms(1)])
  let ?n = "offset a x"
  have old: "m x = lp_find (iopci_patch env kext) ! ?n" if "?n < 15"
    using that arg_cong [OF assms(2), of "\<lambda>l. l ! ?n"] by (simp add: read_bytes_map)
  have places: "x = a + 9 \<longleftrightarrow> ?n = 9" "x = a + 10 \<longleftrightarrow> ?n = 10" using offset_small [of 9 a x] offset_small [of 10 a x] by auto
  have rl: "lp_replace (iopci_patch env kext) = (lp_find (iopci_patch env kext))[9 := 0x48, 10 := 0xE9]"
    and n: "length (lp_find (iopci_patch env kext)) = 15" by (simp_all add: d)
  show "write_bytes m a (lp_replace (iopci_patch env kext)) x = (m(a + 9 := 0x48, a + 10 := 0xE9)) x"
    unfolding rl using old places n by (auto simp: write_bytes_apply nth_list_update)
qed

text \<open>A lookup patch of one place, as the applicator applies it.\<close>

lemma PA_applyLookupPatch_once:
  assumes "window_ready (mach st)" and "ki_loadIndex (kexts st k) \<noteq> KextInfo_Unloaded"
    and "kinfo (ki_loadIndex (kexts st k)) st = Some info" and "getRunningPosition info = (base, sz)"
    and "lookup_range True base sz (length fnd) 0 0 = (cur, stop)" and "length rep = length fnd"
  shows "\<exists>st'. PA_applyLookupPatch (whole_patch k fnd rep 1) st = Some st' \<and> same_cpu (mach st) (mach st') \<and> getError st' = NoError \<and>
    ((\<forall>a. cur \<le> a \<and> a < stop \<longrightarrow> read_bytes (pmem st) a (length fnd) \<noteq> fnd) \<and> pmem st' = pmem st \<or>
     (\<exists>a. cur \<le> a \<and> a < stop \<and> read_bytes (pmem st) a (length fnd) = fnd \<and>
        (\<forall>b. cur \<le> b \<and> b < a \<longrightarrow> read_bytes (pmem st) b (length fnd) \<noteq> fnd) \<and> pmem st' = write_bytes (pmem st) a rep))"
proof -
  obtain ps mc where r: "applyLookupPatch (Some (whole_patch k fnd rep 1)) 0 0 st =
       Some (st\<lparr>mach := mc, code := if length ps = 1 then code st else MemoryIssue\<rparr>)"
    "same_cpu (mach st) mc" "replaced fnd rep stop cur (pmem st) ps (mem mc)" "length ps \<le> 1"
    "length ps < 1 \<longrightarrow> (\<forall>a. last (cur # ps) \<le> a \<and> a < stop \<longrightarrow> read_bytes (mem mc) a (length fnd) \<noteq> fnd)"
    using applyLookupPatch_run [of st "whole_patch k fnd rep 1" info base sz 0 0 cur stop] assms by (auto simp: whole_patch_def)
  have "(\<forall>a. cur \<le> a \<and> a < stop \<longrightarrow> read_bytes (pmem st) a (length fnd) \<noteq> fnd) \<and> mem mc = pmem st \<or>
     (\<exists>a. cur \<le> a \<and> a < stop \<and> read_bytes (pmem st) a (length fnd) = fnd \<and>
        (\<forall>b. cur \<le> b \<and> b < a \<longrightarrow> read_bytes (pmem st) b (length fnd) \<noteq> fnd) \<and> mem mc = write_bytes (pmem st) a rep)"
  proof (cases ps)
    case Nil
    then show ?thesis using r(3,5) by (auto elim: replaced_NilE)
  next
    case (Cons a qs)
    then have "qs = []" using r(4) by simp
    then show ?thesis using r(3) Cons by (auto elim!: replaced_ConsE replaced_NilE)
  qed
  then show ?thesis using r(1,2) by (auto simp: PA_applyLookupPatch_def getError_def clearError_def)
qed

text \<open>
  C31. The IOPCIFamily patch on a loaded kext, unless it is switched off, and as long as its arrays still hold their bytes
  behind the block that declares them: where the image holds the code that is looked
  for, the first match has its conditional jump turned into an unconditional one of the same length with the same
  displacement, as the patcher's own decoder reads the memory before and after, and two bytes change in all; where there
  is no match nothing changes. No error is left over.
\<close>

theorem bypassIOPCITunnelCompatible_jumps:
  assumes "window_ready (mach st)" and "\<not> shouldSkipPatch (nvram st) (skipIOPCIPatch (nvram st))"
    and "ki_loadIndex (kexts st kext) \<noteq> KextInfo_Unloaded" and "kinfo (ki_loadIndex (kexts st kext)) st = Some info"
    and "getRunningPosition info = (base, sz)" and "lookup_range True base sz 15 0 0 = (cur, stop)"
    and "\<And>bs. dead_array env bs = bs"
  shows "\<exists>st'. bypassIOPCITunnelCompatible env kext st = Some st' \<and> same_cpu (mach st) (mach st') \<and> getError st' = NoError \<and>
    ((\<forall>a. cur \<le> a \<and> a < stop \<longrightarrow> read_bytes (pmem st) a 15 \<noteq> lp_find (iopci_patch env kext)) \<and> pmem st' = pmem st \<or>
     (\<exists>a. cur \<le> a \<and> a < stop \<and> read_bytes (pmem st) a 15 = lp_find (iopci_patch env kext) \<and>
        (\<forall>b. cur \<le> b \<and> b < a \<longrightarrow> read_bytes (pmem st) b 15 \<noteq> lp_find (iopci_patch env kext)) \<and>
        pmem st' = (pmem st)(a + 9 := 0x48, a + 10 := 0xE9) \<and>
        (let old = hde64_disasm (pmem st) (a + 9); new = hde64_disasm (pmem st') (a + 9) in
         hs_opcode old = 0x0F \<and> hs_opcode2 old = 0x84 \<and> hs_opcode new = 0xE9 \<and> hs_flags new AND F_ERROR = 0 \<and>
         hs_len new = hs_len old \<and> hs_imm new = hs_imm old)))"
proof -
  let ?p = "iopci_patch env kext" and ?m = "pmem st"
  have p: "?p = whole_patch kext (lp_find ?p) (lp_replace ?p) 1" using assms(7) by (simp add: iopci_patch_def whole_patch_def behind_block_def)
  obtain d where d: "lp_find ?p = [0xff, 0x90, 0xa8, 0x02, 0x00, 0x00, 0x48, 0x85, 0xc0, 0x0f, 0x84, d, 0x00, 0x00, 0x00]"
    "lp_replace ?p = [0xff, 0x90, 0xa8, 0x02, 0x00, 0x00, 0x48, 0x85, 0xc0, 0x48, 0xe9, d, 0x00, 0x00, 0x00]"
    by (rule iopci_bytes [OF assms(7)])
  have n: "length (lp_find ?p) = 15" "length (lp_replace ?p) = length (lp_find ?p)" by (simp_all add: d)
  have jumps: "let old = hde64_disasm ?m (a + 9); new = hde64_disasm (?m(a + 9 := 0x48, a + 10 := 0xE9)) (a + 9) in
         hs_opcode old = 0x0F \<and> hs_opcode2 old = 0x84 \<and> hs_opcode new = 0xE9 \<and> hs_flags new AND F_ERROR = 0 \<and>
         hs_len new = hs_len old \<and> hs_imm new = hs_imm old" if "read_bytes ?m a 15 = lp_find ?p" for a
  proof -
    have "?m (a + 9) = 0x0F" "?m (a + 9 + 1) = 0x84"
      using arg_cong [OF that, of "\<lambda>l. l ! 9"] arg_cong [OF that, of "\<lambda>l. l ! 10"] by (simp_all add: read_bytes_map d add.assoc)
    note old = jz_decode [OF this]
    let ?m' = "?m(a + 9 := 0x48, a + 10 := 0xE9)"
    have "read_bytes ?m' (a + 9 + 2) 4 = read_bytes ?m (a + 9 + 2) 4"
    proof (rule read_bytes_cong)
      fix i :: nat assume "i < 4"
      then have "i = 0 \<or> i = 1 \<or> i = 2 \<or> i = 3" by presburger
      then show "?m' (a + 9 + 2 + of_nat i) = ?m (a + 9 + 2 + of_nat i)" by (auto simp: add.assoc)
    qed
    then have "?m' (a + 9) = 0x48" "?m' (a + 9 + 1) = 0xE9" "load32 ?m' (a + 9 + 2) = load32 ?m (a + 9 + 2)"
      by (simp_all add: add.assoc load32_def)
    then show ?thesis using rex_jmp_decode [of ?m' "a + 9"] old by (simp add: hde_zero_def F_ERROR_def F_PREFIX_REX_def F_IMM32_def F_RELATIVE_def)
  qed
  obtain st' where r: "PA_applyLookupPatch ?p st = Some st'" "same_cpu (mach st) (mach st')" "getError st' = NoError"
    and C: "(\<forall>a. cur \<le> a \<and> a < stop \<longrightarrow> read_bytes ?m a 15 \<noteq> lp_find ?p) \<and> pmem st' = ?m \<or>
     (\<exists>a. cur \<le> a \<and> a < stop \<and> read_bytes ?m a 15 = lp_find ?p \<and>
        (\<forall>b. cur \<le> b \<and> b < a \<longrightarrow> read_bytes ?m b 15 \<noteq> lp_find ?p) \<and> pmem st' = write_bytes ?m a (lp_replace ?p))"
    using PA_applyLookupPatch_once [OF assms(1,3,4,5) _ n(2), unfolded n(1), OF assms(6), folded p] by blast
  have "bypassIOPCITunnelCompatible env kext st = Some st'" using assms(2) r(1) by (simp add: bypassIOPCITunnelCompatible_def)
  moreover note C
  moreover have "pmem st' = ?m(a + 9 := 0x48, a + 10 := 0xE9)" if "read_bytes ?m a 15 = lp_find ?p" "pmem st' = write_bytes ?m a (lp_replace ?p)" for a
    using iopci_write [OF assms(7) that(1)] that(2) by simp
  ultimately show ?thesis using r(2,3) jumps by metis
qed

text \<open>A kext with the code the patch looks for, as entry 5 of the list and image 6.\<close>

definition iopci_memory :: memory where
  "iopci_memory = write_bytes (\<lambda>_. 0) 0x200010 iopci_find"

definition iopci_plugin :: kryptonite where
  "iopci_plugin = rest_plugin iopci_memory (replicate 7 (image_info ''kext'' 0x200000 64)) nvram_args0"

theorem bypassIOPCITunnelCompatible_jumps_witness:
  "\<exists>st' a. bypassIOPCITunnelCompatible kc_env 5 iopci_plugin = Some st' \<and> pmem st' = iopci_memory(a + 9 := 0x48, a + 10 := 0xE9) \<and>
     hs_opcode (hde64_disasm (pmem st') (a + 9)) = 0xE9"
proof -
  have w: "window_ready (mach iopci_plugin)" "pmem iopci_plugin = iopci_memory" "nvram iopci_plugin = nvram_args0"
    by (simp_all add: iopci_plugin_def)
       (simp add: rest_plugin_def patcher.extend_def bare_patcher_def window_ready_def cr0_honest_def bare_machine_def)
  have k: "ki_loadIndex (kexts iopci_plugin 5) = 6" by (simp add: iopci_plugin_def kextListSize_def)
  have i: "kinfo 6 iopci_plugin = Some (image_info ''kext'' 0x200000 64)"
    by (simp add: iopci_plugin_def rest_plugin_def patcher.extend_def bare_simps)
  have p: "getRunningPosition (image_info ''kext'' 0x200000 64) = (0x200000, 64)" by (simp add: bare_simps)
  have f: "read_bytes iopci_memory 0x200010 15 = lp_find (iopci_patch kc_env 5)"
  proof -
    have "length iopci_find = 15" by (simp add: iopci_find_def)
    then show ?thesis using read_write_bytes [of iopci_find "\<lambda>_. 0" "0x200010"]
      by (simp add: iopci_memory_def iopci_patch_def whole_patch_def behind_block_def kc_env_def HighSierra_def Mojave_def Sequoia_def)
  qed
  have dead_kc: "dead_array kc_env bs = bs" for bs by (simp add: kc_env_def)
  have r: "lookup_range True 0x200000 64 15 0 0 = (0x200000, 0x200031)" by (simp add: lookup_range_def)
  show ?thesis
    using bypassIOPCITunnelCompatible_jumps [of iopci_plugin 5 _ _ _ _ _ kc_env, OF w(1) _ _ _ p r] f k i w(2,3)
    by (auto simp: dead_kc shouldSkipPatch_def nvram_args0_def KextInfo_Unloaded_def Let_def)
qed

section \<open>The table of bits per component\<close>

lemma normalise_bits_ok:
  assumes "window_ready (mach st)"
  shows "\<exists>mc. normalise_bits p st = Some (st\<lparr>mach := mc\<rparr>) \<and> same_cpu (mach st) mc \<and> window_ready mc \<and>
    mem mc = (if load32 (pmem st) p = 10 then write_bytes (pmem st) p (le_bytes 4 (8 :: u32)) else pmem st)"
proof (cases "load32 (pmem st) p = 10")
  case True
  obtain m1 where m1: "kw_on st = Some (KERN_SUCCESS, st\<lparr>mach := m1\<rparr>)" "opened_from (mach st) m1" "mem m1 = pmem st"
    using kw_on_ok [OF assms] by blast
  obtain m2 where m2: "kstore p (le_bytes 4 (8 :: u32)) (st\<lparr>mach := m1\<rparr>) = Some (st\<lparr>mach := m2\<rparr>)" "opened_from (mach st) m2"
    "mem m2 = write_bytes (pmem st) p (le_bytes 4 (8 :: u32))"
    using kstore_ok [of "mach st" "st\<lparr>mach := m1\<rparr>" p "le_bytes 4 (8 :: u32)"] m1 by auto
  obtain m3 where "kw_off (st\<lparr>mach := m2\<rparr>) = Some (KERN_SUCCESS, st\<lparr>mach := m3\<rparr>)" "same_cpu (mach st) m3" "window_ready m3"
    "mem m3 = mem m2"
    using kw_off_ok [of "mach st" "st\<lparr>mach := m2\<rparr>"] m2(2) assms by auto
  then show ?thesis using True m1 m2 by (intro exI [of _ m3]) (simp add: normalise_bits_def)
qed (use assms in \<open>auto simp: normalise_bits_def intro!: exI [of _ "mach st"]\<close>)

lemma load32_cong: "(\<And>i. i < 4 \<Longrightarrow> m (a + of_nat i) = m' (a + of_nat i)) \<Longrightarrow> load32 m a = load32 m' a"
  using read_bytes_cong [of 4 m a m'] by (simp add: load32_def)

lemma offset_word: "k < 4 \<Longrightarrow> offset (p + 4) (p + of_nat k) = 2 ^ 64 - 4 + k"
proof -
  assume "k < 4"
  then have "k = 0 \<or> k = 1 \<or> k = 2 \<or> k = 3" by presburger
  then show ?thesis by (auto simp: offset_def unsigned_minus_1_eq_mask mask_eq_exp_minus_1)
qed

lemma load32_behind:
  assumes "\<And>x. 4 \<le> offset p x \<Longrightarrow> m' x = m x" and "4 * Suc i + 4 \<le> 2 ^ 64"
  shows "load32 m' (p + 4 + of_nat (4 * i)) = load32 m (p + of_nat (4 * Suc i))"
proof -
  have "load32 m' (p + of_nat (4 * Suc i)) = load32 m (p + of_nat (4 * Suc i))"
  proof (rule load32_cong, rule assms(1))
    fix k :: nat assume "k < 4"
    then have "offset p (p + of_nat (4 * Suc i + k)) = 4 * Suc i + k" using assms(2) by (intro offset_add_nat) simp
    then show "4 \<le> offset p (p + of_nat (4 * Suc i) + of_nat k)" by (simp add: add.assoc)
  qed
  then show ?thesis by (simp add: add.assoc)
qed

text \<open>
  C32. The walk of \<open>forceAMD24BitOutput\<close> over the table \<open>BITS_PER_COMPONENT\<close>, which a 0 ends: it returns, every 10 in the
  table has become 8, the other entries and all bytes outside of the table are as they were, and so is the processor.
\<close>

theorem bits_loop_normalises:
  assumes "window_ready (mach st)" and "\<And>i. i < n \<Longrightarrow> load32 (pmem st) (p + of_nat (4 * i)) \<noteq> 0"
    and "load32 (pmem st) (p + of_nat (4 * n)) = 0" and "4 * n + 4 \<le> 2 ^ 64"
  shows "\<exists>mc. bits_loop p st = Some (st\<lparr>mach := mc\<rparr>) \<and> same_cpu (mach st) mc \<and>
    (\<forall>i < n. load32 (mem mc) (p + of_nat (4 * i)) =
       (if load32 (pmem st) (p + of_nat (4 * i)) = 10 then 8 else load32 (pmem st) (p + of_nat (4 * i)))) \<and>
    (\<forall>x. 4 * n \<le> offset p x \<longrightarrow> mem mc x = pmem st x)"
  using assms
proof (induction n arbitrary: p st)
  case 0
  then show ?case by (subst bits_loop.simps) (auto intro!: exI [of _ "mach st"])
next
  case (Suc n)
  let ?m = "pmem st"
  obtain m1 where m1: "normalise_bits p st = Some (st\<lparr>mach := m1\<rparr>)" "same_cpu (mach st) m1" "window_ready m1"
    "mem m1 = (if load32 ?m p = 10 then write_bytes ?m p (le_bytes 4 (8 :: u32)) else ?m)"
    using normalise_bits_ok [OF Suc.prems(1)] by blast
  have out: "mem m1 x = ?m x" if "4 \<le> offset p x" for x using that by (simp add: m1(4) write_bytes_outside)
  have far: "load32 (mem m1) (p + 4 + of_nat (4 * i)) = load32 ?m (p + of_nat (4 * Suc i))" if "i \<le> n" for i
    using that Suc.prems(4) by (intro load32_behind out) simp_all
  have z: "load32 ?m p \<noteq> 0" using Suc.prems(2) [of 0] by simp
  have "\<exists>mc. bits_loop (p + 4) (st\<lparr>mach := m1\<rparr>) = Some (st\<lparr>mach := m1\<rparr>\<lparr>mach := mc\<rparr>) \<and> same_cpu (mach (st\<lparr>mach := m1\<rparr>)) mc \<and>
    (\<forall>i < n. load32 (mem mc) (p + 4 + of_nat (4 * i)) =
       (if load32 (pmem (st\<lparr>mach := m1\<rparr>)) (p + 4 + of_nat (4 * i)) = 10 then 8 else load32 (pmem (st\<lparr>mach := m1\<rparr>)) (p + 4 + of_nat (4 * i)))) \<and>
    (\<forall>x. 4 * n \<le> offset (p + 4) x \<longrightarrow> mem mc x = pmem (st\<lparr>mach := m1\<rparr>) x)"
  proof (rule Suc.IH)
    show "load32 (pmem (st\<lparr>mach := m1\<rparr>)) (p + 4 + of_nat (4 * i)) \<noteq> 0" if "i < n" for i
      using far [of i] Suc.prems(2) [of "Suc i"] that by simp
    show "load32 (pmem (st\<lparr>mach := m1\<rparr>)) (p + 4 + of_nat (4 * n)) = 0" using far [of n] Suc.prems(3) by simp
  qed (use m1(3) Suc.prems(4) in simp_all)
  then obtain mc where mc: "bits_loop (p + 4) (st\<lparr>mach := m1\<rparr>) = Some (st\<lparr>mach := mc\<rparr>)" "same_cpu m1 mc"
    "\<And>i. i < n \<Longrightarrow> load32 (mem mc) (p + 4 + of_nat (4 * i)) =
       (if load32 ?m (p + of_nat (4 * Suc i)) = 10 then 8 else load32 ?m (p + of_nat (4 * Suc i)))"
    "\<And>x. 4 * n \<le> offset (p + 4) x \<Longrightarrow> mem mc x = mem m1 x"
    using far by (auto simp del: of_nat_mult of_nat_Suc)
  have "load32 (mem mc) p = load32 (mem m1) p"
  proof (rule load32_cong, rule mc(4))
    fix k :: nat assume "k < 4"
    then show "4 * n \<le> offset (p + 4) (p + of_nat k)" using offset_word [of k p] Suc.prems(4) by simp
  qed
  then have first: "load32 (mem mc) p = (if load32 ?m p = 10 then 8 else load32 ?m p)"
    using load32_le_bytes [of "write_bytes ?m p (le_bytes 4 (8 :: u32))" p 8] read_write_bytes [of "le_bytes 4 (8 :: u32)" ?m p]
    by (simp add: m1(4))
  have "load32 (mem mc) (p + of_nat (4 * i)) = (if load32 ?m (p + of_nat (4 * i)) = 10 then 8 else load32 ?m (p + of_nat (4 * i)))"
    if "i < Suc n" for i
    using that first mc(3) [of "i - 1"] by (cases i) (simp_all add: add.assoc)
  moreover have "mem mc x = ?m x" if "4 * Suc n \<le> offset p x" for x
    using that out [of x] mc(4) [of x] offset_advance [of 4 p x] by simp
  moreover have "bits_loop p st = Some (st\<lparr>mach := mc\<rparr>)" using z m1(1) mc(1) by (subst bits_loop.simps) simp
  ultimately show ?case using same_cpu_trans [OF m1(2) mc(2)] by blast
qed

text \<open>A table of two entries, 8 and 10.\<close>

definition bits_patcher :: patcher where
  "bits_patcher = bare_patcher (write_bytes (\<lambda>_. 0) 0x300000 [8, 0, 0, 0, 10, 0, 0, 0]) [] (\<lambda>_. kext_at [] 0)"

theorem bits_loop_normalises_witness:
  "\<exists>mc. bits_loop 0x300000 bits_patcher = Some (bits_patcher\<lparr>mach := mc\<rparr>) \<and> load32 (mem mc) 0x300004 = 8"
proof -
  let ?st = bits_patcher
  have m: "pmem ?st = write_bytes (\<lambda>_. 0) 0x300000 [8, 0, 0, 0, 10, 0, 0, 0]" "window_ready (mach ?st)"
    by (simp_all add: bits_patcher_def bare_patcher_def bare_machine_def window_ready_def cr0_honest_def)
  have l: "load32 (pmem ?st) 0x300000 = 8" "load32 (pmem ?st) 0x300004 = 10" "load32 (pmem ?st) 0x300008 = 0" unfolding m by code_simp+
  have "load32 (pmem ?st) (0x300000 + of_nat (4 * i)) \<noteq> 0" if "i < 2" for i using that l by (cases i) auto
  from bits_loop_normalises [OF m(2), of 2, OF this] l(3) obtain mc where r: "bits_loop 0x300000 ?st = Some (?st\<lparr>mach := mc\<rparr>)"
    "\<forall>i < 2. load32 (mem mc) (0x300000 + of_nat (4 * i)) = (if load32 (pmem ?st) (0x300000 + of_nat (4 * i)) = 10 then 8
      else load32 (pmem ?st) (0x300000 + of_nat (4 * i)))" by auto
  have "load32 (mem mc) 0x300004 = 8" using r(2) [rule_format, of 1] l(2) by simp
  then show ?thesis using r(1) by blast
qed

end
