(* ===== verification/Route_Jumps.thy ===== *)
theory Route_Jumps
  imports Patcher_Route
begin

text \<open>
  The jumps of \<open>FunctionPatch\<close> and \<open>routeFunctionInternal\<close>: what is in memory once a jump is written,
  however it is written, and that \<open>readChain\<close> finds it there; the heap of patch objects; and the last
  phase of a route, which puts the jump in place and keeps or frees its patches.
\<close>

section \<open>Reading a jump back\<close>

lemma not_far_away: "\<not> far_away fr to \<Longrightarrow> fr + 5 + scast (ucast (to - (fr + 5)) :: u32) = to"
  by (simp add: far_away_def Let_def)

lemma readChain_small:
  assumes "read_bytes m fr 5 = SmallJumpPrefix # le_bytes 4 (ucast (to - (fr + 5)) :: u32)" and "\<not> far_away fr to"
  shows "readChain m fr = (to, Short)"
proof -
  have r: "read_bytes m fr 5 = [SmallJumpPrefix] @ le_bytes 4 (ucast (to - (fr + 5)) :: u32)" using assms(1) by simp
  have p: "m fr = SmallJumpPrefix" using read_bytes_prefix [OF r] by (simp add: numeral_nat)
  have d: "load32 m (fr + 1) = ucast (to - (fr + 5))" using read_bytes_prefix [OF r] by (intro load32_le_bytes) simp
  have "bit (load16 m fr) 1 = bit (m fr) 1"
    by (simp add: load16_def bit_le_word nth_read_bytes)
  then have "load16 m fr \<noteq> LongJumpPrefix" using p by (auto simp: LongJumpPrefix_def SmallJumpPrefix_def)
  then show ?thesis using p d not_far_away [OF assms(2)] by (simp add: readChain_def)
qed

lemma readChain_long:
  assumes "read_bytes m fr 14 = le_bytes 2 LongJumpPrefix @ le_bytes 4 (0 :: u32) @ le_bytes 8 to"
  shows "readChain m fr = (to, Long)"
proof -
  have a: "read_bytes m fr 2 = le_bytes 2 LongJumpPrefix"
    "read_bytes m (fr + 2) 12 = le_bytes 4 (0 :: u32) @ le_bytes 8 to"
    using read_bytes_prefix [OF assms] by simp_all
  have b: "read_bytes m (fr + 2) 4 = le_bytes 4 (0 :: u32)" "read_bytes m (fr + 6) 8 = le_bytes 8 to"
    using read_bytes_prefix [OF a(2)] by (simp_all add: add.commute)
  show ?thesis using load16_le_bytes [OF a(1)] load32_le_bytes [OF b(1)] load64_le_bytes [OF b(2)]
    by (simp add: readChain_def)
qed

text \<open>A medium jump reaches its slot when that is within 2 GiB; \<open>slot_near\<close> is what the code relies on.\<close>

definition slot_near :: "addr \<Rightarrow> addr \<Rightarrow> bool" where
  "slot_near fr slot \<longleftrightarrow> scast (ucast (slot - (fr + 6)) :: u32) = slot - (fr + 6)"

lemma readChain_medium:
  assumes "read_bytes m fr 6 = le_bytes 2 LongJumpPrefix @ le_bytes 4 (ucast (slot - (fr + 6)) :: u32)"
    and "read_bytes m slot 8 = le_bytes 8 to" and "slot_near fr slot"
  shows "readChain m fr = (to, if slot = fr + 6 then Long else Medium)"
proof -
  have a: "read_bytes m fr 2 = le_bytes 2 LongJumpPrefix"
    "read_bytes m (fr + 2) 4 = le_bytes 4 (ucast (slot - (fr + 6)) :: u32)"
    using read_bytes_prefix [OF assms(1)] by simp_all
  have n: "fr + 6 + scast (ucast (slot - (fr + 6)) :: u32) = slot" using assms(3) by (simp add: slot_near_def)
  have z: "(ucast (slot - (fr + 6)) :: u32) = 0 \<longleftrightarrow> slot = fr + 6"
    using n by (metis add.right_neutral diff_self scast_0 ucast_0)
  show ?thesis using load16_le_bytes [OF a(1)] load32_le_bytes [OF a(2)] load64_le_bytes [OF assms(2)] n z
    by (simp add: readChain_def)
qed

section \<open>Putting a jump in place\<close>

text \<open>The stores a jump amounts to, however it is written.\<close>

definition jump_parts :: "jump_patch \<Rightarrow> (addr \<times> byte list) list" where
  "jump_parts jp = (case jp_disp jp of None \<Rightarrow> [] | Some d \<Rightarrow> [d]) @ [jp_opcode jp, jp_argument jp]"

text \<open>\<open>holds_patch st p part\<close>: \<open>p\<close> points to a live patch that replaces \<open>part\<close>, over memory \<open>m\<close>.\<close>

definition holds_patch :: "(addr \<Rightarrow> patch_all option) \<Rightarrow> memory \<Rightarrow> addr \<Rightarrow> addr \<times> byte list \<Rightarrow> bool" where
  "holds_patch ps m p part \<longleftrightarrow>
     ps p = Some \<lparr>pt_address = fst part, pt_original = read_bytes m (fst part) (length (snd part)), pt_replaced = snd part\<rparr>"

abbreviation slot_apart :: "addr \<Rightarrow> addr \<Rightarrow> bool" where
  "slot_apart fr slot \<equiv> apart slot 8 fr 8"

lemma medium_value:
  assumes "slot_apart fr slot"
  shows "write_bytes (write_bytes m slot (le_bytes 8 to)) fr (jp_value (medium_jump m fr slot to)) =
    write_all m (jump_parts (medium_jump m fr slot to))"
proof -
  let ?m1 = "write_bytes m slot (le_bytes 8 to)"
  let ?arg = "le_bytes 4 (ucast (slot - (fr + 6)) :: u32)"
  have "read_bytes ?m1 (fr + 6) 2 = read_bytes m (fr + 6) 2"
    using apart_sub [OF assms, of 0 8 6 2] by (simp add: read_write_apart)
  then have v: "jp_value (medium_jump m fr slot to) =
      (le_bytes 2 LongJumpPrefix @ ?arg) @ read_bytes ?m1 (fr + of_nat (length (le_bytes 2 LongJumpPrefix @ ?arg))) 2"
    by (simp add: medium_jump_def Let_def)
  show ?thesis unfolding v by (subst write_bytes_keep) (simp_all add: jump_parts_def medium_jump_def write_bytes_append Let_def)
qed

lemma long_value:
  "write_bytes m fr (jp_value (long_jump m fr to)) = write_all m (jump_parts (long_jump m fr to))"
proof -
  let ?b = "le_bytes 2 LongJumpPrefix @ le_bytes 4 (0 :: u32)"
  have v: "jp_value (long_jump m fr to) = (?b @ le_bytes 8 to) @ read_bytes m (fr + of_nat (length (?b @ le_bytes 8 to))) 2"
    by (simp add: long_jump_def Let_def)
  have "write_bytes m fr (?b @ le_bytes 8 to) = write_bytes (write_bytes m (fr + 6) (le_bytes 8 to)) fr ?b"
  proof
    fix x
    have "offset (fr + 6) x = offset fr x - 6" if "6 \<le> offset fr x"
      using that unat_minus_u64 [of 6 "x - fr"] by (simp add: offset_def diff_diff_eq)
    moreover have "14 \<le> offset (fr + 6) x" if "offset fr x < 6"
    proof -
      have "offset fr x \<noteq> offset fr (fr + 6) + offset (fr + 6) x" using that by (simp add: offset_def)
      then show ?thesis using offset_trans [of fr "fr + 6" x] by (force simp: offset_def)
    qed
    ultimately show "write_bytes m fr (?b @ le_bytes 8 to) x = write_bytes (write_bytes m (fr + 6) (le_bytes 8 to)) fr ?b x"
      by (cases "offset fr x < 6") (auto simp: write_bytes_apply nth_append)
  qed
  then show ?thesis unfolding v
    by (subst write_bytes_keep) (simp_all add: jump_parts_def long_jump_def write_bytes_append Let_def)
qed

lemma small_value:
  "write_bytes m fr (jp_value (small_jump m fr to)) = write_all m (jump_parts (small_jump m fr to))"
proof -
  let ?b = "[SmallJumpPrefix] @ le_bytes 4 (ucast (to - (fr + 5)) :: u32)"
  have v: "jp_value (small_jump m fr to) = ?b @ read_bytes m (fr + of_nat (length ?b)) 3"
    by (simp add: small_jump_def Let_def)
  show ?thesis unfolding v by (subst write_bytes_keep) (simp_all add: jump_parts_def small_jump_def write_bytes_append Let_def)
qed

text \<open>Live patches for the parts, and what writing the jump leaves in memory.\<close>

definition holds_jump :: "(addr \<Rightarrow> patch_all option) \<Rightarrow> memory \<Rightarrow> addr \<times> addr \<times> addr \<Rightarrow> jump_patch \<Rightarrow> bool" where
  "holds_jump ps m ptrs jp \<longleftrightarrow> (case ptrs of (o1, a1, d1) \<Rightarrow>
     holds_patch ps m o1 (jp_opcode jp) \<and> holds_patch ps m a1 (jp_argument jp) \<and>
     (case jp_disp jp of None \<Rightarrow> d1 = 0 | Some d \<Rightarrow> holds_patch ps m d1 d))"

lemma holds_patch_run:
  assumes "holds_patch (patches st) m p part" and "opened_from m0 (mach st)"
  shows "\<exists>mc. Patch_patch p st = Some (st\<lparr>mach := mc\<rparr>) \<and> opened_from m0 mc \<and>
      mem mc = write_bytes (pmem st) (fst part) (snd part)"
  using Patch_patch_ok [OF assms(2)] assms(1) by (fastforce simp: holds_patch_def)

lemma holds_patches_run:
  assumes "holds_patch (patches st) m p part" and "holds_patch (patches st) m q part'" and "opened_from m0 (mach st)"
  shows "\<exists>mc. do { st1 \<leftarrow> Patch_patch p st; Patch_patch q st1 } = Some (st\<lparr>mach := mc\<rparr>) \<and> opened_from m0 mc \<and>
      mem mc = write_all (pmem st) [part, part']"
proof -
  obtain c1 where c1: "Patch_patch p st = Some (st\<lparr>mach := c1\<rparr>)" "opened_from m0 c1"
    "mem c1 = write_bytes (pmem st) (fst part) (snd part)"
    using holds_patch_run [OF assms(1,3)] by auto
  obtain c2 where "Patch_patch q (st\<lparr>mach := c1\<rparr>) = Some (st\<lparr>mach := c2\<rparr>)" "opened_from m0 c2"
    "mem c2 = write_bytes (mem c1) (fst part') (snd part')"
    using holds_patch_run [of "st\<lparr>mach := c1\<rparr>" m q part' m0] assms(2) c1(2) by auto
  then show ?thesis using c1 by (intro exI [of _ c2]) simp
qed

lemma write_jump_slot:
  assumes "opened_from m0 (mach st)" and "jp = medium_jump (pmem st) fr slot to"
    and "holds_jump (patches st) m ptrs jp" and "slot \<noteq> 0" and "slot_apart fr slot"
  shows "\<exists>mc. write_jump fr absolute slot jp ptrs st = Some (st\<lparr>mach := mc\<rparr>) \<and> opened_from m0 mc \<and>
     mem mc = write_all (pmem st) (jump_parts jp)"
proof -
  obtain o1 a1 d1 where ptrs: "ptrs = (o1, a1, d1)" by (cases ptrs) auto
  have h: "holds_patch (patches st) m o1 (jp_opcode jp)" "holds_patch (patches st) m a1 (jp_argument jp)"
    "holds_patch (patches st) m d1 (slot, le_bytes 8 to)"
    using assms(3) by (simp_all add: assms(2) ptrs holds_jump_def medium_jump_def Let_def)
  obtain c1 where c1: "Patch_patch d1 st = Some (st\<lparr>mach := c1\<rparr>)" "opened_from m0 c1"
    "mem c1 = write_bytes (pmem st) slot (le_bytes 8 to)" using holds_patch_run [OF h(3) assms(1)] by auto
  let ?st1 = "st\<lparr>mach := c1\<rparr>"
  have "jump_parts jp = [(slot, le_bytes 8 to), jp_opcode jp, jp_argument jp]"
    by (simp add: jump_parts_def assms(2) medium_jump_def Let_def)
  moreover obtain c2 where "kstore fr (jp_value jp) ?st1 = Some (st\<lparr>mach := c2\<rparr>)" "opened_from m0 c2"
    "mem c2 = write_bytes (mem c1) fr (jp_value jp)"
    using kstore_ok [of m0 ?st1 fr "jp_value jp"] c1(2) by auto
  moreover obtain c3 where "do { st1 \<leftarrow> Patch_patch o1 ?st1; Patch_patch a1 st1 } = Some (st\<lparr>mach := c3\<rparr>)" "opened_from m0 c3"
    "mem c3 = write_all (mem c1) [jp_opcode jp, jp_argument jp]"
    using holds_patches_run [of ?st1 m o1 "jp_opcode jp" a1 "jp_argument jp" m0] h c1(2) by auto
  ultimately show ?thesis using assms(4) c1 medium_value [OF assms(5), of "pmem st" to]
    by (cases "fr AND 7 = 0") (auto simp: write_jump_def ptrs assms(2))
qed

lemma write_jump_near:
  assumes "opened_from m0 (mach st)" and "jp = small_jump (pmem st) fr to" and "holds_jump (patches st) m ptrs jp"
  shows "\<exists>mc. write_jump fr False 0 jp ptrs st = Some (st\<lparr>mach := mc\<rparr>) \<and> opened_from m0 mc \<and>
     mem mc = write_all (pmem st) (jump_parts jp)"
proof -
  obtain o1 a1 d1 where ptrs: "ptrs = (o1, a1, d1)" by (cases ptrs) auto
  have h: "holds_patch (patches st) m o1 (jp_opcode jp)" "holds_patch (patches st) m a1 (jp_argument jp)"
    using assms(3) by (simp_all add: ptrs holds_jump_def)
  have "jump_parts jp = [jp_opcode jp, jp_argument jp]"
    by (simp add: jump_parts_def assms(2) small_jump_def Let_def)
  then show ?thesis using holds_patches_run [OF h assms(1)] kstore_ok [OF assms(1), of fr "jp_value jp"]
    small_value [of "pmem st" fr to]
    by (cases "fr AND 7 = 0") (auto simp: write_jump_def ptrs assms(2))
qed

lemma write_jump_far:
  assumes "opened_from m0 (mach st)" and "jp = long_jump (pmem st) fr to" and "holds_jump (patches st) m ptrs jp"
  shows "\<exists>mc. write_jump fr True 0 jp ptrs st = Some (st\<lparr>mach := mc\<rparr>) \<and> opened_from m0 mc \<and>
     mem mc = write_all (pmem st) (jump_parts jp)"
proof -
  obtain o1 a1 d1 where ptrs: "ptrs = (o1, a1, d1)" by (cases ptrs) auto
  have h: "holds_patch (patches st) m o1 (jp_opcode jp)" "holds_patch (patches st) m a1 (jp_argument jp)"
    "holds_patch (patches st) m d1 (fr + 6, le_bytes 8 to)"
    using assms(3) by (simp_all add: assms(2) ptrs holds_jump_def long_jump_def Let_def)
  obtain c1 where c1: "Patch_patch d1 st = Some (st\<lparr>mach := c1\<rparr>)" "opened_from m0 c1"
    "mem c1 = write_bytes (pmem st) (fr + 6) (le_bytes 8 to)" using holds_patch_run [OF h(3) assms(1)] by auto
  have "jump_parts jp = [(fr + 6, le_bytes 8 to), jp_opcode jp, jp_argument jp]"
    by (simp add: jump_parts_def assms(2) long_jump_def Let_def)
  moreover obtain c3 where "do { st1 \<leftarrow> Patch_patch o1 (st\<lparr>mach := c1\<rparr>); Patch_patch a1 st1 } = Some (st\<lparr>mach := c3\<rparr>)" "opened_from m0 c3"
    "mem c3 = write_all (mem c1) [jp_opcode jp, jp_argument jp]"
    using holds_patches_run [of "st\<lparr>mach := c1\<rparr>" m o1 "jp_opcode jp" a1 "jp_argument jp" m0] h c1(2) by auto
  ultimately show ?thesis using c1 kstore_ok [OF assms(1), of fr "jp_value jp"] long_value [of "pmem st" fr to]
    by (cases "fr AND 15 = 0") (auto simp: write_jump_def ptrs assms(2))
qed

section \<open>The heap of patches\<close>

text \<open>The next \<open>k\<close> allocations succeed and hand out addresses that are not in use.\<close>

definition heap_room :: "nat \<Rightarrow> 'z patcher_scheme \<Rightarrow> bool" where
  "heap_room k st \<longleftrightarrow> patches st 0 = None \<and>
     (\<forall>i < k. alloc_at (mach st) (alloc_no (mach st) + i) \<noteq> 0 \<and>
        patches st (alloc_at (mach st) (alloc_no (mach st) + i)) = None \<and>
        (\<forall>j < i. alloc_at (mach st) (alloc_no (mach st) + j) \<noteq> alloc_at (mach st) (alloc_no (mach st) + i)))"

lemma heap_room_mono:
  assumes "heap_room k st" and "alloc_at (mach st') = alloc_at (mach st)" and "patches st' = patches st"
    and "alloc_no (mach st) \<le> alloc_no (mach st')" and "alloc_no (mach st') + k' \<le> alloc_no (mach st) + k"
  shows "heap_room k' st'"
proof -
  obtain d where d: "alloc_no (mach st') = alloc_no (mach st) + d" using assms(4) le_Suc_ex by blast
  have "heap_room k' st' \<longleftrightarrow> patches st 0 = None \<and>
     (\<forall>i < k'. alloc_at (mach st) (alloc_no (mach st) + (d + i)) \<noteq> 0 \<and>
        patches st (alloc_at (mach st) (alloc_no (mach st) + (d + i))) = None \<and>
        (\<forall>j < i. alloc_at (mach st) (alloc_no (mach st) + (d + j)) \<noteq> alloc_at (mach st) (alloc_no (mach st) + (d + i))))"
    by (simp add: heap_room_def assms(2,3) d add.assoc)
  then show ?thesis using assms(1,5) unfolding heap_room_def d by simp
qed

definition patch_for :: "memory \<Rightarrow> addr \<times> byte list \<Rightarrow> patch_all" where
  "patch_for m part = \<lparr>pt_address = fst part, pt_original = read_bytes m (fst part) (length (snd part)), pt_replaced = snd part\<rparr>"

abbreviation next_alloc :: "'z patcher_scheme \<Rightarrow> addr" where
  "next_alloc st \<equiv> alloc_at (mach st) (alloc_no (mach st))"

definition with_patch :: "addr \<times> byte list \<Rightarrow> 'z patcher_scheme \<Rightarrow> 'z patcher_scheme" where
  "with_patch part st = st\<lparr>mach := (mach st)\<lparr>alloc_no := Suc (alloc_no (mach st))\<rparr>,
     patches := (patches st)(next_alloc st \<mapsto> patch_for (pmem st) part)\<rparr>"

lemma Patch_create_ok:
  assumes "heap_room (Suc k) st"
  shows "Patch_create (fst part) (snd part) st = (next_alloc st, with_patch part st)"
    and "next_alloc st \<noteq> 0" and "patches st (next_alloc st) = None" and "heap_room k (with_patch part st)"
proof -
  note h = assms [unfolded heap_room_def]
  show f: "patches st (next_alloc st) = None" and nz: "next_alloc st \<noteq> 0"
    using h by (metis add.right_neutral zero_less_Suc)+
  then show "Patch_create (fst part) (snd part) st = (next_alloc st, with_patch part st)"
    by (simp add: Patch_create_def kalloc_def allocate_def with_patch_def patch_for_def)
  have "alloc_at (mach st) (Suc (alloc_no (mach st) + i)) \<noteq> next_alloc st" if "i < k" for i
    using h that by (metis Suc_mono add.right_neutral add_Suc_right zero_less_Suc)
  moreover have "alloc_at (mach st) (Suc (alloc_no (mach st) + j)) \<noteq> alloc_at (mach st) (Suc (alloc_no (mach st) + i))"
    if "i < k" "j < i" for i j using h that by (metis Suc_mono add_Suc_right)
  moreover have "alloc_at (mach st) (Suc (alloc_no (mach st) + i)) \<noteq> 0 \<and> patches st (alloc_at (mach st) (Suc (alloc_no (mach st) + i))) = None"
    if "i < k" for i using h that by (metis Suc_mono add_Suc_right)
  ultimately show "heap_room k (with_patch part st)" using h nz by (auto simp: with_patch_def heap_room_def)
qed

lemma holds_patch_for: "holds_patch ps m p part \<longleftrightarrow> ps p = Some (patch_for m part)"
  by (simp add: holds_patch_def patch_for_def)

text \<open>The objects of a jump are fresh, apart from one another, and hold its parts.\<close>

definition fresh_jump :: "'z patcher_scheme \<Rightarrow> 'z patcher_scheme \<Rightarrow> addr \<times> addr \<times> addr \<Rightarrow> jump_patch \<Rightarrow> bool" where
  "fresh_jump st st' ptrs jp \<longleftrightarrow> (case ptrs of (o1, a1, d1) \<Rightarrow>
     holds_jump (patches st') (pmem st) ptrs jp \<and> distinct [0, o1, a1] \<and> d1 \<noteq> o1 \<and> d1 \<noteq> a1 \<and>
     (d1 = 0 \<longleftrightarrow> jp_disp jp = None) \<and> patches st' 0 = None \<and>
     (patches st')(o1 := None, a1 := None, d1 := None) = patches st)"

lemma fresh_jump_two:
  assumes "heap_room 2 st" and "jp_disp jp = None"
  defines "s1 \<equiv> with_patch (jp_opcode jp) st"
  defines "s2 \<equiv> with_patch (jp_argument jp) s1"
  shows "make_patches jp st = ((next_alloc st, next_alloc s1, 0), s2) \<and> fresh_jump st s2 (next_alloc st, next_alloc s1, 0) jp"
proof -
  have h: "heap_room (Suc (Suc 0)) st" using assms(1) by (simp add: numeral_2_eq_2)
  note o1 = Patch_create_ok(1,4) [OF h, of "jp_opcode jp", folded s1_def] Patch_create_ok(2,3) [OF h]
  note a1 = Patch_create_ok(1,4) [OF o1(2), of "jp_argument jp", folded s2_def] Patch_create_ok(2,3) [OF o1(2)]
  have "patches st 0 = None" "patches s2 0 = None" using h a1(2) by (simp_all add: heap_room_def)
  then show ?thesis using o1 a1 assms(2)
    by (auto simp: make_patches_def fresh_jump_def holds_jump_def holds_patch_for s1_def s2_def with_patch_def split: if_splits)
qed

lemma fresh_jump_three:
  assumes "heap_room 3 st" and "jp_disp jp = Some d"
  defines "s1 \<equiv> with_patch (jp_opcode jp) st"
  defines "s2 \<equiv> with_patch (jp_argument jp) s1"
  defines "s3 \<equiv> with_patch d s2"
  shows "make_patches jp st = ((next_alloc st, next_alloc s1, next_alloc s2), s3) \<and>
    fresh_jump st s3 (next_alloc st, next_alloc s1, next_alloc s2) jp"
proof -
  have h: "heap_room (Suc (Suc (Suc 0))) st" using assms(1) by (simp add: numeral_3_eq_3)
  note o1 = Patch_create_ok(1,4) [OF h, of "jp_opcode jp", folded s1_def] Patch_create_ok(2,3) [OF h]
  note a1 = Patch_create_ok(1,4) [OF o1(2), of "jp_argument jp", folded s2_def] Patch_create_ok(2,3) [OF o1(2)]
  note d1 = Patch_create_ok(1,4) [OF a1(2), of d, folded s3_def] Patch_create_ok(2,3) [OF a1(2)]
  have "patches s3 0 = None" using d1(2) by (simp add: heap_room_def)
  then show ?thesis using o1 a1 d1 assms(2)
    by (auto simp: make_patches_def fresh_jump_def holds_jump_def holds_patch_for s1_def s2_def s3_def with_patch_def split: if_splits)
qed

lemma make_patches_ok:
  assumes "heap_room 3 st"
  shows "\<exists>ptrs st'. make_patches jp st = (ptrs, st') \<and>
    st' = st\<lparr>mach := (mach st)\<lparr>alloc_no := alloc_no (mach st')\<rparr>, patches := patches st'\<rparr> \<and>
    alloc_no (mach st) \<le> alloc_no (mach st') \<and> alloc_no (mach st') \<le> alloc_no (mach st) + 3 \<and>
    (\<forall>k. heap_room (k + 3) st \<longrightarrow> heap_room k st') \<and> fresh_jump st st' ptrs jp"
proof -
  let ?s1 = "with_patch (jp_opcode jp) st"
  let ?s2 = "with_patch (jp_argument jp) ?s1"
  have room: "heap_room k ?s2" "heap_room k (with_patch d ?s2)" if "heap_room (k + 3) st" for k d
  proof -
    have "heap_room (Suc (Suc (Suc k))) st" using that by (simp add: numeral_3_eq_3)
    then have "heap_room (Suc k) ?s2" by (intro Patch_create_ok(4))
    then show "heap_room k ?s2" "heap_room k (with_patch d ?s2)"
      by (auto intro: Patch_create_ok(4) heap_room_mono [of "Suc k" ?s2 ?s2 k])
  qed
  have eq: "?s2 = st\<lparr>mach := (mach st)\<lparr>alloc_no := alloc_no (mach ?s2)\<rparr>, patches := patches ?s2\<rparr>"
    "with_patch d ?s2 = st\<lparr>mach := (mach st)\<lparr>alloc_no := alloc_no (mach (with_patch d ?s2))\<rparr>, patches := patches (with_patch d ?s2)\<rparr>"
    "alloc_no (mach ?s2) = alloc_no (mach st) + 2" "alloc_no (mach (with_patch d ?s2)) = alloc_no (mach st) + 3" for d
    by (simp_all add: with_patch_def)
  show ?thesis
  proof (cases "jp_disp jp")
    case None
    have "heap_room 2 st" using heap_room_mono [OF assms, of st 2] by simp
    from fresh_jump_two [OF this None] eq(1,3) room(1) show ?thesis
      by (intro exI [of _ "(next_alloc st, next_alloc ?s1, 0)"] exI [of _ ?s2]) simp
  next
    case (Some d)
    from fresh_jump_three [OF assms Some] eq(2,4) [of d] room(2) show ?thesis
      by (intro exI [of _ "(next_alloc st, next_alloc ?s1, next_alloc ?s2)"] exI [of _ "with_patch d ?s2"]) simp
  qed
qed

lemma delete_patches_ok:
  assumes "fresh_jump st st' ptrs jp" and "patches st'' = patches st'"
  shows "delete_patches ptrs st'' = Some (st''\<lparr>patches := patches st\<rparr>)"
proof -
  obtain o1 a1 d1 where ptrs: "ptrs = (o1, a1, d1)" by (cases ptrs) auto
  have p: "patches st = (patches st')(o1 := None, a1 := None, d1 := None)"
    using assms(1) by (simp add: fresh_jump_def ptrs)
  have z: "(patches st')(o1 := None, a1 := None, 0 := None) = (patches st')(o1 := None, a1 := None)"
    using assms(1) by (intro ext) (simp add: fresh_jump_def ptrs)
  show ?thesis using assms
    by (cases "d1 = 0") (auto simp: ptrs p z delete_patches_def Patch_deleter_def fresh_jump_def holds_jump_def holds_patch_def split: option.splits)
qed

lemma push_patch_ok:
  assumes "next_alloc st \<noteq> 0"
  shows "\<exists>n r. push_patch p st = (True, st\<lparr>kpatches := \<lparr>ev_items = ev_items (kpatches st) @ [p], ev_rsvd = r\<rparr>, mach := (mach st)\<lparr>alloc_no := n\<rparr>\<rparr>) \<and>
    (n = alloc_no (mach st) \<or> n = Suc (alloc_no (mach st))) \<and> 0 < r"
proof (cases "ev_push_back 4 p (kpatches st) (mach st)")
  case (fields ok v mc)
  have c: "ok" "ev_items v = ev_items (kpatches st) @ [p]" "0 < ev_rsvd v"
    "mc = (mach st)\<lparr>alloc_no := alloc_no mc\<rparr>" "alloc_no mc = alloc_no (mach st) \<or> alloc_no mc = Suc (alloc_no (mach st))"
    using ev_push_back_cases [OF fields] assms by (auto split: if_splits)
  then have "v = \<lparr>ev_items = ev_items (kpatches st) @ [p], ev_rsvd = ev_rsvd v\<rparr>" by simp
  then have "push_patch p st = (True, st\<lparr>kpatches := \<lparr>ev_items = ev_items (kpatches st) @ [p], ev_rsvd = ev_rsvd v\<rparr>,
      mach := (mach st)\<lparr>alloc_no := alloc_no mc\<rparr>\<rparr>)"
    using fields c(1,4) by (simp add: push_patch_def)
  then show ?thesis using c(3,5) by blast
qed

lemma keep_patches_ok:
  assumes "\<forall>i < 3. alloc_at (mach st) (alloc_no (mach st) + i) \<noteq> 0"
  shows "\<exists>n r. keep_patches (o1, a1, d1) st = Some (True, st\<lparr>kpatches := \<lparr>ev_items = ev_items (kpatches st) @ [o1, a1] @ (if d1 \<noteq> 0 then [d1] else []),
      ev_rsvd = r\<rparr>, mach := (mach st)\<lparr>alloc_no := n\<rparr>\<rparr>) \<and> alloc_no (mach st) \<le> n \<and> n \<le> alloc_no (mach st) + 3 \<and> 0 < r"
proof -
  let ?at = "alloc_at (mach st)" and ?n = "alloc_no (mach st)"
  have al: "?at ?n \<noteq> 0" "?at (Suc ?n) \<noteq> 0" "?at (Suc (Suc ?n)) \<noteq> 0"
    using assms [rule_format, of 0] assms [rule_format, of 1] assms [rule_format, of 2] by simp_all
  obtain n1 r1 where 1: "push_patch o1 st = (True, st\<lparr>kpatches := \<lparr>ev_items = ev_items (kpatches st) @ [o1], ev_rsvd = r1\<rparr>, mach := (mach st)\<lparr>alloc_no := n1\<rparr>\<rparr>)"
    (is "_ = (True, ?s1)") "n1 = ?n \<or> n1 = Suc ?n" "0 < r1" using push_patch_ok [OF al(1)] by blast
  have al1: "next_alloc ?s1 \<noteq> 0" using al 1(2) by auto
  obtain n2 r2 where 2: "push_patch a1 ?s1 = (True, ?s1\<lparr>kpatches := \<lparr>ev_items = ev_items (kpatches ?s1) @ [a1], ev_rsvd = r2\<rparr>, mach := (mach ?s1)\<lparr>alloc_no := n2\<rparr>\<rparr>)"
    (is "_ = (True, ?s2)") "n2 = alloc_no (mach ?s1) \<or> n2 = Suc (alloc_no (mach ?s1))" "0 < r2" using push_patch_ok [OF al1] by blast
  have al2: "next_alloc ?s2 \<noteq> 0" using al 1(2) 2(2) by auto
  obtain n3 r3 where 3: "push_patch d1 ?s2 = (True, ?s2\<lparr>kpatches := \<lparr>ev_items = ev_items (kpatches ?s2) @ [d1], ev_rsvd = r3\<rparr>, mach := (mach ?s2)\<lparr>alloc_no := n3\<rparr>\<rparr>)"
    "n3 = alloc_no (mach ?s2) \<or> n3 = Suc (alloc_no (mach ?s2))" "0 < r3" using push_patch_ok [OF al2] by blast
  show ?thesis
  proof (cases "d1 = 0")
    case True
    then show ?thesis using 1 2 by (intro exI [of _ n2] exI [of _ r2]) (auto simp: keep_patches_def)
  next
    case False
    then show ?thesis using 1 2 3 by (intro exI [of _ n3] exI [of _ r3]) (auto simp: keep_patches_def)
  qed
qed

section \<open>Routing in place\<close>

text \<open>The patches that a jump leaves in \<open>kpatches\<close> when it is revertible.\<close>

definition kept_from :: "'z patcher_scheme \<Rightarrow> 'z patcher_scheme \<Rightarrow> jump_patch \<Rightarrow> bool" where
  "kept_from st st' jp \<longleftrightarrow> (\<exists>ptrs. fresh_jump st st' ptrs jp \<and> (case ptrs of (o1, a1, d1) \<Rightarrow>
     ev_items (kpatches st') = ev_items (kpatches st) @ [o1, a1] @ (if d1 \<noteq> 0 then [d1] else []) \<and> 0 < ev_rsvd (kpatches st')))"

text \<open>
  The jump is in memory and nothing else of the patcher changed but its heap and its list of patches;
  at most six allocations were made.
\<close>

definition jump_placed :: "jump_patch \<Rightarrow> bool \<Rightarrow> 'z patcher_scheme \<Rightarrow> 'z patcher_scheme \<Rightarrow> bool" where
  "jump_placed jp revertible st st' \<longleftrightarrow>
     st' = st\<lparr>mach := mach st', patches := patches st', kpatches := kpatches st'\<rparr> \<and>
     pmem st' = write_all (pmem st) (jump_parts jp) \<and> at_rest (mach st) (mach st') \<and>
     (\<forall>k. heap_room (k + 6) st \<longrightarrow> heap_room k st') \<and>
     (if revertible then kept_from st st' jp else patches st' = patches st \<and> kpatches st' = kpatches st)"

lemma write_jump_ok:
  assumes "opened_from m0 (mach st)" and "jp = jump_for (pmem st) fr to absolute slot"
    and "holds_jump (patches st) m ptrs jp" and "slot = 0 \<or> slot_apart fr slot"
  shows "\<exists>mc. write_jump fr absolute slot jp ptrs st = Some (st\<lparr>mach := mc\<rparr>) \<and> opened_from m0 mc \<and>
     mem mc = write_all (pmem st) (jump_parts jp)"
  using assms write_jump_slot [OF assms(1), of jp fr slot to m ptrs absolute]
    write_jump_near [OF assms(1), of jp fr to m ptrs] write_jump_far [OF assms(1), of jp fr to m ptrs]
  by (cases "slot = 0"; cases absolute) (simp_all add: jump_for_def)

lemma jump_window:
  assumes "window_ready (mach st)" and "jp = jump_for (pmem st) fr to absolute slot"
    and "holds_jump (patches st) m ptrs jp" and "slot = 0 \<or> slot_apart fr slot"
  shows "\<exists>c1 c2 c3. kw_on st = Some (KERN_SUCCESS, st\<lparr>mach := c1\<rparr>) \<and>
    write_jump fr absolute slot jp ptrs (st\<lparr>mach := c1\<rparr>) = Some (st\<lparr>mach := c2\<rparr>) \<and>
    kw_off (st\<lparr>mach := c2\<rparr>) = Some (KERN_SUCCESS, st\<lparr>mach := c3\<rparr>) \<and> same_cpu (mach st) c3 \<and>
    mem c3 = write_all (pmem st) (jump_parts jp)"
proof -
  obtain c1 where c1: "kw_on st = Some (KERN_SUCCESS, st\<lparr>mach := c1\<rparr>)" "opened_from (mach st) c1" "mem c1 = pmem st"
    using kw_on_ok [OF assms(1)] by blast
  obtain c2 where c2: "write_jump fr absolute slot jp ptrs (st\<lparr>mach := c1\<rparr>) = Some (st\<lparr>mach := c2\<rparr>)"
    "opened_from (mach st) c2" "mem c2 = write_all (pmem st) (jump_parts jp)"
    using write_jump_ok [of "mach st" "st\<lparr>mach := c1\<rparr>" jp fr to absolute slot m ptrs] c1 assms(2-4) by auto
  obtain c3 where "kw_off (st\<lparr>mach := c2\<rparr>) = Some (KERN_SUCCESS, st\<lparr>mach := c3\<rparr>)" "same_cpu (mach st) c3" "mem c3 = mem c2"
    using kw_off_ok [of "mach st" "st\<lparr>mach := c2\<rparr>"] c2(2) assms(1) by auto
  then show ?thesis using c1(1) c2 by (intro exI conjI) auto
qed

lemma route_finish_keeps:
  assumes "fresh_jump st st2 (o1, a1, d1) jp" and "st2 = st\<lparr>mach := (mach st)\<lparr>alloc_no := n\<rparr>, patches := ps\<rparr>"
    and "alloc_no (mach st) \<le> n" and "n \<le> alloc_no (mach st) + 3" and "same_cpu (mach st2) c"
    and "mem c = write_all (pmem st) (jump_parts jp)" and "\<forall>k. heap_room (k + 3) st \<longrightarrow> heap_room k st2" and "heap_room 6 st"
  shows "\<exists>st'. keep_patches (o1, a1, d1) (st2\<lparr>mach := c\<rparr>) = Some (True, st') \<and> jump_placed jp True st st'"
proof -
  have "heap_room (3 + 3) st" using assms(8) by simp
  then have "heap_room 3 st2" using assms(7) by blast
  then have "\<forall>i < 3. alloc_at c (alloc_no c + i) \<noteq> 0" using assms(5) by (simp add: heap_room_def same_cpu_def)
  then obtain n' r' where keep: "keep_patches (o1, a1, d1) (st2\<lparr>mach := c\<rparr>) = Some (True, st2\<lparr>kpatches :=
      \<lparr>ev_items = ev_items (kpatches st) @ [o1, a1] @ (if d1 \<noteq> 0 then [d1] else []), ev_rsvd = r'\<rparr>, mach := c\<lparr>alloc_no := n'\<rparr>\<rparr>)"
      (is "_ = Some (True, ?st')") "alloc_no c \<le> n'" "n' \<le> alloc_no c + 3" "0 < r'"
    using keep_patches_ok [of "st2\<lparr>mach := c\<rparr>" o1 a1 d1] by (auto simp: assms(2))
  have room: "heap_room k ?st'" if "heap_room (k + 6) st" for k
  proof -
    have "heap_room (k + 3 + 3) st" using that by (simp add: add.assoc)
    then have "heap_room (k + 3) st2" using assms(7) by blast
    then show ?thesis by (rule heap_room_mono) (use keep(2,3) assms(5) in \<open>simp_all add: same_cpu_def\<close>)
  qed
  have "kept_from st ?st' jp" unfolding kept_from_def
    by (rule exI [of _ "(o1, a1, d1)"]) (use assms(1) keep(4) in \<open>simp add: fresh_jump_def\<close>)
  moreover have "at_rest (mach st) (mach ?st')"
    using assms(3,5) keep(2) by (simp add: at_rest_def same_cpu_def assms(2))
  moreover have "?st' = st\<lparr>mach := mach ?st', patches := patches ?st', kpatches := kpatches ?st'\<rparr>" by (simp add: assms(2))
  ultimately have "jump_placed jp True st ?st'" unfolding jump_placed_def using assms(6) room by simp
  then show ?thesis using keep(1) by blast
qed

lemma route_finish_frees:
  assumes "fresh_jump st st2 (o1, a1, d1) jp" and "st2 = st\<lparr>mach := (mach st)\<lparr>alloc_no := n\<rparr>, patches := ps\<rparr>"
    and "alloc_no (mach st) \<le> n" and "n \<le> alloc_no (mach st) + 3" and "same_cpu (mach st2) c"
    and "mem c = write_all (pmem st) (jump_parts jp)"
  shows "\<exists>st'. delete_patches (o1, a1, d1) (st2\<lparr>mach := c\<rparr>) = Some st' \<and> jump_placed jp False st st'"
proof -
  let ?st' = "st2\<lparr>mach := c, patches := patches st\<rparr>"
  have "delete_patches (o1, a1, d1) (st2\<lparr>mach := c\<rparr>) = Some ?st'"
    using delete_patches_ok [OF assms(1), of "st2\<lparr>mach := c\<rparr>"] by simp
  moreover have "heap_room k ?st'" if "heap_room (k + 6) st" for k
    using that by (rule heap_room_mono) (use assms(3-5) in \<open>simp_all add: same_cpu_def assms(2)\<close>)
  moreover have "at_rest (mach st) (mach ?st')" using assms(3,5) by (simp add: at_rest_def same_cpu_def assms(2))
  moreover have "?st' = st\<lparr>mach := mach ?st', patches := patches ?st', kpatches := kpatches ?st'\<rparr>" by (simp add: assms(2))
  moreover have "kpatches st2 = kpatches st" by (simp add: assms(2))
  ultimately show ?thesis using assms(6) by (intro exI [of _ ?st']) (simp add: jump_placed_def)
qed

lemma route_finish_ok:
  assumes ready: "window_ready (mach st)" and heap: "heap_room 6 st" and slot: "slot = 0 \<or> slot_apart fr slot"
  shows "\<exists>st'. route_finish fr to absolute True revertible 0 trampoline slot st = Some (trampoline, st') \<and>
    jump_placed (jump_for (pmem st) fr to absolute slot) revertible st st'"
proof -
  define jp where "jp = jump_for (pmem st) fr to absolute slot"
  have "heap_room 3 st" using heap_room_mono [OF heap, of st 3] by simp
  then obtain o1 a1 d1 st2 where mk: "make_patches jp st = ((o1, a1, d1), st2)" and
    s2: "st2 = st\<lparr>mach := (mach st)\<lparr>alloc_no := alloc_no (mach st2)\<rparr>, patches := patches st2\<rparr>"
      "alloc_no (mach st) \<le> alloc_no (mach st2)" "alloc_no (mach st2) \<le> alloc_no (mach st) + 3"
      "\<forall>k. heap_room (k + 3) st \<longrightarrow> heap_room k st2" "fresh_jump st st2 (o1, a1, d1) jp"
    using make_patches_ok [of st jp] by (metis prod_cases3)
  have nz: "o1 \<noteq> 0" "a1 \<noteq> 0" "absolute \<Longrightarrow> d1 \<noteq> 0"
    using s2(5) by (auto simp: fresh_jump_def jp_def jump_for_def medium_jump_def long_jump_def Let_def)
  obtain n ps where st2: "st2 = st\<lparr>mach := (mach st)\<lparr>alloc_no := n\<rparr>, patches := ps\<rparr>" using s2(1) by blast
  have "window_ready (mach st2)" "pmem st2 = pmem st"
    using ready by (simp_all add: st2 window_ready_def cr0_honest_def)
  then obtain c1 c2 c3 where w: "kw_on st2 = Some (KERN_SUCCESS, st2\<lparr>mach := c1\<rparr>)"
    "write_jump fr absolute slot jp (o1, a1, d1) (st2\<lparr>mach := c1\<rparr>) = Some (st2\<lparr>mach := c2\<rparr>)"
    "kw_off (st2\<lparr>mach := c2\<rparr>) = Some (KERN_SUCCESS, st2\<lparr>mach := c3\<rparr>)" "same_cpu (mach st2) c3"
    "mem c3 = write_all (pmem st) (jump_parts jp)"
    using jump_window [of st2 jp fr to absolute slot "pmem st" "(o1, a1, d1)"] s2(5) slot
    by (auto simp: fresh_jump_def jp_def)
  show ?thesis
  proof (cases revertible)
    case True
    then show ?thesis using mk w(1-3) nz route_finish_keeps [OF s2(5,1-3) w(4,5) s2(4) heap]
      by (auto simp: route_finish_def jp_def)
  next
    case False
    then show ?thesis using mk w(1-3) nz route_finish_frees [OF s2(5,1-3) w(4,5)]
      by (auto simp: route_finish_def jp_def)
  qed
qed

lemma small_jump_bytes:
  "write_all m (jump_parts (small_jump m fr to)) = write_bytes m fr (SmallJumpPrefix # le_bytes 4 (ucast (to - (fr + 5)) :: u32))"
  by (simp add: jump_parts_def small_jump_def Let_def)

lemma long_jump_bytes:
  "write_all m (jump_parts (long_jump m fr to)) =
     write_bytes m fr (le_bytes 2 LongJumpPrefix @ le_bytes 4 (0 :: u32) @ le_bytes 8 to)"
  (is "_ = write_bytes m fr ?b")
proof -
  have "jp_value (long_jump m fr to) = ?b @ read_bytes m (fr + of_nat (length ?b)) 2"
    by (simp add: long_jump_def Let_def)
  then show ?thesis using long_value [of m fr to] write_bytes_keep [of ?b 2 m fr] by simp
qed

lemma medium_jump_bytes:
  "write_all m (jump_parts (medium_jump m fr slot to)) = write_bytes (write_bytes m slot (le_bytes 8 to)) fr
     (le_bytes 2 LongJumpPrefix @ le_bytes 4 (ucast (slot - (fr + 6)) :: u32))"
  by (simp add: jump_parts_def medium_jump_def Let_def write_bytes_append)

definition jump_len :: "bool \<Rightarrow> addr \<Rightarrow> nat" where
  "jump_len absolute slot = (if slot \<noteq> 0 then MediumJump else if absolute then LongJump else SmallJump)"

lemma jump_frame:
  assumes "jump_len absolute slot \<le> offset fr x" and "slot \<noteq> 0 \<Longrightarrow> 8 \<le> offset slot x"
  shows "write_all m (jump_parts (jump_for m fr to absolute slot)) x = m x"
proof -
  consider "slot \<noteq> 0" | "slot = 0" absolute | "slot = 0" "\<not> absolute" by blast
  then show ?thesis
  proof cases
    case 1
    then show ?thesis using assms by (simp add: jump_for_def jump_len_def jump_consts medium_jump_bytes write_bytes_outside)
  next
    case 2
    then show ?thesis using assms by (simp add: jump_for_def jump_len_def jump_consts long_jump_bytes write_bytes_outside)
  next
    case 3
    then show ?thesis using assms
      by (simp add: jump_for_def jump_len_def jump_consts small_jump_bytes write_bytes_outside del: write_bytes.simps)
  qed
qed

lemma jump_reads_back:
  assumes "slot = 0 \<Longrightarrow> absolute \<or> \<not> far_away fr to"
  shows "slot = 0 \<Longrightarrow> readChain (write_all m (jump_parts (jump_for m fr to absolute slot))) fr = (to, if absolute then Long else Short)"
    and "slot \<noteq> 0 \<Longrightarrow> slot_apart fr slot \<Longrightarrow> slot_near fr slot \<Longrightarrow>
      readChain (write_all m (jump_parts (jump_for m fr to absolute slot))) fr = (to, Medium)"
proof -
  assume s: "slot = 0"
  show "readChain (write_all m (jump_parts (jump_for m fr to absolute slot))) fr = (to, if absolute then Long else Short)"
  proof (cases absolute)
    case True
    let ?b = "le_bytes 2 LongJumpPrefix @ le_bytes 4 (0 :: u32) @ le_bytes 8 to"
    have "read_bytes (write_bytes m fr ?b) fr 14 = ?b" using read_write_bytes [of ?b m fr] by simp
    then show ?thesis using True s readChain_long by (simp add: jump_for_def long_jump_bytes)
  next
    case False
    let ?b = "SmallJumpPrefix # le_bytes 4 (ucast (to - (fr + 5)) :: u32)"
    have "read_bytes (write_bytes m fr ?b) fr 5 = ?b" using read_write_bytes [of ?b m fr] by (simp del: write_bytes.simps)
    then show ?thesis using False s assms readChain_small by (simp add: jump_for_def small_jump_bytes del: write_bytes.simps)
  qed
next
  assume s: "slot \<noteq> 0" and ap: "slot_apart fr slot" and near: "slot_near fr slot"
  let ?b = "le_bytes 2 LongJumpPrefix @ le_bytes 4 (ucast (slot - (fr + 6)) :: u32)"
  let ?m = "write_bytes (write_bytes m slot (le_bytes 8 to)) fr ?b"
  have "read_bytes ?m fr 6 = ?b" using read_write_bytes [of ?b "write_bytes m slot (le_bytes 8 to)" fr] by simp
  moreover have "read_bytes ?m slot 8 = read_bytes (write_bytes m slot (le_bytes 8 to)) slot 8"
    using apart_sub [OF ap [unfolded apart_sym [of slot]], of 0 6 0 8] by (simp add: read_write_apart)
  moreover have "read_bytes (write_bytes m slot (le_bytes 8 to)) slot 8 = le_bytes 8 to"
    using read_write_bytes [of "le_bytes 8 to" m slot] by simp
  moreover have "slot \<noteq> fr + 6" using ap [unfolded apart_def, rule_format, of 0 6] by simp
  ultimately show "readChain (write_all m (jump_parts (jump_for m fr to absolute slot))) fr = (to, Medium)"
    using s near readChain_medium [of ?m fr slot to] by (simp add: jump_for_def medium_jump_bytes)
qed

section \<open>A blank heap\<close>

lemma bare_heap_room:
  assumes "k \<le> 1000" and "alloc_at (mach st) = (\<lambda>n. 0x700000 + 64 * of_nat n)" and "alloc_no (mach st) = 0"
    and "patches st = (\<lambda>_. None)"
  shows "heap_room k st"
proof -
  have u: "unat (0x700000 + 64 * of_nat i :: u64) = 0x700000 + 64 * i" if "i < k" for i
  proof -
    have "(0x700000 + 64 * of_nat i :: u64) = of_nat (0x700000 + 64 * i)" by simp
    moreover have "unat (of_nat (0x700000 + 64 * i) :: u64) = 0x700000 + 64 * i"
      using that assms(1) by (intro unat_of_nat_u64) simp
    ultimately show ?thesis by (simp only:)
  qed
  have nz: "(0x700000 + 64 * of_nat i :: u64) \<noteq> 0" if "i < k" for i
    using u [OF that] by (metis add_is_0 unat_0 zero_neq_numeral)
  have ne: "(0x700000 + 64 * of_nat j :: u64) \<noteq> 0x700000 + 64 * of_nat i" if "i < k" "j < i" for i j
  proof
    assume "(0x700000 + 64 * of_nat j :: u64) = 0x700000 + 64 * of_nat i"
    then have "0x700000 + 64 * j = 0x700000 + 64 * i" using u [of i] u [of j] that by (simp only: less_trans)
    then show False using that(2) by simp
  qed
  show ?thesis unfolding heap_room_def assms(2-4) using nz ne by simp
qed

end
