(* ===== verification/Route_Correct.thy ===== *)
theory Route_Correct
  imports Route_Jumps Patcher_Kexts
begin

text \<open>
  What a route does to a function: plain routes, trampolines, wrapping routes, and the invariant under
  which unloading the patcher brings the original memory back.
\<close>

lemma route_plain_ok:
  assumes "window_ready (mach st)" and "heap_room 6 st" and "fst (readChain (pmem st) fr) = 0"
    and "\<not> (jt = Short \<and> far_away fr to)"
  shows "\<exists>st'. route_with mk fr to False True revertible jt info 0 st = Some (0, st') \<and>
    jump_placed (jump_for (pmem st) fr to (far_away fr to \<or> jt = Long) 0) revertible st st'"
  using route_finish_ok [OF assms(1,2), of 0 fr to "far_away fr to \<or> jt = Long" revertible 0] assms(3,4)
  by (auto simp: route_with_def Let_def split: prod.splits)

lemma jump_placed_frame:
  "jump_placed (jump_for (pmem st) fr to absolute slot) revertible st st' \<Longrightarrow>
     jump_len absolute slot \<le> offset fr x \<Longrightarrow> (slot \<noteq> 0 \<Longrightarrow> 8 \<le> offset slot x) \<Longrightarrow> pmem st' x = pmem st x"
  unfolding jump_placed_def using jump_frame by metis

lemma jump_placed_same:
  assumes "jump_placed jp revertible st st'"
  shows "code st' = code st" and "kinfos st' = kinfos st" and "tempExecutableMemory st' = tempExecutableMemory st"
    and "tempExecutableMemoryOff st' = tempExecutableMemoryOff st"
proof -
  from assms have eq: "st' = st\<lparr>mach := mach st', patches := patches st', kpatches := kpatches st'\<rparr>"
    by (simp add: jump_placed_def)
  show "code st' = code st" "kinfos st' = kinfos st" "tempExecutableMemory st' = tempExecutableMemory st"
    "tempExecutableMemoryOff st' = tempExecutableMemoryOff st"
    using arg_cong [OF eq, of code] arg_cong [OF eq, of kinfos] arg_cong [OF eq, of tempExecutableMemory]
      arg_cong [OF eq, of tempExecutableMemoryOff] by simp_all
qed

lemma jump_placed_reads:
  assumes "jump_placed (jump_for (pmem st) fr to absolute 0) revertible st st'" and "absolute \<or> \<not> far_away fr to"
  shows "readChain (pmem st') fr = (to, if absolute then Long else Short)"
  using assms jump_reads_back(1) [of 0 absolute fr to "pmem st"] by (simp add: jump_placed_def)

section \<open>Trampolines\<close>

lemma readChain_blank: "m fr = 0 \<Longrightarrow> fst (readChain m fr) = 0"
proof -
  assume z: "m fr = 0"
  have "bit (load16 m fr) 0 = bit (m fr) 0" by (simp add: load16_def bit_le_word nth_read_bytes)
  then have "load16 m fr \<noteq> LongJumpPrefix" using z by (auto simp: LongJumpPrefix_def)
  then show ?thesis using z by (simp add: readChain_def SmallJumpPrefix_def)
qed

text \<open>The trampoline at \<open>ptr\<close>: the opcodes, then \<open>off\<close> bytes of the function, then a jump behind them.\<close>

definition is_trampoline :: "memory \<Rightarrow> addr \<Rightarrow> byte list \<Rightarrow> addr \<Rightarrow> byte list \<Rightarrow> bool" where
  "is_trampoline m ptr opcodes func body \<longleftrightarrow>
     read_bytes m ptr (length opcodes + length body) = opcodes @ body \<and>
     fst (readChain m (ptr + of_nat (length opcodes + length body))) = func + of_nat (length body) \<and>
     snd (readChain m (ptr + of_nat (length opcodes + length body))) \<noteq> Medium"

text \<open>What building a trampoline needs: the copied instructions decode and fit in the rest of the buffer,
  which is apart from them and blank where the jump back goes.\<close>

definition trampoline_fits :: "'z patcher_scheme \<Rightarrow> addr \<Rightarrow> nat \<Rightarrow> nat \<Rightarrow> bool" where
  "trampoline_fits st func least n \<longleftrightarrow>
     (let off = quickInstructionSize (pmem st) func least;
          ptr = tempExecutableMemory st + of_nat (tempExecutableMemoryOff st) in
      off \<noteq> 0 \<and> ptr \<noteq> 0 \<and> tempExecutableMemoryOff st + off + LongJump + n < TempExecutableMemorySize \<and>
      apart ptr (n + off + LongJump) func off \<and> pmem st (ptr + of_nat (n + off)) = 0)"

lemma jump_placed_plain: "jump_placed jp False st st' \<Longrightarrow> st' = st\<lparr>mach := mach st'\<rparr>"
  by (cases st; cases st') (simp add: jump_placed_def)

lemma copy_in_window:
  assumes "window_ready (mach st)"
  shows "\<exists>c1 c2 c3 c4. kw_on st = Some (KERN_SUCCESS, st\<lparr>mach := c1\<rparr>) \<and> mem c1 = pmem st \<and>
     kstore a xs (st\<lparr>tempExecutableMemoryOff := t, mach := c1\<rparr>) = Some (st\<lparr>tempExecutableMemoryOff := t, mach := c2\<rparr>) \<and>
     mem c2 = write_bytes (pmem st) a xs \<and>
     kstore b (ys (mem c2)) (st\<lparr>tempExecutableMemoryOff := t, mach := c2\<rparr>) = Some (st\<lparr>tempExecutableMemoryOff := t, mach := c3\<rparr>) \<and>
     kw_off (st\<lparr>tempExecutableMemoryOff := t, mach := c3\<rparr>) = Some (KERN_SUCCESS, st\<lparr>tempExecutableMemoryOff := t, mach := c4\<rparr>) \<and>
     same_cpu (mach st) c4 \<and> mem c4 = write_bytes (mem c2) b (ys (mem c2))"
proof -
  let ?s = "\<lambda>c. st\<lparr>tempExecutableMemoryOff := t, mach := c\<rparr>"
  obtain c1 where c1: "kw_on st = Some (KERN_SUCCESS, st\<lparr>mach := c1\<rparr>)" "opened_from (mach st) c1" "mem c1 = pmem st"
    using kw_on_ok [OF assms] by blast
  obtain c2 where c2: "kstore a xs (?s c1) = Some (?s c2)" "opened_from (mach st) c2" "mem c2 = write_bytes (pmem st) a xs"
    using kstore_ok [of "mach st" "?s c1" a xs] c1 by auto
  obtain c3 where c3: "kstore b (ys (mem c2)) (?s c2) = Some (?s c3)" "opened_from (mach st) c3"
    "mem c3 = write_bytes (mem c2) b (ys (mem c2))"
    using kstore_ok [of "mach st" "?s c2" b "ys (mem c2)"] c2 by auto
  obtain c4 where "kw_off (?s c3) = Some (KERN_SUCCESS, ?s c4)" "same_cpu (mach st) c4" "mem c4 = mem c3"
    using kw_off_ok [of "mach st" "?s c3"] c3 assms by auto
  then show ?thesis using c1 c2 c3 by (intro exI [of _ c1] exI [of _ c2] exI [of _ c3] exI [of _ c4]) simp
qed

lemma createTrampoline_copies:
  assumes ready: "window_ready (mach st)" and fits: "trampoline_fits st func least (length opcodes)"
  defines "off \<equiv> quickInstructionSize (pmem st) func least"
    and "ptr \<equiv> tempExecutableMemory st + of_nat (tempExecutableMemoryOff st)"
  defines "st4 \<equiv> \<lambda>c. st\<lparr>tempExecutableMemoryOff := tempExecutableMemoryOff st + off + LongJump + length opcodes, mach := c\<rparr>"
  shows "\<exists>c. createTrampoline func least opcodes st = do {
      (_, st6) \<leftarrow> route_plain (ptr + of_nat (length opcodes + off)) (func + of_nat off) False (clearError (st4 c));
      Some (if getError st6 = NoError then ptr else 0, st6) } \<and>
    same_cpu (mach st) c \<and> mem c = write_bytes (pmem st) ptr (opcodes @ read_bytes (pmem st) func off)"
proof -
  let ?n = "length opcodes" and ?t = "tempExecutableMemoryOff st + off + LongJump + length opcodes"
  have f: "off \<noteq> 0" "?t < TempExecutableMemorySize" "apart ptr (?n + off + LongJump) func off"
    using fits by (simp_all add: trampoline_fits_def Let_def off_def ptr_def)
  obtain c1 c2 c3 c4 where w: "kw_on st = Some (KERN_SUCCESS, st\<lparr>mach := c1\<rparr>)" "mem c1 = pmem st"
    "kstore ptr opcodes (st4 c1) = Some (st4 c2)" "mem c2 = write_bytes (pmem st) ptr opcodes"
    "kstore (ptr + of_nat ?n) (read_bytes (mem c2) func off) (st4 c2) = Some (st4 c3)"
    "kw_off (st4 c3) = Some (KERN_SUCCESS, st4 c4)" "same_cpu (mach st) c4"
    "mem c4 = write_bytes (mem c2) (ptr + of_nat ?n) (read_bytes (mem c2) func off)"
    using copy_in_window [OF ready, of ptr opcodes ?t "ptr + of_nat ?n" "\<lambda>m. read_bytes m func off"]
    unfolding st4_def by (elim exE conjE) blast
  have swap: "st\<lparr>mach := c, tempExecutableMemoryOff := t\<rparr> = st\<lparr>tempExecutableMemoryOff := t, mach := c\<rparr>" for c t by simp
  have sz: "off < 4082" "?n < 4082" using f(2) by (simp_all add: TempExecutableMemorySize_def LongJump_def)
  have "read_bytes (mem c2) func off = read_bytes (pmem st) func off"
    using apart_sub [OF f(3), of 0 ?n 0 off] w(4) sz by (simp add: read_write_apart)
  then have "mem c4 = write_bytes (pmem st) ptr (opcodes @ read_bytes (pmem st) func off)"
    using w(4,8) by (simp add: write_bytes_append)
  moreover have "createTrampoline func least opcodes st = do {
      (_, st6) \<leftarrow> route_plain (ptr + of_nat (?n + off)) (func + of_nat off) False (clearError (st4 c4));
      Some (if getError st6 = NoError then ptr else 0, st6) }"
    using w(1-3,5,6) f sz
    by (simp add: createTrampoline_def off_def [symmetric] ptr_def [symmetric] st4_def swap PAGE_SIZE_def LongJump_def
        TempExecutableMemorySize_def algebra_simps)
  ultimately show ?thesis using w(7) by blast
qed

lemma createTrampoline_ok:
  assumes ready: "window_ready (mach st)" and heap: "heap_room 6 st" and fits: "trampoline_fits st func least (length opcodes)"
  defines "off \<equiv> quickInstructionSize (pmem st) func least"
    and "ptr \<equiv> tempExecutableMemory st + of_nat (tempExecutableMemoryOff st)"
  shows "\<exists>st'. createTrampoline func least opcodes st = Some (ptr, st') \<and>
    is_trampoline (pmem st') ptr opcodes func (read_bytes (pmem st) func off) \<and>
    (\<forall>x. length opcodes + off + LongJump \<le> offset ptr x \<longrightarrow> pmem st' x = pmem st x) \<and>
    st' = st\<lparr>tempExecutableMemoryOff := tempExecutableMemoryOff st + off + LongJump + length opcodes, code := NoError, mach := mach st'\<rparr> \<and>
    at_rest (mach st) (mach st') \<and> (\<forall>k. heap_room (k + 6) st \<longrightarrow> heap_room k st')"
proof -
  let ?n = "length opcodes" and ?body = "read_bytes (pmem st) func off"
  define st4 where "st4 \<equiv> \<lambda>c. st\<lparr>tempExecutableMemoryOff := tempExecutableMemoryOff st + off + LongJump + length opcodes, mach := c\<rparr>"
  let ?j = "ptr + of_nat (?n + off)" and ?ret = "func + of_nat off"
  obtain c where c: "createTrampoline func least opcodes st = do {
      (_, st6) \<leftarrow> route_plain ?j ?ret False (clearError (st4 c));
      Some (if getError st6 = NoError then ptr else 0, st6) }" "same_cpu (mach st) c"
    "mem c = write_bytes (pmem st) ptr (opcodes @ ?body)"
    using createTrampoline_copies [OF ready fits] unfolding off_def ptr_def st4_def by blast
  have f: "?n + off + LongJump < 4096" "pmem st ?j = 0"
    using fits by (auto simp: trampoline_fits_def Let_def off_def ptr_def TempExecutableMemorySize_def)
  let ?s4 = "clearError (st4 c)"
  have r4: "window_ready (mach ?s4)" using ready c(2) kw.settles by (simp add: clearError_def st4_def)
  have h4: "heap_room k ?s4 = heap_room k st" for k using c(2) by (simp add: heap_room_def clearError_def st4_def same_cpu_def)
  have p4: "pmem ?s4 = mem c" by (simp add: clearError_def st4_def)
  have "fst (readChain (mem c) ?j) = 0"
    using f c(3) by (intro readChain_blank) (simp add: write_bytes_outside offset_add_nat del: of_nat_add)
  then have b4: "fst (readChain (pmem ?s4) ?j) = 0" using p4 by simp
  obtain s5 where s5: "route_plain ?j ?ret False ?s4 = Some (0, s5)"
    "jump_placed (jump_for (mem c) ?j ?ret (far_away ?j ?ret) 0) False ?s4 s5"
    using route_plain_ok [OF r4 heap [folded h4] b4, where jt = Auto and to = ?ret and revertible = False and info = None
      and mk = "\<lambda>_ _ _. None"] p4 by (auto simp: route_plain_def simp del: of_nat_add)
  have len: "jump_len b 0 \<le> LongJump" for b by (simp add: jump_len_def jump_consts)
  have keep: "pmem s5 x = mem c x" if "LongJump \<le> offset ?j x" for x
    using jump_placed_frame [OF s5(2) [folded p4] order_trans [OF len that]] p4 by simp
  have "read_bytes (pmem s5) ptr (?n + off) = read_bytes (mem c) ptr (?n + off)"
    using apart_offset [OF apart_next [of "?n + off" LongJump ptr, unfolded apart_sym [of ptr]]] f(1)
    by (intro read_bytes_cong keep) simp
  also have "\<dots> = opcodes @ ?body" using c(3) read_write_bytes [of "opcodes @ ?body" "pmem st" ptr] f(1) by simp
  finally have "is_trampoline (pmem s5) ptr opcodes func ?body"
    using jump_placed_reads [OF s5(2) [folded p4]] by (simp add: is_trampoline_def)
  moreover have "pmem s5 x = pmem st x" if "?n + off + LongJump \<le> offset ptr x" for x
    using keep [of x] that c(3) f(1) offset_advance [of "?n + off" ptr x] by (simp add: write_bytes_outside)
  moreover have "createTrampoline func least opcodes st = Some (ptr, s5)"
    using c(1) s5(1) jump_placed_same(1) [OF s5(2)] by (simp add: getError_def clearError_def)
  moreover have "s5 = st\<lparr>tempExecutableMemoryOff := tempExecutableMemoryOff st + off + LongJump + ?n, code := NoError, mach := mach s5\<rparr>"
    using jump_placed_plain [OF s5(2)] by (simp add: clearError_def st4_def)
  moreover have "at_rest (mach st) (mach s5)"
    using s5(2) same_cpu_at_rest [OF c(2)] at_rest_trans by (auto simp: jump_placed_def clearError_def st4_def)
  moreover have "heap_room k s5" if "heap_room (k + 6) st" for k using s5(2) h4 that by (simp add: jump_placed_def)
  ultimately show ?thesis by blast
qed

lemma readChain_local:
  assumes "\<And>i. i < LongJump \<Longrightarrow> m' (fr + of_nat i) = m (fr + of_nat i)" and "snd (readChain m fr) \<noteq> Medium"
  shows "readChain m' fr = readChain m fr"
proof -
  have eq: "read_bytes m' (fr + of_nat k) n = read_bytes m (fr + of_nat k) n" if "k + n \<le> 14" for k n
    using assms(1) [of "k + i" for i] that by (intro read_bytes_cong) (simp add: LongJump_def add.assoc)
  have "load16 m' fr = load16 m fr" "m' fr = m fr" using eq [of 0 2] assms(1) [of 0] by (simp_all add: load16_def LongJump_def)
  moreover have "load32 m' (fr + 1) = load32 m (fr + 1)" "load32 m' (fr + 2) = load32 m (fr + 2)"
    using eq [of 1 4] eq [of 2 4] by (simp_all add: load32_def)
  moreover have "load64 m' (fr + 6) = load64 m (fr + 6)" using eq [of 6 8] by (simp add: load64_def)
  ultimately show ?thesis using assms(2) by (auto simp: readChain_def Let_def split: if_splits)
qed

lemma is_trampoline_cong:
  assumes "is_trampoline m ptr opcodes func body"
    and "\<And>i. i < length opcodes + length body + LongJump \<Longrightarrow> m' (ptr + of_nat i) = m (ptr + of_nat i)"
  shows "is_trampoline m' ptr opcodes func body"
proof -
  let ?n = "length opcodes + length body"
  have "m' (ptr + of_nat ?n + of_nat i) = m (ptr + of_nat ?n + of_nat i)" if "i < LongJump" for i
    using assms(2) [of "?n + i"] that by (simp add: algebra_simps)
  then have "readChain m' (ptr + of_nat ?n) = readChain m (ptr + of_nat ?n)"
    using assms(1) by (intro readChain_local) (simp_all add: is_trampoline_def)
  moreover have "read_bytes m' ptr ?n = read_bytes m ptr ?n" using assms(2) by (intro read_bytes_cong) simp
  ultimately show ?thesis using assms(1) by (simp add: is_trampoline_def)
qed

section \<open>Wrapping a function\<close>

definition with_word :: "addr \<Rightarrow> u64 \<Rightarrow> 'z patcher_scheme \<Rightarrow> 'z patcher_scheme" where
  "with_word org v st = (if org = 0 then st else st\<lparr>mach := (mach st)\<lparr>mem := write_bytes (pmem st) org (le_bytes 8 v)\<rparr>\<rparr>)"

lemma route_finish_org:
  "org = 0 \<or> writable (mach st) org 8 \<Longrightarrow>
   route_finish fr to absolute kernelRoute revertible org trampoline slot st =
     route_finish fr to absolute kernelRoute revertible 0 trampoline slot (with_word org trampoline st)"
  by (auto simp: route_finish_def with_word_def kstore_def store_bytes_def writable_def list_ex_iff)

lemma with_word_rest:
  "window_ready (mach (with_word org v st)) = window_ready (mach st)" "heap_room k (with_word org v st) = heap_room k st"
  "same_cpu (mach st) (mach (with_word org v st))"
  "org = 0 \<or> 8 \<le> offset org x \<Longrightarrow> pmem (with_word org v st) x = pmem st x"
  "org \<noteq> 0 \<Longrightarrow> read_bytes (pmem (with_word org v st)) org 8 = le_bytes 8 v"
  using read_write_bytes [of "le_bytes 8 v" "pmem st" org]
  by (auto simp: with_word_def window_ready_def cr0_honest_def heap_room_def same_cpu_def write_bytes_outside)

text \<open>The address slot a wrapping route takes from the image it is for; 0 is none.\<close>

definition route_slot :: "bool \<Rightarrow> JumpType \<Rightarrow> nat option \<Rightarrow> 'z patcher_scheme \<Rightarrow> (addr \<times> 'z patcher_scheme) option" where
  "route_slot absolute jt info st =
     (if info \<noteq> None \<and> absolute \<and> (jt = Auto \<or> jt = Long) then take_slot info st else Some (0, st))"

lemma route_slot_same:
  assumes "route_slot absolute jt info st = Some (slot, st0)"
  shows "st0 = st\<lparr>kinfos := kinfos st0\<rparr>"
  using assms by (auto simp: route_slot_def take_slot_def set_kinfo_def split: if_splits option.splits prod.splits bind_splits)

text \<open>
  What a wrapping route needs of its surroundings; \<open>org\<close> is the variable that receives the original, and \<open>slot\<close> the
  address slot, within reach of the function.
\<close>

definition wrap_ready :: "'z patcher_scheme \<Rightarrow> addr \<Rightarrow> bool \<Rightarrow> addr \<Rightarrow> addr \<Rightarrow> bool" where
  "wrap_ready st fr absolute slot org \<longleftrightarrow>
     (let off = quickInstructionSize (pmem st) fr (jump_len absolute slot);
          ptr = tempExecutableMemory st + of_nat (tempExecutableMemoryOff st) in
      trampoline_fits st fr (jump_len absolute slot) 0 \<and>
      (org = 0 \<or> writable (mach st) org 8 \<and> apart org 8 fr off \<and> apart org 8 ptr (off + LongJump)) \<and>
      (slot = 0 \<or> slot_near fr slot \<and> slot_apart fr slot \<and> apart slot 8 fr off \<and> apart slot 8 ptr (off + LongJump) \<and>
         (org = 0 \<or> apart slot 8 org 8)))"

lemma wrap_ready_apart:
  assumes "wrap_ready st fr ab slot org"
  defines "off \<equiv> quickInstructionSize (pmem st) fr (jump_len ab slot)"
    and "ptr \<equiv> tempExecutableMemory st + of_nat (tempExecutableMemoryOff st)"
  shows "jump_len ab slot \<le> off" and "slot = 0 \<or> slot_near fr slot \<and> slot_apart fr slot"
    and "i < off + LongJump \<Longrightarrow> off \<le> offset fr (ptr + of_nat i) \<and> (slot = 0 \<or> 8 \<le> offset slot (ptr + of_nat i)) \<and>
      (org = 0 \<or> 8 \<le> offset org (ptr + of_nat i))"
    and "org \<noteq> 0 \<Longrightarrow> i < 8 \<Longrightarrow> off \<le> offset fr (org + of_nat i) \<and> (slot = 0 \<or> 8 \<le> offset slot (org + of_nat i))"
    and "i < off \<Longrightarrow> off + LongJump \<le> offset ptr (fr + of_nat i) \<and> (org = 0 \<or> 8 \<le> offset org (fr + of_nat i))"
    and "slot \<noteq> 0 \<Longrightarrow> i < 8 \<Longrightarrow> off + LongJump \<le> offset ptr (slot + of_nat i) \<and> (org = 0 \<or> 8 \<le> offset org (slot + of_nat i))"
proof -
  have a: "apart ptr (off + LongJump) fr off" "org = 0 \<or> apart org 8 fr off \<and> apart org 8 ptr (off + LongJump)"
    "slot = 0 \<or> slot_near fr slot \<and> slot_apart fr slot \<and> apart slot 8 fr off \<and> apart slot 8 ptr (off + LongJump) \<and> (org = 0 \<or> apart slot 8 org 8)"
    "off \<noteq> 0"
    using assms(1) by (auto simp: wrap_ready_def trampoline_fits_def Let_def off_def ptr_def)
  show "jump_len ab slot \<le> off" using a(4) quickInstructionSize_covers by (auto simp: off_def)
  show "slot = 0 \<or> slot_near fr slot \<and> slot_apart fr slot" using a(3) by blast
  show "i < off + LongJump \<Longrightarrow> off \<le> offset fr (ptr + of_nat i) \<and> (slot = 0 \<or> 8 \<le> offset slot (ptr + of_nat i)) \<and>
      (org = 0 \<or> 8 \<le> offset org (ptr + of_nat i))" using a(1-3) apart_sym apart_offset by metis
  show "org \<noteq> 0 \<Longrightarrow> i < 8 \<Longrightarrow> off \<le> offset fr (org + of_nat i) \<and> (slot = 0 \<or> 8 \<le> offset slot (org + of_nat i))"
    using a(2,3) apart_sym apart_offset by metis
  show "i < off \<Longrightarrow> off + LongJump \<le> offset ptr (fr + of_nat i) \<and> (org = 0 \<or> 8 \<le> offset org (fr + of_nat i))"
    using a(1,2) apart_offset by metis
  show "slot \<noteq> 0 \<Longrightarrow> i < 8 \<Longrightarrow> off + LongJump \<le> offset ptr (slot + of_nat i) \<and> (org = 0 \<or> 8 \<le> offset org (slot + of_nat i))"
    using a(3) apart_sym apart_offset by metis
qed

lemma route_wrap_ok:
  assumes ready: "window_ready (mach st)" and heap: "heap_room 12 st" and unrouted: "fst (readChain (pmem st) fr) = 0"
    and reach: "jt = Short \<Longrightarrow> \<not> far_away fr to" and slot: "route_slot (far_away fr to \<or> jt = Long) jt info st = Some (slot, st0)"
    and wrap: "wrap_ready st fr (far_away fr to \<or> jt = Long) slot org"
  defines "ab \<equiv> far_away fr to \<or> jt = Long"
  defines "off \<equiv> quickInstructionSize (pmem st) fr (jump_len ab slot)"
    and "ptr \<equiv> tempExecutableMemory st + of_nat (tempExecutableMemoryOff st)"
  shows "\<exists>st1 st'. routeFunctionInternal fr to True True revertible jt info org st = Some (ptr, st') \<and>
    is_trampoline (pmem st1) ptr [] fr (read_bytes (pmem st) fr off) \<and>
    (\<forall>x. off + LongJump \<le> offset ptr x \<longrightarrow> pmem st1 x = pmem st x) \<and>
    at_rest (mach st) (mach st1) \<and> patches st1 = patches st \<and> kpatches st1 = kpatches st \<and> kinfos st1 = kinfos st0 \<and>
    code st1 = NoError \<and> (\<forall>k. heap_room (k + 12) st \<longrightarrow> heap_room k st') \<and>
    jump_placed (jump_for (pmem (with_word org ptr st1)) fr to ab slot) revertible (with_word org ptr st1) st'"
proof -
  let ?least = "jump_len ab slot"
  have same: "st0 = st\<lparr>kinfos := kinfos st0\<rparr>" using route_slot_same [OF slot] .
  have m0: "mach st0 = mach st" "patches st0 = patches st" "kpatches st0 = kpatches st"
    "tempExecutableMemory st0 = tempExecutableMemory st" "tempExecutableMemoryOff st0 = tempExecutableMemoryOff st"
    by (subst same, simp)+
  have h0: "heap_room k st0 = heap_room k st" for k by (simp add: heap_room_def m0)
  have fits: "trampoline_fits st0 fr ?least (length ([] :: byte list))"
    and w: "org = 0 \<or> writable (mach st) org 8" and p: "ptr \<noteq> 0" and s: "slot = 0 \<or> slot_apart fr slot"
    using wrap by (auto simp: wrap_ready_def trampoline_fits_def Let_def ab_def ptr_def m0)
  have heap6: "heap_room 6 st0" using heap_room_mono [OF heap, of st 6] by (simp add: h0)
  obtain st1 where st1: "createTrampoline fr ?least [] st0 = Some (ptr, st1)"
    "is_trampoline (pmem st1) ptr [] fr (read_bytes (pmem st) fr off)"
    "\<forall>x. off + LongJump \<le> offset ptr x \<longrightarrow> pmem st1 x = pmem st x"
    "st1 = st0\<lparr>tempExecutableMemoryOff := tempExecutableMemoryOff st + off + LongJump, code := NoError, mach := mach st1\<rparr>"
    "at_rest (mach st) (mach st1)" "\<forall>k. heap_room (k + 6) st \<longrightarrow> heap_room k st1"
    using createTrampoline_ok [of st0, unfolded m0 h0, OF ready heap6 [unfolded h0] fits] unfolding off_def ptr_def by auto
  have w1: "org = 0 \<or> writable (mach st1) org 8" using w st1(5) by (auto simp: writable_def at_rest_def same_cpu_def)
  let ?st2 = "with_word org ptr st1"
  have "heap_room (6 + 6) st" using heap by simp
  then have "heap_room 6 ?st2" using st1(6) with_word_rest(2) by blast
  moreover have "window_ready (mach ?st2)" using at_rest_ready [OF st1(5) ready] by (simp add: with_word_rest)
  ultimately obtain st' where st': "route_finish fr to ab True revertible 0 ptr slot ?st2 = Some (ptr, st')"
    "jump_placed (jump_for (pmem ?st2) fr to ab slot) revertible ?st2 st'"
    using route_finish_ok [of ?st2 slot fr to ab revertible ptr] s by blast
  have "route_fresh (\<lambda>f n. createTrampoline f n []) fr ab jt info st = Some (ptr, slot, st1)"
    using slot st1(1) by (auto simp: route_fresh_def route_slot_def ab_def jump_len_def split: if_splits)
  then have "routeFunctionInternal fr to True True revertible jt info org st = Some (ptr, st')"
    using unrouted reach st'(1) p route_finish_org [OF w1, of fr to ab True revertible ptr slot]
    by (auto simp: routeFunctionInternal_def route_with_def ab_def Let_def split: prod.splits)
  moreover have "patches st1 = patches st" "kpatches st1 = kpatches st" "code st1 = NoError" "kinfos st1 = kinfos st0"
    using arg_cong [OF st1(4), of patches] arg_cong [OF st1(4), of kpatches] arg_cong [OF st1(4), of code]
      arg_cong [OF st1(4), of kinfos] m0 by simp_all
  moreover have "heap_room k st'" if "heap_room (k + 12) st" for k
  proof -
    have "heap_room (k + 6 + 6) st" using that by (simp add: add.assoc)
    then have "heap_room (k + 6) ?st2" using st1(6) with_word_rest(2) by blast
    then show ?thesis using st'(2) by (simp add: jump_placed_def)
  qed
  ultimately show ?thesis using st1(2,3,5) st'(2) by blast
qed

section \<open>Taking patches back\<close>

definition patch_covers :: "'z patcher_scheme \<Rightarrow> addr \<Rightarrow> addr \<Rightarrow> bool" where
  "patch_covers st x p \<longleftrightarrow> (case patches st p of None \<Rightarrow> False | Some pt \<Rightarrow> offset (pt_address pt) x < length (pt_original pt))"

text \<open>
  \<open>reverts_to m0 S st\<close>: the patches kept by the patcher hold the bytes of \<open>m0\<close>, and every address outside
  \<open>S\<close> that differs from \<open>m0\<close> belongs to one of them.
\<close>

definition keeps_original :: "memory \<Rightarrow> 'z patcher_scheme \<Rightarrow> addr \<Rightarrow> bool" where
  "keeps_original m0 st p \<longleftrightarrow> (\<exists>pt. patches st p = Some pt \<and> length (pt_original pt) \<le> 2 ^ 64 \<and>
     pt_original pt = read_bytes m0 (pt_address pt) (length (pt_original pt)))"

definition reverts_to :: "memory \<Rightarrow> addr set \<Rightarrow> 'z patcher_scheme \<Rightarrow> bool" where
  "reverts_to m0 S st \<longleftrightarrow> distinct (ev_items (kpatches st)) \<and> (ev_rsvd (kpatches st) = 0 \<longrightarrow> ev_items (kpatches st) = []) \<and>
     (\<forall>p \<in> set (ev_items (kpatches st)). keeps_original m0 st p) \<and>
     (\<forall>x. x \<notin> S \<and> pmem st x \<noteq> m0 x \<longrightarrow> (\<exists>p \<in> set (ev_items (kpatches st)). patch_covers st x p))"

lemma keeps_original_mach [simp]:
  "keeps_original m0 (st\<lparr>mach := c\<rparr>) = keeps_original m0 st" "patch_covers (st\<lparr>mach := c\<rparr>) = patch_covers st"
  by (simp_all add: keeps_original_def patch_covers_def fun_eq_iff)

lemma restore_all_ok:
  assumes "opened_from c0 (mach st)" and "\<And>p. p \<in> set ps \<Longrightarrow> keeps_original m0 st p"
  shows "\<exists>mc. restore_all ps st = Some (st\<lparr>mach := mc\<rparr>) \<and> opened_from c0 mc \<and>
    (\<forall>x. mem mc x = (if \<exists>p \<in> set ps. patch_covers st x p then m0 x else pmem st x))"
  using assms
proof (induction ps arbitrary: st)
  case Nil
  then show ?case by (intro exI [of _ "mach st"]) simp
next
  case (Cons p ps)
  obtain pt where pt: "patches st p = Some pt" "length (pt_original pt) \<le> 2 ^ 64"
    "pt_original pt = read_bytes m0 (pt_address pt) (length (pt_original pt))" using Cons.prems(2) [of p] by (auto simp: keeps_original_def)
  obtain c1 where c1: "Patch_restore p st = Some (st\<lparr>mach := c1\<rparr>)" "opened_from c0 c1"
    "mem c1 = write_bytes (pmem st) (pt_address pt) (pt_original pt)"
    using Patch_restore_ok [OF Cons.prems(1) pt(1)] by blast
  obtain mc where mc: "restore_all ps (st\<lparr>mach := c1\<rparr>) = Some (st\<lparr>mach := mc\<rparr>)" "opened_from c0 mc"
    "\<forall>x. mem mc x = (if \<exists>p \<in> set ps. patch_covers st x p then m0 x else mem c1 x)"
    using Cons.IH [of "st\<lparr>mach := c1\<rparr>"] Cons.prems(2) c1(2) by auto
  have "mem c1 x = (if patch_covers st x p then m0 x else pmem st x)" for x
    using c1(3) pt(1,2) nth_read_bytes [of "offset (pt_address pt) x" "length (pt_original pt)" m0 "pt_address pt"] pt(3)
    by (auto simp: write_bytes_apply patch_covers_def)
  then show ?case using mc c1(1) by (intro exI [of _ mc]) auto
qed

lemma delete_kept_ok:
  assumes "distinct ps" and "\<And>p. p \<in> set ps \<Longrightarrow> patches st p \<noteq> None"
  shows "\<exists>ps'. ev_delete_all Patch_deleter ps st = Some (st\<lparr>patches := ps'\<rparr>)"
  using assms
proof (induction ps arbitrary: st)
  case Nil
  then show ?case by (intro exI [of _ "patches st"]) simp
next
  case (Cons p ps)
  obtain f where f: "Patch_deleter p st = Some (st\<lparr>patches := f\<rparr>)" "\<And>q. q \<noteq> p \<Longrightarrow> f q = patches st q"
  proof (cases "p = 0")
    case True
    then show ?thesis using that [of "patches st"] by (simp add: Patch_deleter_def)
  next
    case False
    then show ?thesis using that [of "(patches st)(p := None)"] Cons.prems(2) [of p] by (simp add: Patch_deleter_def)
  qed
  then show ?case using Cons.IH [of "st\<lparr>patches := f\<rparr>"] Cons.prems by (simp, metis)
qed

lemma delete_infos_ok [simp]: "ev_delete_all (\<lambda>_. Some) xs s = Some s"
  by (induction xs) simp_all

lemma patcher_deinit_frees:
  assumes "remove_patches st = Some st1" and "distinct (ev_items (kpatches st1))"
    and "\<And>p. p \<in> set (ev_items (kpatches st1)) \<Longrightarrow> patches st1 p \<noteq> None"
    and "ev_rsvd (kpatches st1) = 0 \<Longrightarrow> ev_items (kpatches st1) = []"
  shows "\<exists>st'. patcher_deinit st = Some st' \<and> mach st' = (mach st1)\<lparr>kernelWriteLock := False\<rparr> \<and> ev_items (kpatches st') = []"
proof -
  obtain f where "ev_delete_all Patch_deleter (ev_items (kpatches st1)) st1 = Some (st1\<lparr>patches := f\<rparr>)"
    using delete_kept_ok [of "ev_items (kpatches st1)" st1] assms(2,3) by blast
  then show ?thesis using assms(1,4)
    by (cases "ev_rsvd (kpatches st1) = 0"; cases "ev_rsvd (kinfos st1) = 0")
       (simp_all add: patcher_deinit_def ev_deinit_def Let_def)
qed

lemma fresh_jump_holds:
  assumes "fresh_jump st st' (o1, a1, d1) jp" and "part \<in> set (jump_parts jp)"
  shows "\<exists>p \<in> set ([o1, a1] @ (if d1 \<noteq> 0 then [d1] else [])). holds_patch (patches st') (pmem st) p part"
  using assms by (auto simp: fresh_jump_def holds_jump_def jump_parts_def split: option.splits)

lemma fresh_jump_parts:
  assumes "fresh_jump st st' (o1, a1, d1) jp" and "p \<in> set ([o1, a1] @ (if d1 \<noteq> 0 then [d1] else []))"
  shows "\<exists>part \<in> set (jump_parts jp). holds_patch (patches st') (pmem st) p part"
  using assms by (auto simp: fresh_jump_def holds_jump_def jump_parts_def split: option.splits if_splits)

lemma fresh_jump_old:
  assumes "fresh_jump st st' (o1, a1, d1) jp" and "patches st p \<noteq> None"
  shows "p \<notin> set ([o1, a1] @ (if d1 \<noteq> 0 then [d1] else []))" and "patches st' p = patches st p"
proof -
  have eq: "patches st = (patches st')(o1 := None, a1 := None, d1 := None)" using assms(1) by (simp add: fresh_jump_def)
  show "p \<notin> set ([o1, a1] @ (if d1 \<noteq> 0 then [d1] else []))" "patches st' p = patches st p"
    using assms(2) unfolding eq by (auto split: if_splits)
qed

lemma jump_placed_reverts:
  assumes inv: "reverts_to m0 S st" and placed: "jump_placed jp True st st'"
    and parts: "\<And>part. part \<in> set (jump_parts jp) \<Longrightarrow> length (snd part) \<le> 2 ^ 64 \<and>
      read_bytes (pmem st) (fst part) (length (snd part)) = read_bytes m0 (fst part) (length (snd part))"
  shows "reverts_to m0 S st'"
proof -
  obtain o1 a1 d1 where f: "fresh_jump st st' (o1, a1, d1) jp" "0 < ev_rsvd (kpatches st')" and
    k: "ev_items (kpatches st') = ev_items (kpatches st) @ [o1, a1] @ (if d1 \<noteq> 0 then [d1] else [])" (is "_ = _ @ ?new")
    using placed by (auto simp: jump_placed_def kept_from_def)
  have old: "p \<notin> set ?new" "patches st' p = patches st p" if "p \<in> set (ev_items (kpatches st))" for p
    using fresh_jump_old [OF f(1), of p] inv that by (auto simp: reverts_to_def keeps_original_def)
  have "distinct ?new" using f(1) by (auto simp: fresh_jump_def)
  then have d: "distinct (ev_items (kpatches st'))" using inv old(1) unfolding k by (auto simp: reverts_to_def)
  have orig: "keeps_original m0 st' p" if "p \<in> set (ev_items (kpatches st'))" for p
  proof (cases "p \<in> set (ev_items (kpatches st))")
    case True
    then show ?thesis using inv old(2) by (simp add: reverts_to_def keeps_original_def)
  next
    case False
    then have "p \<in> set ?new" using that unfolding k by simp
    then obtain part where part: "part \<in> set (jump_parts jp)" "holds_patch (patches st') (pmem st) p part"
      using fresh_jump_parts [OF f(1)] by blast
    then show ?thesis using parts [OF part(1)] by (simp add: holds_patch_def keeps_original_def)
  qed
  have cov: "\<exists>p \<in> set (ev_items (kpatches st')). patch_covers st' x p" if "x \<notin> S" "pmem st' x \<noteq> m0 x" for x
  proof (cases "pmem st x = m0 x")
    case True
    then have "write_all (pmem st) (jump_parts jp) x \<noteq> pmem st x" using that placed by (simp add: jump_placed_def)
    then obtain part where part: "part \<in> set (jump_parts jp)" "offset (fst part) x < length (snd part)"
      using write_all_changes parts by blast
    then obtain p where "p \<in> set ?new" "holds_patch (patches st') (pmem st) p part" using fresh_jump_holds [OF f(1)] by blast
    then show ?thesis using part(2) unfolding k by (intro bexI [of _ p]) (auto simp: patch_covers_def holds_patch_def)
  next
    case False
    then obtain p where "p \<in> set (ev_items (kpatches st))" "patch_covers st x p" using inv \<open>x \<notin> S\<close> by (auto simp: reverts_to_def)
    then show ?thesis using old(2) [of p] unfolding k by (intro bexI [of _ p]) (auto simp: patch_covers_def)
  qed
  show ?thesis using d f(2) orig cov by (auto simp: reverts_to_def)
qed

text \<open>The addresses a wrapping route uses besides the function: its trampoline and \<open>*org\<close>.\<close>

definition wrap_scratch :: "addr \<Rightarrow> nat \<Rightarrow> addr \<Rightarrow> addr set" where
  "wrap_scratch ptr n org = {x. offset ptr x < n + LongJump} \<union> {x. org \<noteq> 0 \<and> offset org x < 8}"

lemma jump_for_parts:
  assumes "\<And>i. i < jump_len ab slot \<Longrightarrow> m (fr + of_nat i) = m0 (fr + of_nat i)"
    and "\<And>i. slot \<noteq> 0 \<Longrightarrow> i < 8 \<Longrightarrow> m (slot + of_nat i) = m0 (slot + of_nat i)"
    and "part \<in> set (jump_parts (jump_for m' fr to ab slot))"
  shows "length (snd part) \<le> 2 ^ 64 \<and> read_bytes m (fst part) (length (snd part)) = read_bytes m0 (fst part) (length (snd part))"
proof -
  have eq: "read_bytes m (fr + of_nat k) n = read_bytes m0 (fr + of_nat k) n" if "k + n \<le> jump_len ab slot" for k n
    using assms(1) [of "k + i" for i] that by (intro read_bytes_cong) (simp add: add.assoc)
  consider "slot \<noteq> 0" | "slot = 0" ab | "slot = 0" "\<not> ab" by blast
  then show ?thesis
  proof cases
    case 1
    then have "read_bytes m slot 8 = read_bytes m0 slot 8" using assms(2) by (intro read_bytes_cong) simp
    then show ?thesis using 1 assms(3) eq [of 0 2] eq [of 2 4]
      by (auto simp: jump_parts_def jump_for_def medium_jump_def jump_len_def jump_consts Let_def)
  next
    case 2
    then show ?thesis using assms(3) eq [of 6 8] eq [of 0 2] eq [of 2 4]
      by (auto simp: jump_parts_def jump_for_def long_jump_def jump_len_def jump_consts Let_def)
  next
    case 3
    then show ?thesis using assms(3) eq [of 0 1] eq [of 1 4]
      by (auto simp: jump_parts_def jump_for_def small_jump_def jump_len_def jump_consts Let_def)
  qed
qed

lemma reverts_to_scratch:
  assumes "reverts_to m0 S st" and "patches st' = patches st" and "kpatches st' = kpatches st"
    and "\<And>x. x \<notin> S' \<Longrightarrow> pmem st' x = pmem st x"
  shows "reverts_to m0 (S \<union> S') st'"
  using assms by (auto simp: reverts_to_def keeps_original_def patch_covers_def)

section \<open>An instance\<close>

text \<open>A function that begins with \<open>push rbp; mov eax, 1\<close>, in otherwise blank memory.\<close>

definition fn_memory :: memory where
  "fn_memory = write_bytes (\<lambda>_. 0) 0x200000 [0x55, 0xB8, 0x01, 0x00, 0x00, 0x00, 0xC3]"

definition fn_patcher :: patcher where
  "fn_patcher = (bare_patcher fn_memory [image_info ''kernel'' 0x200000 0x1000] (\<lambda>_. kext_at ''kext'' 0))
     \<lparr>mach := (bare_machine fn_memory)\<lparr>readonly := (\<lambda>x. x < 0xC00000)\<rparr>\<rparr>"

lemma fn_insns: "quickInstructionSize fn_memory 0x200000 5 = 6" by code_simp

lemma fn_unrouted: "fst (readChain fn_memory 0x200000) = 0" by code_simp

lemma fn_near: "\<not> far_away 0x200000 0x300000" by code_simp

lemma fn_rest: "window_ready (mach fn_patcher)" "heap_room 12 fn_patcher" "heap_room 6 fn_patcher"
  "pmem fn_patcher = fn_memory" "writable (mach fn_patcher) 0xC00000 8"
proof -
  show "heap_room 12 fn_patcher" "heap_room 6 fn_patcher"
    by (rule bare_heap_room; simp add: fn_patcher_def bare_patcher_def bare_machine_def)+
  show "writable (mach fn_patcher) 0xC00000 8"
    by (simp add: writable_list fn_patcher_def) code_simp
qed (simp_all add: fn_patcher_def window_ready_def cr0_honest_def bare_machine_def)

lemma fn_fits: "trampoline_fits fn_patcher 0x200000 5 0"
  unfolding trampoline_fits_def fn_rest fn_insns Let_def
  by (intro conjI apartI) (simp_all add: fn_patcher_def bare_patcher_def fn_memory_def write_bytes_apply offset_def TempExecutableMemorySize_def LongJump_def)

text \<open>The same with an address slot behind the function, for a replacement that is out of reach.\<close>

definition slot_patcher :: patcher where
  "slot_patcher = fn_patcher\<lparr>kinfos := \<lparr>ev_items = [(image_info ''kernel'' 0x200000 0x1000)\<lparr>address_slots := 0x200800, address_slots_end := 0x200900\<rparr>],
     ev_rsvd = 1\<rparr>\<rparr>"

lemma fn_insns_slot: "quickInstructionSize fn_memory 0x200000 6 = 6" by code_simp

lemma fn_far: "far_away 0x200000 0xFFFFFF8000000000" by code_simp

lemma slot_rest: "window_ready (mach slot_patcher)" "heap_room 12 slot_patcher" "pmem slot_patcher = fn_memory"
  "writable (mach slot_patcher) 0xC00000 8"
  using fn_rest by (simp_all add: slot_patcher_def heap_room_def)

lemma slot_taken: "\<exists>st0. route_slot True Auto (Some 0) slot_patcher = Some (0x200800, st0)"
  by (simp add: route_slot_def take_slot_def slot_patcher_def kinfo_def ev_size_def getAddressSlot_def)

lemma slot_wrap: "wrap_ready slot_patcher 0x200000 True 0x200800 0xC00000"
proof -
  have l: "jump_len True 0x200800 = 6" by (simp add: jump_len_def MediumJump_def)
  have "trampoline_fits slot_patcher 0x200000 6 0"
    unfolding trampoline_fits_def slot_rest(3) fn_insns_slot Let_def
    by (intro conjI apartI) (simp_all add: slot_patcher_def fn_patcher_def bare_patcher_def fn_memory_def write_bytes_apply offset_def
        TempExecutableMemorySize_def LongJump_def)
  moreover have "slot_near 0x200000 0x200800" by code_simp
  ultimately show ?thesis unfolding wrap_ready_def l slot_rest(3) fn_insns_slot Let_def
    by (intro conjI disjI2 slot_rest apartI)
       (simp_all add: slot_patcher_def fn_patcher_def bare_patcher_def offset_def LongJump_def)
qed

lemma fn_body: "read_bytes fn_memory 0x200000 6 = [0x55, 0xB8, 0x01, 0x00, 0x00, 0x00]"
  by code_simp

text \<open>A patcher that replaced the first byte of the function by a breakpoint.\<close>

definition kept_patcher :: patcher where
  "kept_patcher = fn_patcher\<lparr>mach := (mach fn_patcher)\<lparr>mem := fn_memory(0x200000 := 0xCC)\<rparr>,
     patches := [0x700000 \<mapsto> \<lparr>pt_address = 0x200000, pt_original = [0x55], pt_replaced = [0xCC]\<rparr>],
     kpatches := \<lparr>ev_items = [0x700000], ev_rsvd = 4\<rparr>\<rparr>"

lemma kept_reverts: "reverts_to fn_memory {} kept_patcher"
  by (simp add: reverts_to_def keeps_original_def patch_covers_def kept_patcher_def fn_memory_def)

section \<open>Properties\<close>

text \<open>
  C1. Routing a fresh function with a wrapper, for any image (\<open>info\<close>, which may provide an address slot): the function
  begins with a jump to the replacement, of the kind the distance, the request and the slot call for. The pointer that is
  returned (and stored in \<open>*org\<close>) leads to the function as it was: a copy of the whole instructions, measured by
  \<open>quickInstructionSize\<close>, that cover the jump, followed by a jump to the first instruction behind them. Only the bytes
  of the jump, the address slot, the piece of the executable buffer and \<open>*org\<close> change, and the slot is used up.
\<close>

theorem routeFunctionInternal_wraps:
  assumes "window_ready (mach st)" and "heap_room 12 st" and "fst (readChain (pmem st) fr) = 0"
    and "jt = Short \<Longrightarrow> \<not> far_away fr to" and "route_slot (far_away fr to \<or> jt = Long) jt info st = Some (slot, st0)"
    and "wrap_ready st fr (far_away fr to \<or> jt = Long) slot org"
  shows "\<exists>ptr body st'. routeFunctionInternal fr to True True revertible jt info org st = Some (ptr, st') \<and>
    body = read_bytes (pmem st) fr (quickInstructionSize (pmem st) fr (jump_len (far_away fr to \<or> jt = Long) slot)) \<and>
    jump_len (far_away fr to \<or> jt = Long) slot \<le> length body \<and>
    readChain (pmem st') fr = (to, if slot \<noteq> 0 then Medium else if far_away fr to \<or> jt = Long then Long else Short) \<and>
    is_trampoline (pmem st') ptr [] fr body \<and> (org \<noteq> 0 \<longrightarrow> load64 (pmem st') org = ptr) \<and>
    (\<forall>x. jump_len (far_away fr to \<or> jt = Long) slot \<le> offset fr x \<and> (slot = 0 \<or> 8 \<le> offset slot x) \<and>
       length body + LongJump \<le> offset ptr x \<and> (org = 0 \<or> 8 \<le> offset org x) \<longrightarrow> pmem st' x = pmem st x) \<and>
    kinfos st' = kinfos st0 \<and> at_rest (mach st) (mach st') \<and> getError st' = NoError"
proof -
  define ab where "ab = (far_away fr to \<or> jt = Long)"
  define off where "off = quickInstructionSize (pmem st) fr (jump_len ab slot)"
  define ptr where "ptr = tempExecutableMemory st + of_nat (tempExecutableMemoryOff st)"
  let ?body = "read_bytes (pmem st) fr off"
  obtain st1 st' where r: "routeFunctionInternal fr to True True revertible jt info org st = Some (ptr, st')"
    "is_trampoline (pmem st1) ptr [] fr ?body" "\<forall>x. off + LongJump \<le> offset ptr x \<longrightarrow> pmem st1 x = pmem st x"
    "at_rest (mach st) (mach st1)" "code st1 = NoError"
    "jump_placed (jump_for (pmem (with_word org ptr st1)) fr to ab slot) revertible (with_word org ptr st1) st'"
    "kinfos st1 = kinfos st0"
    using route_wrap_ok [OF assms] unfolding ab_def off_def ptr_def by blast
  note W = wrap_ready_apart [OF assms(6), folded ab_def, folded off_def ptr_def]
  have jmp: "pmem st' x = pmem (with_word org ptr st1) x" if "jump_len ab slot \<le> offset fr x" "slot = 0 \<or> 8 \<le> offset slot x" for x
    using jump_placed_frame [OF r(6)] that by auto
  have tr: "is_trampoline (pmem st') ptr [] fr ?body"
  proof (rule is_trampoline_cong [OF r(2)])
    fix i assume "i < length [] + length ?body + LongJump"
    then have "pmem st' (ptr + of_nat i) = pmem (with_word org ptr st1) (ptr + of_nat i)" "org = 0 \<or> 8 \<le> offset org (ptr + of_nat i)"
      using jmp [of "ptr + of_nat i"] W(1) W(3) [of i] by auto
    then show "pmem st' (ptr + of_nat i) = pmem st1 (ptr + of_nat i)" by (simp add: with_word_rest)
  qed
  have org: "load64 (pmem st') org = ptr" if "org \<noteq> 0"
  proof (rule load64_le_bytes)
    have "read_bytes (pmem st') org 8 = read_bytes (pmem (with_word org ptr st1)) org 8"
      by (rule read_bytes_cong) (use jmp W(1) W(4) [OF that] in \<open>meson order_trans\<close>)
    then show "read_bytes (pmem st') org 8 = le_bytes 8 ptr" using with_word_rest(5) [OF that] by simp
  qed
  have "at_rest (mach st) (mach st')" "getError st' = NoError" "kinfos st' = kinfos st0"
    using at_rest_trans [OF r(4) at_rest_trans [OF same_cpu_at_rest [OF with_word_rest(3)]]] r(5-7) jump_placed_same(1,2) [OF r(6)]
    by (auto simp: jump_placed_def getError_def with_word_def)
  moreover have "readChain (pmem st') fr = (to, if slot \<noteq> 0 then Medium else if ab then Long else Short)"
    using r(6) W(2) jump_reads_back [of slot ab fr to "pmem (with_word org ptr st1)"] by (auto simp: jump_placed_def ab_def)
  ultimately show ?thesis using r(1,3) tr org W(1) jmp unfolding ab_def [symmetric] off_def [symmetric]
    by (intro exI [of _ ptr] exI [of _ ?body] exI [of _ st']) (auto simp: with_word_rest)
qed

theorem routeFunctionInternal_wraps_witness:
  "\<exists>ptr st'. routeFunctionInternal 0x200000 0xFFFFFF8000000000 True True True Auto (Some 0) 0xC00000 slot_patcher = Some (ptr, st') \<and>
     readChain (pmem st') 0x200000 = (0xFFFFFF8000000000, Medium) \<and>
     is_trampoline (pmem st') ptr [] 0x200000 [0x55, 0xB8, 0x01, 0x00, 0x00, 0x00] \<and> load64 (pmem st') 0xC00000 = ptr"
proof -
  have u: "fst (readChain (pmem slot_patcher) 0x200000) = 0" using fn_unrouted by (simp add: slot_rest)
  have ab: "(far_away 0x200000 0xFFFFFF8000000000 \<or> Auto = Long) = True" using fn_far by simp
  obtain st0 where s: "route_slot (far_away 0x200000 0xFFFFFF8000000000 \<or> Auto = Long) Auto (Some 0) slot_patcher = Some (0x200800, st0)"
    using slot_taken unfolding ab by blast
  have l: "jump_len True 0x200800 = 6" by (simp add: jump_len_def MediumJump_def)
  from routeFunctionInternal_wraps [OF slot_rest(1,2) u _ s, of "0xC00000" True] slot_wrap show ?thesis
    unfolding ab l slot_rest(3) fn_insns_slot fn_body by auto
qed

text \<open>
  C9. Routing a fresh function without a wrapper: afterwards the function begins with a jump to the
  replacement, of the kind the distance and the request call for; no byte outside that jump changes
  and the processor is as before.
\<close>

theorem routeFunctionInternal_in_place:
  assumes "window_ready (mach st)" and "heap_room 6 st" and "fst (readChain (pmem st) fr) = 0"
    and "jt = Short \<Longrightarrow> \<not> far_away fr to"
  shows "\<exists>st'. routeFunctionInternal fr to False True revertible jt info 0 st = Some (0, st') \<and>
    readChain (pmem st') fr = (to, if far_away fr to \<or> jt = Long then Long else Short) \<and>
    (\<forall>x. (if far_away fr to \<or> jt = Long then LongJump else SmallJump) \<le> offset fr x \<longrightarrow> pmem st' x = pmem st x) \<and>
    at_rest (mach st) (mach st') \<and> getError st' = getError st"
proof -
  let ?abs = "far_away fr to \<or> jt = Long"
  obtain st' where st': "routeFunctionInternal fr to False True revertible jt info 0 st = Some (0, st')"
    "jump_placed (jump_for (pmem st) fr to ?abs 0) revertible st st'"
    using route_plain_ok [OF assms(1-3)] assms(4) unfolding routeFunctionInternal_def by blast
  moreover have "pmem st' x = pmem st x" if "(if ?abs then LongJump else SmallJump) \<le> offset fr x" for x
    using jump_placed_frame [OF st'(2), of x] that by (simp add: jump_len_def)
  moreover have "at_rest (mach st) (mach st')" using st'(2) by (simp add: jump_placed_def)
  ultimately show ?thesis using jump_placed_same(1) [OF st'(2)] jump_placed_reads [OF st'(2)]
    by (auto simp: getError_def)
qed

theorem routeFunctionInternal_in_place_witness:
  "\<exists>st'. routeFunctionInternal 0x200000 0x300000 False True True Auto None 0 fn_patcher = Some (0, st') \<and>
     readChain (pmem st') 0x200000 = (0x300000, Short) \<and> getError st' = NoError"
proof -
  have "fst (readChain (pmem fn_patcher) 0x200000) = 0" using fn_unrouted by (simp add: fn_rest)
  from routeFunctionInternal_in_place [OF fn_rest(1,3) this, of Auto "0x300000" True None] fn_near
  show ?thesis by (auto simp: fn_patcher_def bare_patcher_def getError_def)
qed

text \<open>
  C10. \<open>createTrampoline\<close> builds, in the executable buffer, the given opcodes followed by whole
  instructions of the function (at least \<open>least\<close> bytes of them) and a jump to the instruction behind
  them; nothing outside that piece of the buffer changes, and the piece is never handed out again.
\<close>

theorem createTrampoline_relocates:
  assumes "window_ready (mach st)" and "heap_room 6 st" and "trampoline_fits st func least (length opcodes)"
  shows "\<exists>ptr body st'. createTrampoline func least opcodes st = Some (ptr, st') \<and>
    body = read_bytes (pmem st) func (quickInstructionSize (pmem st) func least) \<and> least \<le> length body \<and>
    is_trampoline (pmem st') ptr opcodes func body \<and>
    (\<forall>x. length opcodes + length body + LongJump \<le> offset ptr x \<longrightarrow> pmem st' x = pmem st x) \<and>
    tempExecutableMemory st' + of_nat (tempExecutableMemoryOff st') = ptr + of_nat (length opcodes + length body + LongJump) \<and>
    getError st' = NoError \<and> at_rest (mach st) (mach st')"
proof -
  let ?off = "quickInstructionSize (pmem st) func least"
  let ?ptr = "tempExecutableMemory st + of_nat (tempExecutableMemoryOff st)"
  obtain st' where st': "createTrampoline func least opcodes st = Some (?ptr, st')"
    "is_trampoline (pmem st') ?ptr opcodes func (read_bytes (pmem st) func ?off)"
    "\<forall>x. length opcodes + ?off + LongJump \<le> offset ?ptr x \<longrightarrow> pmem st' x = pmem st x"
    "st' = st\<lparr>tempExecutableMemoryOff := tempExecutableMemoryOff st + ?off + LongJump + length opcodes, code := NoError, mach := mach st'\<rparr>"
    "at_rest (mach st) (mach st')"
    using createTrampoline_ok [OF assms] by blast
  have "least \<le> ?off" using assms(3) quickInstructionSize_covers by (simp add: trampoline_fits_def Let_def)
  moreover have "getError st' = NoError" "tempExecutableMemory st' = tempExecutableMemory st"
    "tempExecutableMemoryOff st' = tempExecutableMemoryOff st + ?off + LongJump + length opcodes"
    using arg_cong [OF st'(4), of code] arg_cong [OF st'(4), of tempExecutableMemory]
      arg_cong [OF st'(4), of tempExecutableMemoryOff] by (simp_all add: getError_def)
  ultimately show ?thesis using st'(1,2,3,5)
    by (intro exI [of _ ?ptr] exI [of _ "read_bytes (pmem st) func ?off"] exI [of _ st']) (simp add: algebra_simps)
qed

theorem createTrampoline_relocates_witness:
  "\<exists>ptr st'. createTrampoline 0x200000 5 [] fn_patcher = Some (ptr, st') \<and>
     is_trampoline (pmem st') ptr [] 0x200000 [0x55, 0xB8, 0x01, 0x00, 0x00, 0x00]"
  using createTrampoline_relocates [OF fn_rest(1,3), of "0x200000" 5 "[]"] fn_fits
  by (auto simp: fn_rest fn_insns fn_body)

text \<open>
  C3. A revertible wrapping route, for any image and with or without an address slot, of a function that still has its
  original bytes, as the slot has, keeps the patcher able to take all its patches back: what the route changes outside its
  trampoline and \<open>*org\<close>, the address slot included, is recorded with the bytes that were there.
\<close>

theorem routeFunctionInternal_revertible:
  assumes "window_ready (mach st)" and "heap_room 12 st" and "fst (readChain (pmem st) fr) = 0"
    and "jt = Short \<Longrightarrow> \<not> far_away fr to" and "route_slot (far_away fr to \<or> jt = Long) jt info st = Some (slot, st0)"
    and "wrap_ready st fr (far_away fr to \<or> jt = Long) slot org"
    and "reverts_to m0 S st" and "\<And>i. i < LongJump \<Longrightarrow> pmem st (fr + of_nat i) = m0 (fr + of_nat i)"
    and "\<And>i. slot \<noteq> 0 \<Longrightarrow> i < 8 \<Longrightarrow> pmem st (slot + of_nat i) = m0 (slot + of_nat i)"
  shows "\<exists>ptr n st'. routeFunctionInternal fr to True True True jt info org st = Some (ptr, st') \<and>
    n = quickInstructionSize (pmem st) fr (jump_len (far_away fr to \<or> jt = Long) slot) \<and>
    reverts_to m0 (S \<union> wrap_scratch ptr n org) st' \<and> window_ready (mach st') \<and>
    (\<forall>k. heap_room (k + 12) st \<longrightarrow> heap_room k st')"
proof -
  define ab where "ab = (far_away fr to \<or> jt = Long)"
  define off where "off = quickInstructionSize (pmem st) fr (jump_len ab slot)"
  define ptr where "ptr = tempExecutableMemory st + of_nat (tempExecutableMemoryOff st)"
  obtain st1 st' where r: "routeFunctionInternal fr to True True True jt info org st = Some (ptr, st')"
    "\<forall>x. off + LongJump \<le> offset ptr x \<longrightarrow> pmem st1 x = pmem st x"
    "at_rest (mach st) (mach st1)" "patches st1 = patches st" "kpatches st1 = kpatches st"
    "\<forall>k. heap_room (k + 12) st \<longrightarrow> heap_room k st'"
    "jump_placed (jump_for (pmem (with_word org ptr st1)) fr to ab slot) True (with_word org ptr st1) st'"
    using route_wrap_ok [OF assms(1-6)] unfolding ab_def off_def ptr_def by blast
  note W = wrap_ready_apart [OF assms(6), folded ab_def, folded off_def ptr_def]
  let ?st2 = "with_word org ptr st1"
  have same: "pmem ?st2 x = pmem st x" if "x \<notin> wrap_scratch ptr off org" for x
    using that r(2) with_word_rest(4) [of org x ptr st1] by (auto simp: wrap_scratch_def not_less)
  have inv: "reverts_to m0 (S \<union> wrap_scratch ptr off org) ?st2"
    using reverts_to_scratch [OF assms(7), of ?st2] same r(4,5) by (auto simp: with_word_def)
  have least: "jump_len ab slot \<le> LongJump" by (simp add: jump_len_def jump_consts)
  have agree: "pmem ?st2 (fr + of_nat i) = m0 (fr + of_nat i)" if "i < jump_len ab slot" for i
    using same [of "fr + of_nat i"] W(1) W(5) [of i] assms(8) [of i] least that by (auto simp: wrap_scratch_def)
  have agree_slot: "pmem ?st2 (slot + of_nat i) = m0 (slot + of_nat i)" if "slot \<noteq> 0" "i < 8" for i
    using same [of "slot + of_nat i"] W(6) [OF that] assms(9) [OF that] by (auto simp: wrap_scratch_def)
  have "reverts_to m0 (S \<union> wrap_scratch ptr off org) st'"
    by (rule jump_placed_reverts [OF inv r(7)], rule jump_for_parts [where fr = fr and ab = ab and slot = slot])
       (simp_all add: agree agree_slot)
  moreover have "window_ready (mach st')"
    using r(7) at_rest_ready [of "mach ?st2" "mach st'"] at_rest_ready [OF r(3) assms(1)] by (auto simp: jump_placed_def with_word_rest)
  ultimately show ?thesis using r(1,6) unfolding ab_def off_def by blast
qed

theorem routeFunctionInternal_revertible_witness:
  "\<exists>ptr n st'. routeFunctionInternal 0x200000 0xFFFFFF8000000000 True True True Auto (Some 0) 0xC00000 slot_patcher = Some (ptr, st') \<and>
     n = 6 \<and> reverts_to fn_memory (wrap_scratch ptr n 0xC00000) st'"
proof -
  have u: "fst (readChain (pmem slot_patcher) 0x200000) = 0" using fn_unrouted by (simp add: slot_rest)
  have ab: "(far_away 0x200000 0xFFFFFF8000000000 \<or> Auto = Long) = True" using fn_far by simp
  obtain st0 where s: "route_slot (far_away 0x200000 0xFFFFFF8000000000 \<or> Auto = Long) Auto (Some 0) slot_patcher = Some (0x200800, st0)"
    using slot_taken unfolding ab by blast
  have l: "jump_len True 0x200800 = 6" by (simp add: jump_len_def MediumJump_def)
  have v: "reverts_to fn_memory {} slot_patcher"
    by (simp add: reverts_to_def slot_rest) (simp add: slot_patcher_def fn_patcher_def bare_patcher_def)
  from routeFunctionInternal_revertible [OF slot_rest(1,2) u _ s, of "0xC00000" fn_memory "{}"] slot_wrap v show ?thesis
    unfolding ab l slot_rest(3) fn_insns_slot by auto
qed

text \<open>
  C2. Unloading the patcher takes every kept patch back: whatever differs from the original memory
  afterwards lies in the scratch set the invariant names (trampolines and saved pointers), and the
  processor is as before.
\<close>

theorem patcher_deinit_restores:
  assumes "window_ready (mach st)" and "reverts_to m0 S st" and "0 < ev_size (kinfos st)"
  shows "\<exists>st'. patcher_deinit st = Some st' \<and> (\<forall>x. x \<notin> S \<longrightarrow> pmem st' x = m0 x) \<and> ev_items (kpatches st') = [] \<and>
    wp_set (mach st') = wp_set (mach st) \<and> eflags_if (mach st') = eflags_if (mach st) \<and> \<not> lockHeld (mach st')"
proof -
  let ?ps = "ev_items (kpatches st)"
  note inv = assms(2) [unfolded reverts_to_def]
  obtain c1 where c1: "kw_on st = Some (KERN_SUCCESS, st\<lparr>mach := c1\<rparr>)" "opened_from (mach st) c1" "mem c1 = pmem st"
    using kw_on_ok [OF assms(1)] by blast
  obtain c2 where c2: "restore_all ?ps (st\<lparr>mach := c1\<rparr>) = Some (st\<lparr>mach := c2\<rparr>)" "opened_from (mach st) c2"
    "\<forall>x. mem c2 x = (if \<exists>p \<in> set ?ps. patch_covers st x p then m0 x else pmem st x)"
  proof -
    have "keeps_original m0 (st\<lparr>mach := c1\<rparr>) p" if "p \<in> set ?ps" for p using inv that by simp
    from restore_all_ok [of "mach st" "st\<lparr>mach := c1\<rparr>" ?ps, OF _ this] c1(2,3) that show ?thesis by auto
  qed
  obtain c3 where c3: "kw_off (st\<lparr>mach := c2\<rparr>) = Some (KERN_SUCCESS, st\<lparr>mach := c3\<rparr>)" "same_cpu (mach st) c3" "mem c3 = mem c2"
    using kw_off_ok [of "mach st" "st\<lparr>mach := c2\<rparr>"] c2(2) assms(1) by auto
  have m3: "mem c3 x = m0 x" if "x \<notin> S" for x using c2(3) c3(3) inv that by (auto split: if_splits)
  have live: "patches st p \<noteq> None" if "p \<in> set ?ps" for p using inv that by (auto simp: keeps_original_def)
  have rm: "remove_patches st = Some (st\<lparr>mach := c3\<rparr>)"
    using assms(3) c1(1) c2(1) c3(1) by (simp add: remove_patches_def)
  obtain st' where st': "patcher_deinit st = Some st'" "mach st' = c3\<lparr>kernelWriteLock := False\<rparr>" "ev_items (kpatches st') = []"
    using patcher_deinit_frees [OF rm] inv live by auto
  have "\<not> lockHeld (mach st)" using assms(1) by (simp add: window_ready_def)
  then show ?thesis using st' m3 c3(2) by (intro exI [of _ st']) (simp add: same_cpu_def wp_set_def)
qed

theorem patcher_deinit_restores_witness:
  "\<exists>st'. patcher_deinit kept_patcher = Some st' \<and> (\<forall>x. pmem st' x = fn_memory x) \<and> ev_items (kpatches st') = []"
proof -
  have "window_ready (mach kept_patcher)" using fn_rest(1) by (simp add: kept_patcher_def window_ready_def cr0_honest_def)
  moreover have "0 < ev_size (kinfos kept_patcher)" by (simp add: kept_patcher_def fn_patcher_def bare_patcher_def ev_size_def)
  ultimately show ?thesis using patcher_deinit_restores [OF _ kept_reverts] by auto
qed

end
