(* ===== verification/Memmem.thy ===== *)
theory Memmem
  imports Prelude
begin

text \<open>
  Byte and substring search (\<open>kern_memmem.cpp\<close>): \<open>lilu_os_memchr\<close> over memory, a word at a time, and
  \<open>lilu_os_memmem\<close> with its shift loops for short needles and the two-way algorithm for the others. A block
  of bytes that was found is a list and a pointer into it an index; the null pointer is \<open>None\<close>.
\<close>

section \<open>Searching one byte\<close>

definition ONES :: u64 where "ONES = 0x0101010101010101"

definition HIGHS :: u64 where "HIGHS = ONES * 0x80"

definition HASZERO :: "u64 \<Rightarrow> u64" where
  "HASZERO x = (x - ONES) AND NOT x AND HIGHS"

text \<open>The three loops: up to an aligned address, by words, by bytes.\<close>

primrec memchr_align :: "memory \<Rightarrow> byte \<Rightarrow> addr \<Rightarrow> nat \<Rightarrow> addr \<times> nat" where
  "memchr_align m c s 0 = (s, 0)"
| "memchr_align m c s (Suc n) = (if s AND 7 \<noteq> 0 \<and> m s \<noteq> c then memchr_align m c (s + 1) n else (s, Suc n))"

fun memchr_words :: "memory \<Rightarrow> u64 \<Rightarrow> addr \<Rightarrow> nat \<Rightarrow> addr \<times> nat" where
  "memchr_words m k w n =
     (if 8 \<le> n \<and> HASZERO (load64 m w XOR k) = 0 then memchr_words m k (w + 8) (n - 8) else (w, n))"

declare memchr_words.simps [simp del]

primrec memchr_bytes :: "memory \<Rightarrow> byte \<Rightarrow> addr \<Rightarrow> nat \<Rightarrow> addr option" where
  "memchr_bytes m c s 0 = None"
| "memchr_bytes m c s (Suc n) = (if m s \<noteq> c then memchr_bytes m c (s + 1) n else Some s)"

definition lilu_os_memchr :: "memory \<Rightarrow> addr \<Rightarrow> byte \<Rightarrow> nat \<Rightarrow> addr option" where
  "lilu_os_memchr m src c n =
     (let (s, n1) = memchr_align m c src n;
          (s1, n2) = (if n1 \<noteq> 0 \<and> m s \<noteq> c then memchr_words m (ONES * ucast c) s n1 else (s, n1))
      in memchr_bytes m c s1 n2)"

section \<open>Short needles\<close>

text \<open>The loops over the bytes behind the window, \<open>pos\<close> being where the window starts.\<close>

primrec twobyte_loop :: "u16 \<Rightarrow> u16 \<Rightarrow> nat \<Rightarrow> byte list \<Rightarrow> nat option" where
  "twobyte_loop nw hw pos [] = (if hw = nw then Some pos else None)"
| "twobyte_loop nw hw pos (b # bs) =
     (if hw = nw then Some pos else twobyte_loop nw (push_bit 8 hw OR ucast b) (Suc pos) bs)"

definition twobyte_word :: "byte list \<Rightarrow> u16" where
  "twobyte_word n = push_bit 8 (ucast (n ! 0)) OR ucast (n ! 1)"

definition twobyte_memmem :: "byte list \<Rightarrow> byte list \<Rightarrow> nat option" where
  "twobyte_memmem h n = twobyte_loop (twobyte_word n) (twobyte_word h) 0 (drop 2 h)"

primrec threebyte_loop :: "u32 \<Rightarrow> u32 \<Rightarrow> nat \<Rightarrow> byte list \<Rightarrow> nat option" where
  "threebyte_loop nw hw pos [] = (if hw = nw then Some pos else None)"
| "threebyte_loop nw hw pos (b # bs) =
     (if hw = nw then Some pos else threebyte_loop nw (push_bit 8 (hw OR ucast b)) (Suc pos) bs)"

definition threebyte_word :: "byte list \<Rightarrow> u32" where
  "threebyte_word n = push_bit 24 (ucast (n ! 0)) OR push_bit 16 (ucast (n ! 1)) OR push_bit 8 (ucast (n ! 2))"

definition threebyte_memmem :: "byte list \<Rightarrow> byte list \<Rightarrow> nat option" where
  "threebyte_memmem h n = threebyte_loop (threebyte_word n) (threebyte_word h) 0 (drop 3 h)"

primrec fourbyte_loop :: "u32 \<Rightarrow> u32 \<Rightarrow> nat \<Rightarrow> byte list \<Rightarrow> nat option" where
  "fourbyte_loop nw hw pos [] = (if hw = nw then Some pos else None)"
| "fourbyte_loop nw hw pos (b # bs) =
     (if hw = nw then Some pos else fourbyte_loop nw (push_bit 8 hw OR ucast b) (Suc pos) bs)"

definition fourbyte_word :: "byte list \<Rightarrow> u32" where
  "fourbyte_word n = push_bit 24 (ucast (n ! 0)) OR push_bit 16 (ucast (n ! 1)) OR push_bit 8 (ucast (n ! 2)) OR ucast (n ! 3)"

definition fourbyte_memmem :: "byte list \<Rightarrow> byte list \<Rightarrow> nat option" where
  "fourbyte_memmem h n = fourbyte_loop (fourbyte_word n) (fourbyte_word h) 0 (drop 4 h)"

section \<open>The two-way algorithm\<close>

text \<open>The table of the last places of each byte, counted from 1; its domain is \<open>byteset\<close>.\<close>

definition shift_table :: "byte list \<Rightarrow> byte \<Rightarrow> nat option" where
  "shift_table n = fold (\<lambda>i sh. sh(n ! i \<mapsto> i + 1)) [0..<length n] Map.empty"

text \<open>
  The maximal suffix: \<open>a\<close> and \<open>b\<close> are \<open>ip + 1\<close> and \<open>jp + 1\<close> (\<open>ip\<close> starts at -1), \<open>gt x y\<close> is the comparison
  of \<open>n[ip+k]\<close> with \<open>n[jp+k]\<close> that keeps the first suffix, \<open>>\<close> in the first run and \<open><\<close> in the second. Start and
  period are returned. The offset \<open>k\<close> is positive throughout.
\<close>

function max_suffix :: "(byte \<Rightarrow> byte \<Rightarrow> bool) \<Rightarrow> byte list \<Rightarrow> nat \<Rightarrow> nat \<Rightarrow> nat \<Rightarrow> nat \<Rightarrow> nat \<times> nat" where
  "max_suffix gt ns a b k p =
     (if b + k \<le> length ns \<and> 0 < k then
        (if ns ! (a + k - 1) = ns ! (b + k - 1) then
           (if k = p then max_suffix gt ns a (b + p) 1 p else max_suffix gt ns a b (k + 1) p)
         else if gt (ns ! (a + k - 1)) (ns ! (b + k - 1)) then max_suffix gt ns a (b + k) 1 (b + k - a)
         else max_suffix gt ns b (b + 1) 1 1)
      else (a, p))"
  by pat_completeness auto
termination
  by (relation "measures [\<lambda>(g, n, a, b, k, p). Suc (length n) - b, \<lambda>(g, n, a, b, k, p). Suc (length n) - k]") auto


definition twoway_suffix :: "byte list \<Rightarrow> nat \<times> nat" where
  "twoway_suffix ns =
     (let (a, p0) = max_suffix (\<lambda>x y. x > y) ns 0 1 1 1; (a2, p) = max_suffix (\<lambda>x y. x < y) ns 0 1 1 1
      in if a2 > a then (a2, p) else (a, p0))"

text \<open>The comparisons of the right half, upwards from \<open>k\<close>, and of the left half, downwards from \<open>k\<close>.\<close>

function right_scan :: "byte list \<Rightarrow> byte list \<Rightarrow> nat \<Rightarrow> nat \<Rightarrow> nat" where
  "right_scan hs ns pos k =
     (if k < length ns \<and> ns ! k = hs ! (pos + k) then right_scan hs ns pos (k + 1) else k)"
  by pat_completeness auto
termination by (relation "measure (\<lambda>(hs, ns, pos, k). length ns - k)") auto

fun left_scan :: "byte list \<Rightarrow> byte list \<Rightarrow> nat \<Rightarrow> nat \<Rightarrow> nat \<Rightarrow> nat" where
  "left_scan hs ns pos mem k =
     (if k > mem \<and> ns ! (k - 1) = hs ! (pos + k - 1) then left_scan hs ns pos mem (k - 1) else k)"

declare max_suffix.simps [simp del] right_scan.simps [simp del] left_scan.simps [simp del]

text \<open>\<open>a\<close> is \<open>ms + 1\<close>; \<open>pos\<close> is the place of the haystack \<open>h\<close> points to.\<close>

partial_function (option) twoway_search :: "byte list \<Rightarrow> byte list \<Rightarrow> (byte \<Rightarrow> nat option) \<Rightarrow> nat \<Rightarrow> nat \<Rightarrow> nat
    \<Rightarrow> nat \<Rightarrow> nat \<Rightarrow> nat option option" where
  "twoway_search hs ns shift a p mem0 pos mem =
     (let l = length ns in
      if int (length hs) - int pos < int l then Some None
      else case shift (hs ! (pos + l - 1)) of
        None \<Rightarrow> twoway_search hs ns shift a p mem0 (pos + l) 0
      | Some t \<Rightarrow>
          (let k = l - t in
           if k \<noteq> 0 then twoway_search hs ns shift a p mem0 (pos + (if k < mem then mem else k)) 0
           else
             (let k = right_scan hs ns pos (max a mem) in
              if k < l then twoway_search hs ns shift a p mem0 (pos + (k + 1 - a)) 0
              else if left_scan hs ns pos mem a \<le> mem then Some (Some pos)
              else twoway_search hs ns shift a p mem0 (pos + p) mem0)))"

declare twoway_search.simps [code]

definition twoway_memmem :: "byte list \<Rightarrow> byte list \<Rightarrow> nat option option" where
  "twoway_memmem hs ns =
     (let l = length ns; (a, p) = twoway_suffix ns in
      if take a ns \<noteq> take a (drop p ns) then twoway_search hs ns (shift_table ns) a (max (a - 1) (l - a) + 1) 0 0 0
      else twoway_search hs ns (shift_table ns) a p (l - p) 0 0)"

section \<open>Substring search\<close>

text \<open>The outer option is \<open>None\<close> for a search that does not end.\<close>

definition lilu_os_memmem :: "memory \<Rightarrow> addr \<Rightarrow> nat \<Rightarrow> addr \<Rightarrow> nat \<Rightarrow> addr option option" where
  "lilu_os_memmem m h0 k n0 l =
     (if l = 0 then Some (Some h0)
      else if k < l then Some None
      else case lilu_os_memchr m h0 (m n0) k of
        None \<Rightarrow> Some None
      | Some h \<Rightarrow>
          if l = 1 then Some (Some h)
          else
            (let k1 = k - unat (h - h0); n = read_bytes m n0 l; hs = read_bytes m h k1;
                 found = (\<lambda>r. map_option (\<lambda>i. h + of_nat i) r)
             in if k1 < l then Some None
                else if l = 2 then Some (found (twobyte_memmem hs n))
                else if l = 3 then Some (found (threebyte_memmem hs n))
                else if l = 4 then Some (found (fourbyte_memmem hs n))
                else map_option found (twoway_memmem hs n)))"

end
