(* ===== verification/Two_Way.thy ===== *)
theory Two_Way
  imports Memmem
begin

text \<open>
  Correctness of the two-way search of \<open>kern_memmem.cpp\<close>: the maximal suffixes, the critical position
  between them, and that no shift of the search passes over an occurrence.
\<close>

section \<open>Suffixes\<close>

text \<open>The suffix from \<open>s\<close> on is smaller than the one from \<open>t\<close> on, in the order of the letters given.\<close>

definition sless :: "('a \<Rightarrow> 'a \<Rightarrow> bool) \<Rightarrow> 'a list \<Rightarrow> nat \<Rightarrow> nat \<Rightarrow> bool" where
  "sless gt n s t \<longleftrightarrow> (\<exists>i. t + i < length n \<and> (\<forall>j < i. n ! (s + j) = n ! (t + j)) \<and>
     (s + i = length n \<or> s + i < length n \<and> gt (n ! (t + i)) (n ! (s + i))))"

lemma slessI:
  "t + i < length n \<Longrightarrow> (\<And>j. j < i \<Longrightarrow> n ! (s + j) = n ! (t + j)) \<Longrightarrow>
     s + i = length n \<or> s + i < length n \<and> gt (n ! (t + i)) (n ! (s + i)) \<Longrightarrow> sless gt n s t"
  unfolding sless_def by blast

text \<open>\<open>n\<close> has period \<open>p\<close> from \<open>a\<close> up to \<open>e\<close>.\<close>

definition periodic :: "'a list \<Rightarrow> nat \<Rightarrow> nat \<Rightarrow> nat \<Rightarrow> bool" where
  "periodic n a e p \<longleftrightarrow> (\<forall>i. a + i + p < e \<longrightarrow> n ! (a + i + p) = n ! (a + i))"

lemma periodic_mult: "periodic n a e p \<Longrightarrow> a + i + c * p < e \<Longrightarrow> n ! (a + i + c * p) = n ! (a + i)"
proof (induction c)
  case (Suc c)
  have "a + (i + c * p) + p < e" using Suc.prems(2) by (simp add: algebra_simps)
  then have "n ! (a + (i + c * p) + p) = n ! (a + (i + c * p))" using Suc.prems(1) unfolding periodic_def by blast
  moreover have "n ! (a + i + c * p) = n ! (a + i)" using Suc by (simp add: algebra_simps)
  ultimately show ?case by (simp add: algebra_simps)
qed simp

text \<open>Every proper suffix of the \<open>p\<close> letters from \<open>a\<close> on differs from their beginning, and is smaller there.\<close>

definition unbordered :: "('a \<Rightarrow> 'a \<Rightarrow> bool) \<Rightarrow> 'a list \<Rightarrow> nat \<Rightarrow> nat \<Rightarrow> bool" where
  "unbordered gt n a p \<longleftrightarrow> (\<forall>r. 0 < r \<and> r < p \<longrightarrow>
     (\<exists>t. r + t < p \<and> (\<forall>i < t. n ! (a + r + i) = n ! (a + i)) \<and> gt (n ! (a + t)) (n ! (a + r + t))))"

locale letter_order =
  fixes gt :: "'a \<Rightarrow> 'a \<Rightarrow> bool"
  assumes irrefl: "\<not> gt x x" and trans: "gt x y \<Longrightarrow> gt y z \<Longrightarrow> gt x z" and total: "x \<noteq> y \<Longrightarrow> gt x y \<or> gt y x"
begin

lemma sless_trans:
  assumes "sless gt n s t" and "sless gt n t u"
  shows "sless gt n s u"
proof -
  obtain i where i: "t + i < length n" "\<forall>j < i. n ! (s + j) = n ! (t + j)"
      "s + i = length n \<or> s + i < length n \<and> gt (n ! (t + i)) (n ! (s + i))"
    using assms(1) unfolding sless_def by blast
  obtain j where j: "u + j < length n" "\<forall>k < j. n ! (t + k) = n ! (u + k)"
      "t + j = length n \<or> t + j < length n \<and> gt (n ! (u + j)) (n ! (t + j))"
    using assms(2) unfolding sless_def by blast
  consider "i < j" | "i = j" | "j < i" by linarith
  then show ?thesis
  proof cases
    case 1
    then show ?thesis using i j by (intro slessI [of u i]) auto
  next
    case 2
    then show ?thesis using i j trans by (intro slessI [of u i]) auto
  next
    case 3
    then show ?thesis using i j by (intro slessI [of u j]) auto
  qed
qed

lemma sless_irrefl: "\<not> sless gt n s s"
  unfolding sless_def using irrefl by auto

lemma sless_asym: "sless gt n s t \<Longrightarrow> \<not> sless gt n t s"
  using sless_trans sless_irrefl by blast

text \<open>A common beginning may be taken away.\<close>

lemma sless_drop:
  assumes "sless gt n s t" and "\<And>j. j < d \<Longrightarrow> n ! (s + j) = n ! (t + j)" and "s + d \<le> length n"
  shows "sless gt n (s + d) (t + d)"
proof -
  obtain i where i: "t + i < length n" "\<forall>j < i. n ! (s + j) = n ! (t + j)"
      "s + i = length n \<or> s + i < length n \<and> gt (n ! (t + i)) (n ! (s + i))"
    using assms(1) unfolding sless_def by blast
  have "d \<le> i"
  proof (rule ccontr)
    assume "\<not> d \<le> i"
    then have "n ! (s + i) = n ! (t + i)" "s + i < length n" using assms(2,3) by auto
    then show False using i(3) irrefl by auto
  qed
  then obtain e where e: "i = d + e" by (rule le_Suc_ex [THEN exE])
  have "n ! (s + d + j) = n ! (t + d + j)" if "j < e" for j
    using i(2) that e by (metis add.assoc nat_add_left_cancel_less)
  then show ?thesis using i(1,3) e by (intro slessI [of _ e]) (auto simp: add.assoc)
qed

text \<open>A suffix inside the periodic part that does not start at a multiple of the period.\<close>

lemma inner_less:
  assumes "unbordered gt n a p" and "periodic n a e p" and "e \<le> length n" and "0 < r" and "r < p" and "a + r + c * p + (p - r) \<le> e"
  shows "sless gt n (a + r + c * p) a"
proof -
  obtain t where t: "r + t < p" "\<forall>i < t. n ! (a + r + i) = n ! (a + i)" "gt (n ! (a + t)) (n ! (a + r + t))"
    using assms(1,4,5) unfolding unbordered_def by blast
  have m: "n ! (a + r + c * p + i) = n ! (a + r + i)" if "i \<le> t" for i
    using periodic_mult [OF assms(2), of "r + i" c] that t(1) assms(6) by (simp add: algebra_simps)
  show ?thesis
    using t m assms(3,6) by (intro slessI [of _ t]) auto
qed

end

section \<open>The maximal suffix\<close>

text \<open>The suffix from \<open>a\<close> on is larger than every other one; \<open>p\<close> is its smallest period.\<close>

definition max_at :: "('a \<Rightarrow> 'a \<Rightarrow> bool) \<Rightarrow> 'a list \<Rightarrow> nat \<Rightarrow> nat \<Rightarrow> bool" where
  "max_at gt n a p \<longleftrightarrow> 0 < p \<and> a + p \<le> length n \<and> (\<forall>s < length n. s \<noteq> a \<longrightarrow> sless gt n s a) \<and>
     periodic n a (length n) p \<and> unbordered gt n a p"

definition max_inv :: "('a \<Rightarrow> 'a \<Rightarrow> bool) \<Rightarrow> 'a list \<Rightarrow> nat \<Rightarrow> nat \<Rightarrow> nat \<Rightarrow> nat \<Rightarrow> bool" where
  "max_inv gt n a b k p \<longleftrightarrow> a + p \<le> b \<and> p dvd (b - a) \<and> 0 < k \<and> k \<le> p \<and> b + k \<le> Suc (length n) \<and>
     periodic n a (b + k - 1) p \<and> unbordered gt n a p \<and> (\<forall>s < a. sless gt n s a)"

context letter_order
begin

lemma max_inv_equal:
  assumes I: "max_inv gt n a b k p" and le: "b + k \<le> length n" and eq: "n ! (a + k - 1) = n ! (b + k - 1)"
  shows "periodic n a (b + k) p"
proof -
  obtain c where c: "b = a + p + c * p"
  proof -
    obtain d where "b - a = p * d" using I unfolding max_inv_def by auto
    moreover have "a + p \<le> b" "0 < p" using I unfolding max_inv_def by auto
    ultimately have "b = a + p * d" "0 < d" by (auto intro: ccontr)
    then show ?thesis using that [of "d - 1"] by (cases d) (auto simp: algebra_simps)
  qed
  have P: "periodic n a (b + k - 1) p" and k: "0 < k" "0 < p" using I unfolding max_inv_def by auto
  show ?thesis unfolding periodic_def
  proof (intro allI impI)
    fix i assume i: "a + i + p < b + k"
    show "n ! (a + i + p) = n ! (a + i)"
    proof (cases "a + i + p < b + k - 1")
      case True
      then show ?thesis using P unfolding periodic_def by blast
    next
      case False
      then have e: "a + i + p = b + k - 1" using i by simp
      then have "i = k - 1 + c * p" using c k by simp
      then have "n ! (a + i) = n ! (a + (k - 1))" using periodic_mult [OF P, of "k - 1" c] c k e by (simp add: algebra_simps)
      then show ?thesis using e eq k by simp
    qed
  qed
qed

lemma max_inv_end:
  assumes I: "max_inv gt n a b k p" and e: "b + k = Suc (length n)"
  shows "max_at gt n a p"
proof -
  have P: "periodic n a (length n) p" and U: "unbordered gt n a p" and p: "0 < p" "a + p \<le> b" "0 < k" "b + k \<le> Suc (length n)"
    using I e unfolding max_inv_def by (auto simp: max_inv_def)
  have "sless gt n s a" if s: "s < length n" "a < s" for s
  proof -
    define c r where "c = (s - a) div p" and "r = (s - a) mod p"
    have sr: "s = a + r + c * p" using s(2) div_mult_mod_eq [of "s - a" p] unfolding c_def r_def by linarith
    show ?thesis
    proof (cases "r = 0")
      case True
      show ?thesis
      proof (rule slessI [of _ "length n - s"])
        fix j assume "j < length n - s"
        then show "n ! (s + j) = n ! (a + j)" using periodic_mult [OF P, of j c] sr True by (simp add: algebra_simps)
      qed (use s in auto)
    next
      case False
      then obtain t where t: "r + t < p" "\<forall>i < t. n ! (a + r + i) = n ! (a + i)" "gt (n ! (a + t)) (n ! (a + r + t))"
        using U p unfolding unbordered_def r_def by (meson mod_less_divisor neq0_conv)
      have m: "n ! (s + i) = n ! (a + r + i)" if "s + i < length n" for i
        using periodic_mult [OF P, of "r + i" c] that sr by (simp add: algebra_simps)
      have "a + t < length n" using t(1) p by simp
      show ?thesis
      proof (cases "s + t < length n")
        case True
        then show ?thesis using t m \<open>a + t < length n\<close> by (intro slessI [of _ t]) auto
      next
        case False
        then show ?thesis using t m s by (intro slessI [of _ "length n - s"]) auto
      qed
    qed
  qed
  then have "\<forall>s < length n. s \<noteq> a \<longrightarrow> sless gt n s a" using I unfolding max_inv_def by (metis linorder_neqE_nat)
  then show ?thesis using P U p unfolding max_at_def by simp
qed


lemma multiple_start:
  assumes I: "max_inv gt n a b k p" and s: "a \<le> s" "s \<le> b"
  obtains c r where "s = a + r + c * p" and "r < p" and "r = 0 \<Longrightarrow> p dvd (b - s)" and "r \<noteq> 0 \<Longrightarrow> s + (p - r) \<le> b"
proof -
  define c r where "c = (s - a) div p" and "r = (s - a) mod p"
  have p: "0 < p" "p dvd (b - a)" using I unfolding max_inv_def by auto
  have sr: "s = a + r + c * p" using s(1) div_mult_mod_eq [of "s - a" p] unfolding c_def r_def by linarith
  obtain d where d: "b = a + d * p" using p(2) s by (metis dvd_def le_add_diff_inverse le_trans mult.commute)
  have r: "r < p" using p unfolding r_def by simp
  have "p dvd (b - s)" if "r = 0" using sr d that by (simp add: diff_mult_distrib [symmetric])
  moreover have "s + (p - r) \<le> b" if "r \<noteq> 0"
  proof -
    have "c * p < d * p" using sr d s(2) that by linarith
    then have "c < d" by simp
    then have "Suc c * p \<le> d * p" by (intro mult_le_mono1 Suc_leI)
    then show ?thesis using sr d r by simp
  qed
  ultimately show ?thesis using that sr r by blast
qed

text \<open>The compared suffix is the larger one: it becomes the candidate.\<close>

lemma max_inv_smaller:
  assumes I: "max_inv gt n a b k p" and le: "b + k \<le> length n" and gt: "gt (n ! (b + k - 1)) (n ! (a + k - 1))" and s: "s < b"
  shows "sless gt n s b"
proof -
  have P: "periodic n a (b + k - 1) p" and U: "unbordered gt n a p" and k: "0 < k" "k \<le> p" "a + p \<le> b"
    using I unfolding max_inv_def by auto
  have mult: "sless gt n s b" if s: "a \<le> s" "s < b" "s = a + c * p" for s c
  proof (rule slessI [of _ "k - 1"])
    have m: "n ! (s + j) = n ! (a + j)" if "j < k" for j
      using periodic_mult [OF P, of j c] that s k by (simp add: algebra_simps)
    obtain d where d: "b = a + d * p" using I by (metis k(3) add_leD1 dvd_def le_add_diff_inverse max_inv_def mult.commute)
    have "n ! (b + j) = n ! (a + j)" if "j < k - 1" for j
      using periodic_mult [OF P, of j d] that d k by (simp add: algebra_simps)
    then show "n ! (s + j) = n ! (b + j)" if "j < k - 1" for j using m that by simp
    show "s + (k - 1) = length n \<or> s + (k - 1) < length n \<and> gt (n ! (b + (k - 1))) (n ! (s + (k - 1)))"
      using m [of "k - 1"] gt k s le by (intro disjI2 conjI) simp_all
  qed (use le k in simp)
  have ab: "sless gt n a b" using mult [of a 0] k by simp
  consider "s < a" | "a \<le> s" by linarith
  then show ?thesis
  proof cases
    case 1
    then show ?thesis using I ab sless_trans unfolding max_inv_def by blast
  next
    case 2
    obtain c r where c: "s = a + r + c * p" "r < p" "r \<noteq> 0 \<Longrightarrow> s + (p - r) \<le> b"
      using multiple_start [OF I 2] s by (metis less_imp_le)
    show ?thesis
    proof (cases "r = 0")
      case True
      then show ?thesis using mult [OF 2 s, of c] c(1) by simp
    next
      case False
      then have "sless gt n s a" using inner_less [OF U P, of r c] c le k by simp
      then show ?thesis using ab sless_trans by blast
    qed
  qed
qed

text \<open>The compared suffix is the smaller one: everything up to the difference is the new period.\<close>

lemma max_inv_larger_inside:
  assumes I: "max_inv gt n a b k p" and le: "b + k \<le> length n" and gt: "gt (n ! (a + k - 1)) (n ! (b + k - 1))"
    and r: "0 < r" "r < b + k - a" and inside: "a + r \<le> b"
  shows "\<exists>t. r + t < b + k - a \<and> (\<forall>i < t. n ! (a + r + i) = n ! (a + i)) \<and> gt (n ! (a + t)) (n ! (a + r + t))"
proof -
  have P: "periodic n a (b + k - 1) p" and U: "unbordered gt n a p" and k: "0 < k" "k \<le> p" "a + p \<le> b"
    using I unfolding max_inv_def by auto
  obtain c q where c: "a + r = a + q + c * p" "q < p" "q = 0 \<Longrightarrow> p dvd (b - (a + r))" "q \<noteq> 0 \<Longrightarrow> a + r + (p - q) \<le> b"
    using multiple_start [OF I _ inside] by (metis le_add1)
  show ?thesis
  proof (cases "q = 0")
    case True
    define t where "t = b + k - 1 - (a + r)"
    obtain f where f: "b - (a + r) = f * p" using c(3) [OF True] by (metis dvd_def mult.commute)
    have t: "a + t = a + (k - 1) + f * p" using f k \<open>a + r \<le> b\<close> unfolding t_def by simp
    have "n ! (a + t) = n ! (a + (k - 1))"
      using periodic_mult [OF P, of "k - 1" f] t r(1) k \<open>a + r \<le> b\<close> unfolding t_def by simp
    moreover have "n ! (a + r + i) = n ! (a + i)" if "i < t" for i
      using periodic_mult [OF P, of i c] that c(1) True unfolding t_def by (simp add: algebra_simps)
    moreover have "a + r + t = b + k - 1" using k \<open>a + r \<le> b\<close> unfolding t_def by simp
    ultimately show ?thesis using gt k r by (intro exI [of _ t]) auto
  next
    case False
    then obtain t where t: "q + t < p" "\<forall>i < t. n ! (a + q + i) = n ! (a + i)" "gt (n ! (a + t)) (n ! (a + q + t))"
      using U c(2) unfolding unbordered_def by (meson neq0_conv)
    have b: "a + q + c * p + (p - q) \<le> b" using c(1) c(4) [OF False] by simp
    have m: "n ! (a + r + i) = n ! (a + q + i)" if "i \<le> t" for i
      using periodic_mult [OF P, of "q + i" c] that c(1) t(1) b k by (simp add: algebra_simps)
    have "r + t < b + k - a" using t(1) b c(1) by linarith
    then show ?thesis using t(2,3) m by (intro exI [of _ t]) auto
  qed
qed

lemma max_inv_larger_tail:
  assumes I: "max_inv gt n a b k p" and le: "b + k \<le> length n" and gt: "gt (n ! (a + k - 1)) (n ! (b + k - 1))"
    and r: "0 < r" "r < b + k - a" and tail: "\<not> a + r \<le> b"
  shows "\<exists>t. r + t < b + k - a \<and> (\<forall>i < t. n ! (a + r + i) = n ! (a + i)) \<and> gt (n ! (a + t)) (n ! (a + r + t))"
proof -
  have P: "periodic n a (b + k - 1) p" and U: "unbordered gt n a p" and k: "0 < k" "k \<le> p" "a + p \<le> b"
    using I unfolding max_inv_def by auto
  obtain d where d: "b = a + d * p" using I by (metis k(3) add_leD1 dvd_def le_add_diff_inverse max_inv_def mult.commute)
  define q where "q = a + r - b"
  have q: "0 < q" "q < k" "a + r = b + q" using tail r unfolding q_def by auto
  obtain t where t: "q + t < p" "\<forall>i < t. n ! (a + q + i) = n ! (a + i)" "gt (n ! (a + t)) (n ! (a + q + t))"
    using U q k unfolding unbordered_def by (meson less_le_trans)
  have m: "n ! (b + i) = n ! (a + i)" if "i < k - 1" for i
    using periodic_mult [OF P, of i d] that d by (simp add: algebra_simps)
  consider "q + t < k - 1" | "q + t = k - 1" | "k - 1 < q + t" by linarith
  then show ?thesis
  proof cases
    case 1
    then show ?thesis using t m q by (intro exI [of _ t]) (auto simp: add.assoc)
  next
    case 2
    have "gt (n ! (a + t)) (n ! (b + k - 1))" using trans [OF t(3)] gt 2 k by (simp add: add.assoc)
    then show ?thesis using t m q 2 k by (intro exI [of _ t]) (auto simp: add.assoc)
  next
    case 3
    have "k - 1 - q < t" using 3 q by simp
    then have "n ! (a + q + (k - 1 - q)) = n ! (a + (k - 1 - q))" using t(2) by blast
    then have "gt (n ! (a + (k - 1 - q))) (n ! (b + k - 1))" using gt q by simp
    then show ?thesis using t m q 3 k by (intro exI [of _ "k - 1 - q"]) (auto simp: add.assoc)
  qed
qed

lemma max_inv_larger:
  assumes I: "max_inv gt n a b k p" and le: "b + k \<le> length n" and gt: "gt (n ! (a + k - 1)) (n ! (b + k - 1))"
  shows "unbordered gt n a (b + k - a)"
  unfolding unbordered_def using max_inv_larger_inside [OF assms] max_inv_larger_tail [OF assms] by blast

end


lemma max_suffix_at:
  assumes "letter_order gt" and "max_inv gt n a b k p"
  shows "case max_suffix gt n a b k p of (a', p') \<Rightarrow> max_at gt n a' p'"
  using assms
proof (induction gt n a b k p rule: max_suffix.induct)
  case (1 gt n a b k p)
  note o = 1(5) and I = 1(6)
  have k: "0 < k" "k \<le> p" "a + p \<le> b" "p dvd (b - a)" and U: "unbordered gt n a p" and E: "\<forall>s < a. sless gt n s a"
    and le: "b + k \<le> Suc (length n)"
    using I unfolding max_inv_def by auto
  note rec = max_suffix.simps [of gt n a b k p]
  consider "b + k = Suc (length n)" | (equal) "b + k \<le> length n" "n ! (a + k - 1) = n ! (b + k - 1)"
    | (larger) "b + k \<le> length n" "n ! (a + k - 1) \<noteq> n ! (b + k - 1)" "gt (n ! (a + k - 1)) (n ! (b + k - 1))"
    | (smaller) "b + k \<le> length n" "n ! (a + k - 1) \<noteq> n ! (b + k - 1)" "\<not> gt (n ! (a + k - 1)) (n ! (b + k - 1))"
    using le by linarith
  then show ?case
  proof cases
    case 1
    then show ?thesis using letter_order.max_inv_end [OF o I] rec by simp
  next
    case equal
    have P: "periodic n a (b + k) p" by (rule letter_order.max_inv_equal [OF o I equal])
    show ?thesis
    proof (cases "k = p")
      case True
      moreover have "p dvd (b - a) + p" using k(4) by simp
      then have "p dvd (b + p - a)" using k(3) by simp
      ultimately have "max_inv gt n a (b + p) 1 p" using P U E k equal(1) unfolding max_inv_def by simp
      then show ?thesis using 1(1) o equal k True rec by simp
    next
      case False
      then have "max_inv gt n a b (k + 1) p" using P U E k equal(1) unfolding max_inv_def by simp
      then show ?thesis using 1(2) o equal k False rec by simp
    qed
  next
    case larger
    have "max_inv gt n a (b + k) 1 (b + k - a)"
      using letter_order.max_inv_larger [OF o I larger(1,3)] E k larger(1) unfolding max_inv_def periodic_def by auto
    then show ?thesis using 1(3) o larger k rec by simp
  next
    case smaller
    have "gt (n ! (b + k - 1)) (n ! (a + k - 1))" using smaller(2,3) o unfolding letter_order_def by metis
    then have "\<forall>s < b. sless gt n s b" using letter_order.max_inv_smaller [OF o I smaller(1)] by blast
    then have "max_inv gt n b (b + 1) 1 1"
      using k smaller(1) unfolding max_inv_def periodic_def unbordered_def by auto
    then show ?thesis using 1(4) o smaller k rec by simp
  qed
qed

lemma max_suffix_max:
  assumes "letter_order gt" and "n \<noteq> []"
  shows "case max_suffix gt n 0 1 1 1 of (a, p) \<Rightarrow> max_at gt n a p"
  by (rule max_suffix_at [OF assms(1)])
     (use assms(2) in \<open>auto simp: max_inv_def periodic_def unbordered_def Suc_le_eq\<close>)

interpretation up: letter_order "\<lambda>x y :: byte. x > y"
  by unfold_locales auto

interpretation down: letter_order "\<lambda>x y :: byte. x < y"
  by unfold_locales auto

section \<open>The critical position\<close>

text \<open>
  Between the two maximal suffixes, the later start is a critical position: a repetition of \<open>r\<close> letters
  around it makes \<open>r\<close> a period of the whole word.
\<close>

definition repeats_at :: "'a list \<Rightarrow> nat \<Rightarrow> nat \<Rightarrow> bool" where
  "repeats_at n a r \<longleftrightarrow> 0 < r \<and> a + r \<le> length n \<and> (\<forall>i < a. a \<le> i + r \<longrightarrow> n ! i = n ! (i + r))"

definition critical :: "'a list \<Rightarrow> nat \<Rightarrow> nat \<Rightarrow> bool" where
  "critical n a p \<longleftrightarrow> (\<exists>gt a2 p2. letter_order gt \<and> max_at gt n a p \<and> max_at (\<lambda>x y. gt y x) n a2 p2 \<and> a2 \<le> a)"

lemma repeats_long:
  assumes "letter_order gt" and "max_at gt n a p" and "repeats_at n a r"
  shows "a < r"
proof (rule ccontr)
  assume "\<not> a < r"
  then have r: "r \<le> a" "0 < r" "a + r \<le> length n" using assms(3) unfolding repeats_at_def by auto
  have "n ! (a - r + j) = n ! (a + j)" if "j < r" for j
  proof -
    have "a - r + j < a" "a \<le> a - r + j + r" "a - r + j + r = a + j" using r that by auto
    then show ?thesis using assms(3) unfolding repeats_at_def by metis
  qed
  moreover have "sless gt n (a - r) a" using assms(2) r unfolding max_at_def by auto
  ultimately have l: "sless gt n a (a + r)" using letter_order.sless_drop [OF assms(1), of n "a - r" a r] r by simp
  then have "a + r < length n" unfolding sless_def by auto
  then have "sless gt n (a + r) a" using assms(2) r unfolding max_at_def by auto
  then show False using l letter_order.sless_asym [OF assms(1)] by blast
qed

lemma letter_order_flip: "letter_order gt \<Longrightarrow> letter_order (\<lambda>x y. gt y x)"
  unfolding letter_order_def by metis

text \<open>Smaller in both orders is a proper beginning.\<close>

lemma sless_both:
  assumes "letter_order gt" and "sless gt n s t" and "sless (\<lambda>x y. gt y x) n s t"
  shows "s + i < length n \<Longrightarrow> n ! (s + i) = n ! (t + i)"
proof -
  assume i: "s + i < length n"
  obtain e where e: "t + e < length n" "\<forall>j < e. n ! (s + j) = n ! (t + j)"
      "s + e = length n \<or> s + e < length n \<and> gt (n ! (t + e)) (n ! (s + e))"
    using assms(2) unfolding sless_def by blast
  obtain f where f: "t + f < length n" "\<forall>j < f. n ! (s + j) = n ! (t + j)"
      "s + f = length n \<or> s + f < length n \<and> gt (n ! (s + f)) (n ! (t + f))"
    using assms(3) unfolding sless_def by blast
  have ir: "\<not> gt x x" "gt x y \<Longrightarrow> \<not> gt y x" for x y using assms(1) unfolding letter_order_def by metis+
  consider "e < f" | "f < e" | "e = f" by linarith
  then have "s + e = length n \<or> s + f = length n"
  proof cases
    case 1
    then show ?thesis using e(3) f(2) ir(1) by metis
  next
    case 2
    then show ?thesis using f(3) e(2) ir(1) by metis
  next
    case 3
    then show ?thesis using e(3) f(3) ir(2) by metis
  qed
  then show "n ! (s + i) = n ! (t + i)" using e(2) f(2) i by auto
qed

lemma critical_repeats:
  assumes "critical n a p" and "repeats_at n a r"
  shows "a < r \<and> periodic n 0 (length n) r"
proof -
  obtain gt a2 p2 where o: "letter_order gt" and M: "max_at gt n a p" and M2: "max_at (\<lambda>x y. gt y x) n a2 p2" and a2: "a2 \<le> a"
    using assms(1) unfolding critical_def by blast
  have ar: "a < r" by (rule repeats_long [OF o M assms(2)])
  have r: "a + r \<le> length n" "\<And>i. i < a \<Longrightarrow> n ! i = n ! (i + r)"
    using assms(2) ar unfolding repeats_at_def by auto
  have v: "n ! (a + r + i) = n ! (a + i)" if i: "a + r + i < length n" for i
  proof -
    have le: "a2 + r + (a - a2) \<le> length n" using i a2 by simp
    have "sless (\<lambda>x y. gt y x) n (a2 + r) a2" using M2 a2 ar i unfolding max_at_def by auto
    moreover have "n ! (a2 + r + j) = n ! (a2 + j)" if "j < a - a2" for j
      using r(2) [of "a2 + j"] that by (simp add: algebra_simps)
    ultimately have "sless (\<lambda>x y. gt y x) n (a2 + r + (a - a2)) (a2 + (a - a2))"
      by (rule letter_order.sless_drop [OF letter_order_flip [OF o]]) (assumption, rule le)
    then have "sless (\<lambda>x y. gt y x) n (a + r) a" using a2 by (simp add: add.commute add.left_commute)
    moreover have "sless gt n (a + r) a" using M ar i unfolding max_at_def by auto
    ultimately show ?thesis using sless_both [OF o] i by blast
  qed
  have "n ! (i + r) = n ! i" if "i + r < length n" for i
  proof (cases "i < a")
    case False
    then show ?thesis using v [of "i - a"] that by (simp add: algebra_simps)
  qed (use r(2) in simp)
  then show ?thesis using ar unfolding periodic_def by simp
qed

lemma criticalI:
  "letter_order gt \<Longrightarrow> max_at gt n a p \<Longrightarrow> max_at (\<lambda>x y. gt y x) n a2 p2 \<Longrightarrow> a2 \<le> a \<Longrightarrow> critical n a p"
  unfolding critical_def by blast

lemma twoway_suffix_critical:
  assumes "ns \<noteq> []"
  shows "case twoway_suffix ns of (a, p) \<Rightarrow> critical ns a p"
proof -
  obtain a p a2 p2 where m: "max_suffix (\<lambda>x y. x > y) ns 0 1 1 1 = (a, p)" "max_suffix (\<lambda>x y. x < y) ns 0 1 1 1 = (a2, p2)"
    by (metis prod.exhaust)
  have M: "max_at (\<lambda>x y. x > y) ns a p" using max_suffix_max [OF up.letter_order_axioms assms] m(1) by simp
  have M2: "max_at (\<lambda>x y. x < y) ns a2 p2" using max_suffix_max [OF down.letter_order_axioms assms] m(2) by simp
  show ?thesis
    using criticalI [OF up.letter_order_axioms M M2] criticalI [OF down.letter_order_axioms M2 M] m
    unfolding twoway_suffix_def by auto
qed

section \<open>Occurrences\<close>

definition occurs :: "'a list \<Rightarrow> 'a list \<Rightarrow> nat \<Rightarrow> bool" where
  "occurs hs n i \<longleftrightarrow> i + length n \<le> length hs \<and> (\<forall>j < length n. hs ! (i + j) = n ! j)"

lemma occursD: "occurs hs n i \<Longrightarrow> j < length n \<Longrightarrow> hs ! (i + j) = n ! j"
  unfolding occurs_def by blast

text \<open>The result \<open>r\<close> is the first occurrence at or behind \<open>pos\<close>.\<close>

definition is_first :: "'a list \<Rightarrow> 'a list \<Rightarrow> nat \<Rightarrow> nat option \<Rightarrow> bool" where
  "is_first hs n pos r \<longleftrightarrow> (case r of None \<Rightarrow> \<forall>i \<ge> pos. \<not> occurs hs n i
     | Some i \<Rightarrow> pos \<le> i \<and> occurs hs n i \<and> (\<forall>j. pos \<le> j \<and> j < i \<longrightarrow> \<not> occurs hs n j))"

lemma is_first_skip:
  assumes "\<And>d. d < k \<Longrightarrow> \<not> occurs hs n (pos + d)" and "is_first hs n (pos + k) r"
  shows "is_first hs n pos r"
proof -
  have "\<not> occurs hs n i" if "pos \<le> i" "i < pos + k" for i using assms(1) [of "i - pos"] that by simp
  then show ?thesis using assms(2) unfolding is_first_def by (auto split: option.splits) (metis not_less)+
qed

section \<open>The shifts are safe\<close>

definition right_matched :: "'a list \<Rightarrow> 'a list \<Rightarrow> nat \<Rightarrow> nat \<Rightarrow> nat \<Rightarrow> bool" where
  "right_matched hs n pos a k \<longleftrightarrow> (\<forall>j. a \<le> j \<and> j < k \<longrightarrow> hs ! (pos + j) = n ! j)"

lemma periodicD: "periodic n 0 e d \<Longrightarrow> i + d < e \<Longrightarrow> n ! (i + d) = n ! i"
  unfolding periodic_def by simp

lemma occurs_repeats:
  assumes "right_matched hs n pos a k" and "occurs hs n (pos + d)" and "0 < d" and "a + d \<le> k" and "k \<le> length n"
  shows "repeats_at n a d"
  unfolding repeats_at_def
proof (intro conjI allI impI)
  fix i assume i: "i < a" "a \<le> i + d"
  have "hs ! (pos + (i + d)) = n ! (i + d)" using assms(1,4) i unfolding right_matched_def by simp
  moreover have "hs ! (pos + d + i) = n ! i" by (rule occursD [OF assms(2)]) (use assms(4,5) i in simp)
  ultimately show "n ! i = n ! (i + d)" by (simp add: algebra_simps)
qed (use assms in auto)

lemma mismatch_shift:
  assumes "critical n a p" and "right_matched hs n pos a k" and "k < length n" and "hs ! (pos + k) \<noteq> n ! k"
    and "a \<le> k" and "d < k + 1 - a"
  shows "\<not> occurs hs n (pos + d)"
proof
  assume o: "occurs hs n (pos + d)"
  have "0 < d" using o assms(3,4) unfolding occurs_def by (cases d) auto
  then have "periodic n 0 (length n) d"
    using critical_repeats [OF assms(1) occurs_repeats [OF assms(2) o]] assms(3,5,6) by simp
  then have "n ! (k - d + d) = n ! (k - d)" by (rule periodicD) (use assms(3,5,6) in simp)
  then have "n ! k = n ! (k - d)" using assms(5,6) by simp
  moreover have "hs ! (pos + d + (k - d)) = n ! (k - d)" by (rule occursD [OF o]) (use assms(3) in simp)
  ultimately show False using assms(4,5,6) by simp
qed

lemma period_shift:
  assumes "critical n a p" and "right_matched hs n pos a (length n)" and "0 < d" and "d < p"
  shows "\<not> occurs hs n (pos + d)"
proof
  assume o: "occurs hs n (pos + d)"
  obtain gt where g: "letter_order gt" "max_at gt n a p" using assms(1) unfolding critical_def by blast
  then have p: "a + p \<le> length n" unfolding max_at_def by simp
  have P: "periodic n 0 (length n) d"
    using critical_repeats [OF assms(1) occurs_repeats [OF assms(2) o assms(3)]] p assms(4) by simp
  obtain t where t: "d + t < p" "gt (n ! (a + t)) (n ! (a + d + t))"
    using g(2) assms(3,4) unfolding max_at_def unbordered_def by blast
  have "n ! (a + t + d) = n ! (a + t)" by (rule periodicD [OF P]) (use t(1) p in simp)
  then show False using t(2) g(1) unfolding letter_order_def by (simp add: algebra_simps)
qed


text \<open>A needle that is not periodic, and a shift by more than the longer half.\<close>

lemma long_shift_small:
  assumes "critical n a p" and "periodic n 0 (length n) d" and "a < d" and "a + d \<le> length n"
  shows "take a n = take a (drop p n)"
proof -
  obtain gt where g: "letter_order gt" "max_at gt n a p" using assms(1) unfolding critical_def by blast
  then have p: "0 < p" "a + p \<le> length n" and P: "periodic n a (length n) p" and U: "unbordered gt n a p" unfolding max_at_def by auto
  define c r where "c = d div p" and "r = d mod p"
  have d: "d = r + c * p" and r: "r < p" using p(1) unfolding c_def r_def by simp_all
  note per = periodicD [OF assms(2)]
  have down: "n ! (i + d) = n ! (i + r)" if "a \<le> i + r" "i < a" for i
    using periodic_mult [OF P, of "i + r - a" c] that assms(4) d by (simp add: algebra_simps)
  have same: "n ! i = n ! (i + d)" if "i < a" for i using per [of i] that assms(4) by simp
  have "repeats_at n a r" if "r \<noteq> 0"
    unfolding repeats_at_def using that assms(4) d same down by simp
  moreover have "\<not> periodic n 0 (length n) r" if r1: "r \<noteq> 0"
  proof
    assume R: "periodic n 0 (length n) r"
    obtain t where t: "r + t < p" "gt (n ! (a + t)) (n ! (a + r + t))"
      using U r r1 unfolding unbordered_def by (meson neq0_conv)
    have "n ! (a + t + r) = n ! (a + t)" by (rule periodicD [OF R]) (use t(1) p in simp)
    then show False using t(2) g(1) unfolding letter_order_def by (simp add: algebra_simps)
  qed
  ultimately have r0: "r = 0" using critical_repeats [OF assms(1)] by blast
  then obtain c' where c': "c = Suc c'" using d assms(3) by (cases c) auto
  have down2: "n ! (i + d) = n ! (i + p)" if "a \<le> i + p" "i < a" for i
    using periodic_mult [OF P, of "i + p - a" c'] that assms(4) d r0 c' by (simp add: algebra_simps)
  have "repeats_at n a p" unfolding repeats_at_def using p same down2 by simp
  then have ap: "a < p" using critical_repeats [OF assms(1)] by blast
  show ?thesis
  proof (rule nth_equalityI)
    fix i assume "i < length (take a n)"
    then have i: "i < a" "i < length n" by auto
    have "n ! i = n ! (i + d)" using same i by simp
    also have "\<dots> = n ! (i + p)" using down2 [of i] i ap by simp
    finally show "take a n ! i = take a (drop p n) ! i" using i p by (simp add: algebra_simps)
  qed (use p in simp)
qed

lemma long_shift:
  assumes "critical n a p" and "right_matched hs n pos a (length n)" and "take a n \<noteq> take a (drop p n)"
    and "0 < d" and "d < max (a - 1) (length n - a) + 1"
  shows "\<not> occurs hs n (pos + d)"
proof
  assume o: "occurs hs n (pos + d)"
  obtain gt where g: "letter_order gt" "max_at gt n a p" using assms(1) unfolding critical_def by blast
  then have a: "a < length n" unfolding max_at_def by auto
  show False
  proof (cases "a + d \<le> length n")
    case True
    then have "a < d \<and> periodic n 0 (length n) d"
      using critical_repeats [OF assms(1) occurs_repeats [OF assms(2) o assms(4)]] by simp
    then show False using long_shift_small [OF assms(1)] True assms(3) by blast
  next
    case False
    then have d: "d < a" using assms(5) by auto
    have "sless gt n a (a - d)"
    proof (rule slessI [of _ "length n - a"])
      fix j assume j: "j < length n - a"
      have "hs ! (pos + (a + j)) = n ! (a + j)" using assms(2) j unfolding right_matched_def by simp
      moreover have "hs ! (pos + d + (a - d + j)) = n ! (a - d + j)" by (rule occursD [OF o]) (use d j in simp)
      ultimately show "n ! (a + j) = n ! (a - d + j)" using d by (simp add: algebra_simps)
    qed (use a d False assms(4) in auto)
    moreover have "sless gt n (a - d) a" using g(2) a d assms(4) unfolding max_at_def by auto
    ultimately show False using letter_order.sless_asym [OF g(1)] by blast
  qed
qed


text \<open>The table of last places.\<close>

lemma shift_table_spec:
  "case shift_table n c of None \<Rightarrow> c \<notin> set n
   | Some t \<Rightarrow> 0 < t \<and> t \<le> length n \<and> n ! (t - 1) = c \<and> (\<forall>i. t \<le> i \<and> i < length n \<longrightarrow> n ! i \<noteq> c)"
proof -
  have "case fold (\<lambda>i sh. sh(n ! i \<mapsto> i + 1)) [0..<k] Map.empty c of None \<Rightarrow> \<forall>i < k. n ! i \<noteq> c
     | Some t \<Rightarrow> 0 < t \<and> t \<le> k \<and> n ! (t - 1) = c \<and> (\<forall>i. t \<le> i \<and> i < k \<longrightarrow> n ! i \<noteq> c)" for k
    by (induction k) (auto split: option.splits simp: less_Suc_eq)
  from this [of "length n"] show ?thesis
    unfolding shift_table_def by (auto split: option.splits simp: in_set_conv_nth)
qed

lemma absent_shift:
  assumes "shift_table n (hs ! (pos + length n - 1)) = None" and "d < length n"
  shows "\<not> occurs hs n (pos + d)"
proof
  assume "occurs hs n (pos + d)"
  then have "hs ! (pos + d + (length n - 1 - d)) = n ! (length n - 1 - d)" by (rule occursD) (use assms(2) in simp)
  then have "hs ! (pos + length n - 1) \<in> set n" using assms(2) by simp
  then show False using shift_table_spec [of "hs ! (pos + length n - 1)" n] assms(1) by simp
qed

lemma table_shift:
  assumes "shift_table n (hs ! (pos + length n - 1)) = Some t" and "d < length n - t"
  shows "\<not> occurs hs n (pos + d)"
proof
  assume "occurs hs n (pos + d)"
  then have "hs ! (pos + d + (length n - 1 - d)) = n ! (length n - 1 - d)" by (rule occursD) (use assms(2) in simp)
  then have "hs ! (pos + length n - 1) = n ! (length n - 1 - d)" using assms(2) by simp
  moreover have "t \<le> length n - 1 - d" "length n - 1 - d < length n" using assms(2) by auto
  ultimately show False using shift_table_spec [of "hs ! (pos + length n - 1)" n] assms(1) by auto
qed

text \<open>The last byte is out of place in a periodic needle of which the beginning is known to match.\<close>

lemma remembered_shift:
  assumes "periodic n 0 (length n) p" and "\<And>i. i < length n - p \<Longrightarrow> hs ! (pos + i) = n ! i"
    and "hs ! (pos + length n - 1) \<noteq> n ! (length n - 1)" and "d < length n - p" and "0 < p"
  shows "\<not> occurs hs n (pos + d)"
proof
  assume o: "occurs hs n (pos + d)"
  let ?l = "length n"
  have "hs ! (pos + d + (?l - 1 - d)) = n ! (?l - 1 - d)" by (rule occursD [OF o]) (use assms(4) in simp)
  then have "hs ! (pos + ?l - 1) = n ! (?l - 1 - d)" using assms(4) by simp
  also have "\<dots> = n ! (?l - p - 1 - d)" using periodicD [OF assms(1), of "?l - p - 1 - d"] assms(4,5) by simp
  also have "\<dots> = hs ! (pos + d + (?l - p - 1 - d))" by (rule occursD [OF o, symmetric]) (use assms(4) in simp)
  also have "\<dots> = n ! (?l - p - 1)" using assms(2) [of "?l - p - 1"] assms(4) by simp
  also have "\<dots> = n ! (?l - 1)" using periodicD [OF assms(1), of "?l - p - 1"] assms(4,5) by simp
  finally show False using assms(3) by simp
qed

section \<open>The search\<close>

lemma right_scan_spec:
  "k \<le> length n \<Longrightarrow> k \<le> right_scan hs n pos k \<and> right_scan hs n pos k \<le> length n \<and>
     (\<forall>j. k \<le> j \<and> j < right_scan hs n pos k \<longrightarrow> hs ! (pos + j) = n ! j) \<and>
     (right_scan hs n pos k < length n \<longrightarrow> hs ! (pos + right_scan hs n pos k) \<noteq> n ! right_scan hs n pos k)"
proof (induction hs n pos k rule: right_scan.induct)
  case (1 hs n pos k)
  show ?case
  proof (cases "k < length n \<and> n ! k = hs ! (pos + k)")
    case True
    then have e: "right_scan hs n pos k = right_scan hs n pos (k + 1)" by (subst right_scan.simps) simp
    have IH: "k + 1 \<le> right_scan hs n pos (k + 1)" "right_scan hs n pos (k + 1) \<le> length n"
      "\<forall>j. k + 1 \<le> j \<and> j < right_scan hs n pos (k + 1) \<longrightarrow> hs ! (pos + j) = n ! j"
      "right_scan hs n pos (k + 1) < length n \<longrightarrow> hs ! (pos + right_scan hs n pos (k + 1)) \<noteq> n ! right_scan hs n pos (k + 1)"
      using 1(1) [OF True] True by simp_all
    have "hs ! (pos + j) = n ! j" if "k \<le> j" "j < right_scan hs n pos (k + 1)" for j
      using IH(3) True that by (cases "j = k") auto
    then show ?thesis unfolding e using IH by simp
  next
    case False
    then have "right_scan hs n pos k = k" by (subst right_scan.simps) auto
    then show ?thesis using False 1(2) by auto
  qed
qed

lemma left_scan_spec:
  "left_scan hs n pos mem k \<le> k \<and>
     (\<forall>j. left_scan hs n pos mem k \<le> j \<and> j < k \<longrightarrow> hs ! (pos + j) = n ! j) \<and>
     (mem < left_scan hs n pos mem k \<longrightarrow> hs ! (pos + (left_scan hs n pos mem k - 1)) \<noteq> n ! (left_scan hs n pos mem k - 1))"
proof (induction hs n pos mem k rule: left_scan.induct)
  case (1 hs n pos mem k)
  show ?case
  proof (cases "k > mem \<and> n ! (k - 1) = hs ! (pos + k - 1)")
    case True
    then have e: "left_scan hs n pos mem k = left_scan hs n pos mem (k - 1)" by (subst left_scan.simps) simp
    have "hs ! (pos + j) = n ! j" if "left_scan hs n pos mem (k - 1) \<le> j" "j < k" for j
      using 1(1) [OF True] True that by (cases "j = k - 1") auto
    then show ?thesis unfolding e using 1(1) [OF True] by auto
  next
    case False
    then have "left_scan hs n pos mem k = k" by (subst left_scan.simps) auto
    then show ?thesis using False by auto
  qed
qed

text \<open>What the two ways of shifting after a mismatch on the left have in common.\<close>

definition shift_ok :: "byte list \<Rightarrow> nat \<Rightarrow> nat \<Rightarrow> nat \<Rightarrow> bool" where
  "shift_ok n a p mem0 \<longleftrightarrow> 0 < p \<and> a < length n \<and>
     (\<forall>hs pos d. right_matched hs n pos a (length n) \<and> 0 < d \<and> d < p \<longrightarrow> \<not> occurs hs n (pos + d)) \<and>
     (mem0 = 0 \<or> mem0 = length n - p \<and> periodic n 0 (length n) p \<and> a \<le> p)"

definition mem_ok :: "byte list \<Rightarrow> byte list \<Rightarrow> nat \<Rightarrow> nat \<Rightarrow> nat \<Rightarrow> bool" where
  "mem_ok hs n p pos mem \<longleftrightarrow> mem = 0 \<or> mem = length n - p \<and> periodic n 0 (length n) p \<and> (\<forall>i < mem. hs ! (pos + i) = n ! i)"


lemma search_found:
  assumes "mem_ok hs n p pos mem" and "right_matched hs n pos a (length n)" and "left_scan hs n pos mem a \<le> mem"
    and "pos + length n \<le> length hs"
  shows "occurs hs n pos"
  unfolding occurs_def
proof (intro conjI allI impI)
  fix j assume j: "j < length n"
  have ls: "hs ! (pos + i) = n ! i" if "left_scan hs n pos mem a \<le> i" "i < a" for i
    using left_scan_spec [of hs n pos mem a] that by blast
  consider "j < mem" | "mem \<le> j" "j < a" | "a \<le> j" by linarith
  then show "hs ! (pos + j) = n ! j"
    using assms(1,2) ls [of j] assms(3) j unfolding mem_ok_def right_matched_def by cases auto
qed (rule assms(4))

lemma search_right_matched:
  assumes "mem_ok hs n p pos mem" and "a < length n" and "k = right_scan hs n pos (max a mem)" and "p > 0"
  shows "right_matched hs n pos a k \<and> a \<le> k \<and> k \<le> length n \<and> (k < length n \<longrightarrow> hs ! (pos + k) \<noteq> n ! k)"
proof -
  have m: "max a mem \<le> length n" using assms(1,2) unfolding mem_ok_def by auto
  note R = right_scan_spec [OF m, of hs pos, folded assms(3)]
  have "hs ! (pos + j) = n ! j" if "a \<le> j" "j < k" for j
    using R assms(1) that unfolding mem_ok_def by (cases "j < mem") auto
  then show ?thesis using R unfolding right_matched_def by auto
qed

lemma search_remembers:
  assumes S: "shift_ok n a p mem0" and M: "right_matched hs n pos a (length n)"
  shows "mem_ok hs n p (pos + p) mem0"
proof (cases "mem0 = 0")
  case False
  then have m: "mem0 = length n - p" "periodic n 0 (length n) p" "a \<le> p" using S unfolding shift_ok_def by auto
  have "hs ! (pos + p + i) = n ! i" if "i < mem0" for i
  proof -
    have "hs ! (pos + (i + p)) = n ! (i + p)" using M m that unfolding right_matched_def by simp
    then show ?thesis using periodicD [OF m(2), of i] m that by (simp add: algebra_simps)
  qed
  then show ?thesis using m unfolding mem_ok_def by simp
qed (simp add: mem_ok_def)

definition search_step :: "byte list \<Rightarrow> byte list \<Rightarrow> nat \<Rightarrow> nat \<Rightarrow> nat \<Rightarrow> nat \<Rightarrow> nat \<Rightarrow> bool" where
  "search_step hs n a p mem0 pos mem \<longleftrightarrow>
     (let go = twoway_search hs n (shift_table n) a p mem0 in
      go pos mem = Some (Some pos) \<and> occurs hs n pos \<or>
      (\<exists>k mem'. 0 < k \<and> go pos mem = go (pos + k) mem' \<and> mem_ok hs n p (pos + k) mem' \<and>
         (\<forall>d < k. \<not> occurs hs n (pos + d))))"

lemma mem_ok_none: "mem_ok hs n p q 0"
  unfolding mem_ok_def by simp

text \<open>The last letter of the needle is in place: the two scans.\<close>

lemma search_step_scans:
  assumes C: "critical n a p0" and S: "shift_ok n a p mem0" and M0: "mem_ok hs n p pos mem"
    and fits: "pos + length n \<le> length hs" and t: "shift_table n (hs ! (pos + length n - 1)) = Some t" "length n - t = 0"
  shows "search_step hs n a p mem0 pos mem"
proof -
  let ?l = "length n" and ?go = "\<lambda>pos mem. twoway_search hs n (shift_table n) a p mem0 pos mem"
  note rec = twoway_search.simps [of hs n "shift_table n" a p mem0 pos mem]
  have p: "0 < p" "a < ?l" using S unfolding shift_ok_def by auto
  define k where "k = right_scan hs n pos (max a mem)"
  note R = search_right_matched [OF M0 p(2) k_def p(1)]
  show ?thesis
  proof (cases "k < ?l")
    case True
    have "?go pos mem = ?go (pos + (k + 1 - a)) 0" using fits t True by (simp add: rec Let_def k_def)
    moreover have "0 < k + 1 - a" "\<forall>d < k + 1 - a. \<not> occurs hs n (pos + d)" using R True mismatch_shift [OF C] by auto
    ultimately show ?thesis unfolding search_step_def Let_def using mem_ok_none by blast
  next
    case False
    then have M: "right_matched hs n pos a ?l" using R by (cases "k = ?l") auto
    show ?thesis
    proof (cases "left_scan hs n pos mem a \<le> mem")
      case found: True
      then have "?go pos mem = Some (Some pos)" using fits t False by (simp add: rec Let_def k_def)
      then show ?thesis using search_found [OF M0 M found fits] unfolding search_step_def Let_def by blast
    next
      case missed: False
      have e: "?go pos mem = ?go (pos + p) mem0" using fits t False missed by (simp add: rec Let_def k_def)
      have "left_scan hs n pos mem a - 1 < ?l" using left_scan_spec [of hs n pos mem a] p(2) by linarith
      then have "\<not> occurs hs n pos" using left_scan_spec [of hs n pos mem a] missed occursD by (metis not_le)
      then have "\<not> occurs hs n (pos + d)" if "d < p" for d
        using S M that unfolding shift_ok_def by (cases "d = 0") auto
      moreover have "mem_ok hs n p (pos + p) mem0" by (rule search_remembers [OF S M])
      ultimately show ?thesis using p(1) e unfolding search_step_def Let_def by blast
    qed
  qed
qed

lemma search_step_any:
  assumes C: "critical n a p0" and S: "shift_ok n a p mem0" and M0: "mem_ok hs n p pos mem"
    and fits: "pos + length n \<le> length hs"
  shows "search_step hs n a p mem0 pos mem"
proof -
  let ?l = "length n" and ?go = "\<lambda>pos mem. twoway_search hs n (shift_table n) a p mem0 pos mem"
  let ?c = "hs ! (pos + ?l - 1)"
  note rec = twoway_search.simps [of hs n "shift_table n" a p mem0 pos mem]
  have p: "0 < p" "a < ?l" using S unfolding shift_ok_def by auto
  show ?thesis
  proof (cases "shift_table n ?c")
    case None
    then have "?go pos mem = ?go (pos + ?l) 0" using fits by (simp add: rec Let_def)
    moreover have "0 < ?l" "\<forall>d < ?l. \<not> occurs hs n (pos + d)" using p absent_shift [OF None] by auto
    ultimately show ?thesis unfolding search_step_def Let_def using mem_ok_none by blast
  next
    case t: (Some t)
    show ?thesis
    proof (cases "?l - t = 0")
      case False
      let ?k = "if ?l - t < mem then mem else ?l - t"
      have "t \<le> ?l - 1" "?l - 1 < ?l" using False by auto
      then have "n ! (?l - 1) \<noteq> ?c" using shift_table_spec [of ?c n] t by auto
      then have "\<not> occurs hs n (pos + d)" if "d < ?k" for d
        using that table_shift [OF t, of d] remembered_shift [of n p hs pos d] M0 p(1)
        unfolding mem_ok_def by (auto split: if_splits)
      moreover have "?go pos mem = ?go (pos + ?k) 0" "0 < ?k" using fits t False by (simp_all add: rec Let_def)
      ultimately show ?thesis unfolding search_step_def Let_def using mem_ok_none by blast
    qed (rule search_step_scans [OF C S M0 fits t])
  qed
qed

lemma twoway_search_first:
  assumes C: "critical n a p0" and S: "shift_ok n a p mem0" and "mem_ok hs n p pos mem"
  shows "\<exists>r. twoway_search hs n (shift_table n) a p mem0 pos mem = Some r \<and> is_first hs n pos r"
  using assms(3)
proof (induction "Suc (length hs) - pos" arbitrary: pos mem rule: less_induct)
  case less
  let ?go = "\<lambda>pos mem. twoway_search hs n (shift_table n) a p mem0 pos mem"
  show ?case
  proof (cases "pos + length n \<le> length hs")
    case False
    then have "is_first hs n pos None" unfolding is_first_def occurs_def by auto
    then show ?thesis using False by (simp add: twoway_search.simps [of hs n _ a p mem0 pos] Let_def)
  next
    case True
    from search_step_any [OF C S less(2) True] show ?thesis
      unfolding search_step_def Let_def
    proof (elim disjE exE conjE)
      assume "?go pos mem = Some (Some pos)" "occurs hs n pos"
      then show ?thesis unfolding is_first_def by auto
    next
      fix k mem'
      assume k: "0 < k" "?go pos mem = ?go (pos + k) mem'" "mem_ok hs n p (pos + k) mem'" "\<forall>d < k. \<not> occurs hs n (pos + d)"
      have "Suc (length hs) - (pos + k) < Suc (length hs) - pos" using k(1) True by simp
      from less(1) [OF this k(3)] show ?thesis using is_first_skip [of k hs n pos] k(2,4) by auto
    qed
  qed
qed

lemma twoway_shift_ok:
  assumes C: "critical n a p"
  shows "if take a n \<noteq> take a (drop p n) then shift_ok n a (max (a - 1) (length n - a) + 1) 0 else shift_ok n a p (length n - p)"
proof -
  obtain gt where g: "letter_order gt" "max_at gt n a p" using C unfolding critical_def by blast
  then have p: "0 < p" "a + p \<le> length n" and P: "periodic n a (length n) p" unfolding max_at_def by auto
  show ?thesis
  proof (cases "take a n = take a (drop p n)")
    case True
    have u: "n ! i = n ! (i + p)" if "i < a" for i
      using arg_cong [OF True, of "\<lambda>x. x ! i"] that p by (simp add: algebra_simps)
    have "n ! (i + p) = n ! i" if "i + p < length n" for i
      using u [of i] P that unfolding periodic_def by (cases "i < a") (auto dest: spec [of _ "i - a"])
    then have pn: "periodic n 0 (length n) p" unfolding periodic_def by simp
    have "repeats_at n a p" unfolding repeats_at_def using p u by simp
    then have "a < p" using critical_repeats [OF C] by blast
    then show ?thesis using True p pn period_shift [OF C] unfolding shift_ok_def by auto
  next
    case False
    then show ?thesis using p long_shift [OF C] unfolding shift_ok_def by simp
  qed
qed

lemma twoway_memmem_first:
  assumes "n \<noteq> []"
  shows "\<exists>r. twoway_memmem hs n = Some r \<and> is_first hs n 0 r"
proof -
  obtain a p where ap: "twoway_suffix n = (a, p)" by fastforce
  then have C: "critical n a p" using twoway_suffix_critical [OF assms] by simp
  have m: "mem_ok hs n q 0 0" for q unfolding mem_ok_def by simp
  show ?thesis
    using twoway_search_first [OF C _ m] twoway_shift_ok [OF C] ap
    by (auto simp: twoway_memmem_def Let_def split: if_splits)
qed

end
