(* ===== verification/Memmem_Correct.thy ===== *)
theory Memmem_Correct
  imports Two_Way
begin

text \<open>
  Byte search by words and substring search by the length of the needle (\<open>kern_memmem.cpp\<close>) agree with
  the searches that try every place in turn.
\<close>

section \<open>A word without a zero byte\<close>

primrec le_int :: "byte list \<Rightarrow> int" where
  "le_int [] = 0"
| "le_int (b # bs) = uint b + 256 * le_int bs"

lemma le_int_append: "le_int (xs @ ys) = le_int xs + 2 ^ (8 * length xs) * le_int ys"
  by (induction xs) (simp_all add: algebra_simps power_add)

lemma le_int_bounds: "0 \<le> le_int bs \<and> le_int bs < 2 ^ (8 * length bs)"
proof (induction bs)
  case (Cons b bs)
  have "uint b < 256" "0 \<le> uint b" using uint_lt2p [of b] by simp_all
  then show ?case using Cons by (simp add: power_add)
qed simp

lemma le_int_positive: "0 \<notin> set bs \<Longrightarrow> le_int (replicate (length bs) 1) \<le> le_int bs"
proof (induction bs)
  case (Cons b bs)
  then have "uint b \<noteq> 0" by (auto simp: uint_0_iff)
  then have "1 \<le> uint b" using uint_ge_0 [of b] by linarith
  then show ?case using Cons by simp
qed simp

lemma le_word_int: "(le_word bs :: u64) = of_int (le_int bs)"
proof (induction bs)
  case (Cons b bs)
  have "ucast b OR push_bit 8 (le_word bs :: u64) = ucast b + push_bit 8 (le_word bs)"
    by (rule disjunctive_add [symmetric]) (auto simp: bit_simps dest: bit_imp_le_length)
  then show ?case using Cons by (simp add: push_bit_eq_mult algebra_simps)
qed simp

lemma uint_le_word: "length bs = 8 \<Longrightarrow> uint (le_word bs :: u64) = le_int bs"
  using le_int_bounds [of bs] by (simp add: le_word_int uint_word_of_int take_bit_eq_mod)

lemma ONES_mult: "ONES * ucast c = (le_word (replicate 8 c) :: u64)"
  by (simp add: le_word_int ONES_def numeral_nat algebra_simps)

lemma ONES_word: "ONES = le_word (replicate 8 1)"
  using ONES_mult [of 1] by simp

lemma HASZERO_hit:
  assumes "length bs = 8" and "0 \<in> set bs"
  shows "HASZERO (le_word bs) \<noteq> 0"
proof -
  obtain pre post where b: "bs = pre @ 0 # post" and pre: "0 \<notin> set pre" using split_list_first [OF assms(2)] by blast
  let ?i = "length pre" and ?x = "le_word bs :: u64"
  let ?s = "8 * ?i" and ?O = "le_int (replicate ?i 1)"
  have i: "?i < 8" using b assms(1) by simp
  define H where "H = le_int post"
  have x: "uint ?x = le_int pre + 2 ^ (?s + 8) * H"
    using uint_le_word [OF assms(1)] b by (simp add: le_int_append power_add H_def)
  have "8 = ?i + Suc (7 - ?i)" using i by simp
  then have "replicate 8 (1 :: byte) = replicate ?i 1 @ 1 # replicate (7 - ?i) 1"
    by (metis replicate_add replicate_Suc)
  then have one: "uint ONES = ?O + 2 ^ ?s * (1 + 256 * le_int (replicate (7 - ?i) 1))"
    using uint_le_word [of "replicate 8 1"] i by (simp add: ONES_word le_int_append)
  define K where "K = le_int (replicate (7 - ?i) 1)"
  define V where "V = le_int pre - ?O - 2 ^ ?s + 2 ^ (?s + 8)"
  have l: "0 \<le> le_int pre - ?O" "le_int pre - ?O < 2 ^ ?s"
    using le_int_positive [OF pre] le_int_bounds [of pre] le_int_bounds [of "replicate ?i 1"] by simp_all
  have V: "2 ^ (?s + 7) \<le> V" "V < 2 * 2 ^ (?s + 7)"
    using l by (simp_all add: V_def power_add)
  have "uint (?x - ONES) = (uint ?x - uint ONES) mod 2 ^ 64" by (simp add: uint_word_ariths)
  then have "take_bit (?s + 8) (uint (?x - ONES)) = (uint ?x - uint ONES) mod 2 ^ (?s + 8)"
    using mod_mod_cancel [OF le_imp_power_dvd [of "?s + 8" 64 "2 :: int"], of "uint ?x - uint ONES"] i
    by (simp only: take_bit_eq_mod)
  also have "uint ?x - uint ONES = V + 2 ^ (?s + 8) * (H - K - 1)"
    unfolding x one V_def K_def [symmetric] by (simp add: algebra_simps power_add)
  also have "(V + 2 ^ (?s + 8) * (H - K - 1)) mod 2 ^ (?s + 8) = V"
    using V by (simp add: power_add)
  finally have t: "take_bit (?s + 8) (uint (?x - ONES)) = V" .
  have "V div 2 ^ (?s + 7) = 1"
    using V by (intro int_div_pos_eq [of _ _ _ "V - 2 ^ (?s + 7)"]) auto
  then have "bit V (?s + 7)" by (simp add: bit_iff_odd)
  then have "bit (uint (?x - ONES)) (?s + 7)" unfolding t [symmetric] by (simp add: bit_take_bit_iff)
  then have y: "bit (?x - ONES) (?s + 7)" by (simp add: bit_uint_iff)
  have d: "(?s + 7) div 8 = ?i" "(?s + 7) mod 8 = 7" by simp_all
  have h: "HIGHS = le_word (replicate 8 (0x80 :: byte))" using ONES_mult [of "0x80"] by (simp add: HIGHS_def)
  have "bit HIGHS (?s + 7)" unfolding h bit_le_word d using i by simp
  moreover have "\<not> bit ?x (?s + 7)" using d by (simp add: bit_le_word b)
  ultimately have "bit (HASZERO ?x) (?s + 7)" using y i by (simp add: HASZERO_def bit_simps)
  then show ?thesis by auto
qed

section \<open>The byte search\<close>

lemma le_word_xor:
  assumes "length xs = length ys"
  shows "le_word xs XOR le_word ys = (le_word (map2 (XOR) xs ys) :: 'a::len word)"
  by (rule bit_word_eqI) (use assms in \<open>auto simp: bit_simps bit_le_word\<close>)

lemma memchr_word_skip:
  assumes "HASZERO (load64 m w XOR ONES * ucast c) = 0" and "i < 8"
  shows "m (w + of_nat i) \<noteq> c"
proof
  assume e: "m (w + of_nat i) = c"
  let ?bs = "map2 (XOR) (read_bytes m w 8) (replicate 8 c)"
  have "?bs ! i = 0" using assms(2) e by (simp add: nth_read_bytes)
  then have "0 \<in> set ?bs" using assms(2) by (metis length_map length_read_bytes length_replicate length_zip min.idem nth_mem)
  then have "HASZERO (le_word ?bs) \<noteq> 0" by (intro HASZERO_hit) simp_all
  then show False using assms(1) by (simp add: load64_def ONES_mult le_word_xor)
qed

lemma memchr_bytes_skip:
  "(\<And>i. i < k \<Longrightarrow> m (s + of_nat i) \<noteq> c) \<Longrightarrow> k \<le> n \<Longrightarrow> memchr_bytes m c s n = memchr_bytes m c (s + of_nat k) (n - k)"
proof (induction k arbitrary: s n)
  case (Suc k)
  then obtain n' where n: "n = Suc n'" by (cases n) auto
  have "m s \<noteq> c" using Suc.prems(1) [of 0] by simp
  moreover have "memchr_bytes m c (s + 1) n' = memchr_bytes m c (s + 1 + of_nat k) (n' - k)"
    using Suc.prems(1) [of "Suc _"] Suc.prems(2) n by (intro Suc.IH) (auto simp: algebra_simps)
  ultimately show ?case using n by (simp add: algebra_simps)
qed simp

lemma memchr_align_same: "memchr_align m c s n = (s', n') \<Longrightarrow> memchr_bytes m c s n = memchr_bytes m c s' n'"
  by (induction n arbitrary: s) (auto split: if_splits)

lemma memchr_words_same:
  "memchr_words m (ONES * ucast c) w n = (s', n') \<Longrightarrow> memchr_bytes m c w n = memchr_bytes m c s' n'"
proof (induction m "ONES * ucast c :: u64" w n rule: memchr_words.induct)
  case (1 m w n)
  show ?case
  proof (cases "8 \<le> n \<and> HASZERO (load64 m w XOR ONES * ucast c) = 0")
    case True
    then have "memchr_bytes m c (w + 8) (n - 8) = memchr_bytes m c s' n'"
      using 1 by (simp add: memchr_words.simps [of m _ w n])
    then show ?thesis using memchr_bytes_skip [of 8 m w c n] memchr_word_skip [of m w c] True by simp
  next
    case False
    then show ?thesis using 1(2) by (auto simp: memchr_words.simps [of m _ w n])
  qed
qed

lemma lilu_os_memchr_bytes: "lilu_os_memchr m s c n = memchr_bytes m c s n"
  by (auto simp: lilu_os_memchr_def Let_def split: prod.splits dest!: memchr_align_same memchr_words_same)

lemma find_mapped: "find P (map f xs) = map_option f (find (\<lambda>x. P (f x)) xs)"
  by (induction xs) simp_all

lemma memchr_bytes_find: "memchr_bytes m c s n = map_option (\<lambda>i. s + of_nat i) (find (\<lambda>i. m (s + of_nat i) = c) [0..<n])"
proof (induction n arbitrary: s)
  case (Suc n)
  show ?case
    using Suc by (simp add: upt_conv_Cons map_Suc_upt [symmetric] find_mapped option.map_comp comp_def algebra_simps del: upt_Suc)
qed simp

section \<open>Short needles\<close>

lemma le_word_truncate: "LENGTH('a) \<le> 8 * length xs \<Longrightarrow> (le_word (xs @ ys) :: 'a::len word) = le_word xs"
  by (rule bit_word_eqI) (auto simp: bit_le_word nth_append)

lemma le_word_inj:
  assumes "length xs = length ys" and "8 * length xs \<le> LENGTH('a)"
  shows "(le_word xs :: 'a::len word) = le_word ys \<longleftrightarrow> xs = ys"
  using assms le_bytes_le_word [of xs, where ?'a = 'a] le_bytes_le_word [of ys, where ?'a = 'a] by metis

locale window_search =
  fixes w :: nat and pack :: "byte list \<Rightarrow> 'w" and slide :: "'w \<Rightarrow> byte \<Rightarrow> 'w"
    and loop :: "'w \<Rightarrow> 'w \<Rightarrow> nat \<Rightarrow> byte list \<Rightarrow> nat option"
  assumes pack_inj: "length xs = w \<Longrightarrow> length ys = w \<Longrightarrow> pack xs = pack ys \<longleftrightarrow> xs = ys"
    and slide_pack: "length bs = w \<Longrightarrow> slide (pack bs) c = pack (tl bs @ [c])"
    and loop_Nil: "loop nw hw pos [] = (if hw = nw then Some pos else None)"
    and loop_Cons: "loop nw hw pos (b # bs) = (if hw = nw then Some pos else loop nw (slide hw b) (Suc pos) bs)"
begin

lemma window_occurs: "length n = w \<Longrightarrow> pos + w \<le> length hs \<Longrightarrow> occurs hs n pos \<longleftrightarrow> pack (take w (drop pos hs)) = pack n"
  by (subst pack_inj) (auto simp: occurs_def list_eq_iff_nth_eq)

lemma loop_first:
  assumes "length n = w" and "pos + w \<le> length hs" and "0 < w"
  shows "is_first hs n pos (loop (pack n) (pack (take w (drop pos hs))) pos (drop (pos + w) hs))"
  using assms(2)
proof (induction "length hs - pos" arbitrary: pos rule: less_induct)
  case less
  note o = window_occurs [OF assms(1) less.prems]
  show ?case
  proof (cases "drop (pos + w) hs")
    case Nil
    then have "\<not> occurs hs n i" if "pos < i" for i using that assms(1) unfolding occurs_def by auto
    then show ?thesis using Nil o by (auto simp: is_first_def loop_Nil le_less)
  next
    case (Cons b bs)
    show ?thesis
    proof (cases "occurs hs n pos")
      case True
      then show ?thesis using Cons o by (auto simp: is_first_def loop_Cons)
    next
      case False
      have lt: "pos + w < length hs" using Cons by (metis drop_all not_le list.distinct(1))
      have bs: "bs = drop (Suc pos + w) hs" "b = hs ! (pos + w)"
        using Cons lt by (metis Cons_nth_drop_Suc add_Suc list.inject)+
      have "tl (take w (drop pos hs)) @ [b] = take w (drop (Suc pos) hs)"
        using lt assms(3) bs(2) take_Suc_conv_app_nth [of "w - 1" "drop (Suc pos) hs"] by (simp add: tl_take drop_Suc tl_drop nth_tl)
      then have "slide (pack (take w (drop pos hs))) b = pack (take w (drop (Suc pos) hs))"
        using lt by (simp add: slide_pack)
      moreover have "is_first hs n (Suc pos) (loop (pack n) (pack (take w (drop (Suc pos) hs))) (Suc pos) (drop (Suc pos + w) hs))"
        by (rule less.hyps) (use lt in auto)
      ultimately have "is_first hs n (pos + 1) (loop (pack n) (pack (take w (drop pos hs))) pos (drop (pos + w) hs))"
        using Cons False o bs by (simp add: loop_Cons)
      then show ?thesis by (rule is_first_skip [rotated]) (use False in simp)
    qed
  qed
qed

end

interpretation two: window_search 2 "\<lambda>n. le_word (rev n)" "\<lambda>hw b. push_bit 8 hw OR ucast b" twobyte_loop
proof
  fix bs :: "byte list" and c :: byte assume "length bs = 2"
  then show "push_bit 8 (le_word (rev bs)) OR ucast c = (le_word (rev (tl bs @ [c])) :: u16)"
    using le_word_truncate [where ?'a = 16, of "c # rev (tl bs)" "[hd bs]"] by (cases bs) (auto simp: or.commute)
qed (simp_all add: le_word_inj)

interpretation three: window_search 3 "\<lambda>n. le_word (0 # rev n)" "\<lambda>hw b. push_bit 8 (hw OR ucast b)" threebyte_loop
proof
  fix bs :: "byte list" and c :: byte assume "length bs = 3"
  then show "push_bit 8 (le_word (0 # rev bs) OR ucast c) = (le_word (0 # rev (tl bs @ [c])) :: u32)"
    using le_word_truncate [where ?'a = 32, of "0 # c # rev (tl bs)" "[hd bs]"] by (cases bs) (auto simp: or.commute)
next
  fix xs ys :: "byte list" assume "length xs = 3" "length ys = 3"
  then show "(le_word (0 # rev xs) = (le_word (0 # rev ys) :: u32)) = (xs = ys)"
    using le_word_inj [of "0 # rev xs" "0 # rev ys", where ?'a = 32] by (simp del: le_word.simps)
qed simp_all

interpretation four: window_search 4 "\<lambda>n. le_word (rev n)" "\<lambda>hw b. push_bit 8 hw OR ucast b" fourbyte_loop
proof
  fix bs :: "byte list" and c :: byte assume "length bs = 4"
  then show "push_bit 8 (le_word (rev bs)) OR ucast c = (le_word (rev (tl bs @ [c])) :: u32)"
    using le_word_truncate [where ?'a = 32, of "c # rev (tl bs)" "[hd bs]"] by (cases bs) (auto simp: or.commute)
qed (simp_all add: le_word_inj)


lemma length_2_3_4:
  "length bs = 2 \<Longrightarrow> bs = [bs ! 0, bs ! 1]" "length bs = 3 \<Longrightarrow> bs = [bs ! 0, bs ! 1, bs ! 2]"
  "length bs = 4 \<Longrightarrow> bs = [bs ! 0, bs ! 1, bs ! 2, bs ! 3]"
  by (intro nth_equalityI; auto simp: less_Suc_eq numeral_nat)+

lemma take_nths:
  "2 \<le> length h \<Longrightarrow> take 2 h = [h ! 0, h ! 1]" "3 \<le> length h \<Longrightarrow> take 3 h = [h ! 0, h ! 1, h ! 2]"
  "4 \<le> length h \<Longrightarrow> take 4 h = [h ! 0, h ! 1, h ! 2, h ! 3]"
  by (intro nth_equalityI; auto simp: less_Suc_eq numeral_nat)+

lemma twobyte_word_le: "2 \<le> length h \<Longrightarrow> twobyte_word h = le_word (rev (take 2 h))"
  by (simp only: take_nths twobyte_word_def rev.simps append.simps le_word.simps) (simp add: or.commute)

lemma threebyte_word_le: "3 \<le> length h \<Longrightarrow> threebyte_word h = le_word (0 # rev (take 3 h))"
  by (simp only: take_nths threebyte_word_def rev.simps append.simps le_word.simps)
     (simp add: push_bit_or or.commute or.left_commute or.assoc)

lemma fourbyte_word_le: "4 \<le> length h \<Longrightarrow> fourbyte_word h = le_word (rev (take 4 h))"
  by (simp only: take_nths fourbyte_word_def rev.simps append.simps le_word.simps)
     (simp add: push_bit_or or.commute or.left_commute or.assoc)

lemma short_memmem_first:
  "length n = 2 \<Longrightarrow> 2 \<le> length hs \<Longrightarrow> is_first hs n 0 (twobyte_memmem hs n)"
  "length n = 3 \<Longrightarrow> 3 \<le> length hs \<Longrightarrow> is_first hs n 0 (threebyte_memmem hs n)"
  "length n = 4 \<Longrightarrow> 4 \<le> length hs \<Longrightarrow> is_first hs n 0 (fourbyte_memmem hs n)"
  using two.loop_first [of n 0 hs] three.loop_first [of n 0 hs] four.loop_first [of n 0 hs]
  by (simp_all add: twobyte_memmem_def threebyte_memmem_def fourbyte_memmem_def twobyte_word_le threebyte_word_le fourbyte_word_le
      del: le_word.simps add_2_eq_Suc add_2_eq_Suc')

section \<open>The whole search\<close>

text \<open>The reference: try one place after the other.\<close>

definition first_occurrence :: "byte list \<Rightarrow> byte list \<Rightarrow> nat option" where
  "first_occurrence hs n = find (\<lambda>i. take (length n) (drop i hs) = n) [0..<Suc (length hs) - length n]"

lemma occurs_take: "occurs hs n i \<longleftrightarrow> i + length n \<le> length hs \<and> take (length n) (drop i hs) = n"
  by (auto simp: occurs_def list_eq_iff_nth_eq)

lemma is_first_unique: "is_first hs n pos r \<Longrightarrow> is_first hs n pos r' \<Longrightarrow> r = r'"
  unfolding is_first_def by (cases r; cases r'; auto) (metis linorder_neqE_nat)

lemma first_occurrence_first: "is_first hs n 0 (first_occurrence hs n)"
proof (cases "first_occurrence hs n")
  case None
  then have "\<forall>i < Suc (length hs) - length n. take (length n) (drop i hs) \<noteq> n"
    by (auto simp: first_occurrence_def find_None_iff)
  then show ?thesis unfolding is_first_def None by (auto simp: occurs_take)
next
  case (Some i)
  then obtain k where "k < length [0..<Suc (length hs) - length n]" "take (length n) (drop ([0..<Suc (length hs) - length n] ! k) hs) = n"
      "i = [0..<Suc (length hs) - length n] ! k"
      "\<forall>j < k. take (length n) (drop ([0..<Suc (length hs) - length n] ! j) hs) \<noteq> n"
    unfolding first_occurrence_def find_Some_iff by blast
  then show ?thesis unfolding is_first_def Some by (auto simp: occurs_take)
qed

lemma is_first_eq: "is_first hs n 0 r \<longleftrightarrow> r = first_occurrence hs n"
  using first_occurrence_first is_first_unique by metis

text \<open>The first byte narrows the search down.\<close>

lemma first_from_byte:
  assumes "n \<noteq> []" and "\<And>j. j < i \<Longrightarrow> hs ! j \<noteq> n ! 0" and "i \<le> length hs"
  shows "first_occurrence hs n = map_option (\<lambda>j. i + j) (first_occurrence (drop i hs) n)"
proof -
  have o: "occurs (drop i hs) n j \<longleftrightarrow> occurs hs n (i + j)" for j
    using assms(3) by (auto simp: occurs_def algebra_simps)
  have no: "\<not> occurs hs n (0 + j)" if "j < i" for j
    using assms(1,2) occursD [of hs n j 0] that by auto
  have "is_first hs n (0 + i) (map_option (\<lambda>j. i + j) (first_occurrence (drop i hs) n))"
    using first_occurrence_first [of "drop i hs" n] unfolding is_first_def o
    by (auto split: option.splits) (metis add_less_cancel_left le_Suc_ex)+
  then show ?thesis using is_first_skip [OF no] is_first_eq by metis
qed

lemma first_occurrence_short: "length hs < length n \<Longrightarrow> first_occurrence hs n = None"
  by (simp add: first_occurrence_def)

lemma first_occurrence_here: "occurs hs n 0 \<Longrightarrow> first_occurrence hs n = Some 0"
  using is_first_eq [of hs n "Some 0"] by (simp add: is_first_def)

text \<open>Behind the first byte of the needle.\<close>

definition memmem_rest :: "byte list \<Rightarrow> byte list \<Rightarrow> nat option option" where
  "memmem_rest hs n =
     (if length hs < length n then Some None
      else if length n = 2 then Some (twobyte_memmem hs n)
      else if length n = 3 then Some (threebyte_memmem hs n)
      else if length n = 4 then Some (fourbyte_memmem hs n)
      else twoway_memmem hs n)"

lemma memmem_rest_first: "n \<noteq> [] \<Longrightarrow> memmem_rest hs n = Some (first_occurrence hs n)"
  using short_memmem_first [of n hs] twoway_memmem_first [of n hs]
  by (auto simp: memmem_rest_def first_occurrence_short is_first_eq)

lemma drop_read_bytes: "i \<le> k \<Longrightarrow> drop i (read_bytes m a k) = read_bytes m (a + of_nat i) (k - i)"
  by (simp add: read_bytes_split [of i k])

text \<open>
  C27. \<open>lilu_os_memmem\<close> always returns, and gives the first place at which the needle occurs in the
  haystack, or none when there is none, whatever algorithm the length of the needle selects: it is the
  search that tries every place in turn.
\<close>

theorem lilu_os_memmem_first:
  assumes "k < 2 ^ 64"
  shows "lilu_os_memmem m h0 k n0 l =
     Some (map_option (\<lambda>i. h0 + of_nat i) (first_occurrence (read_bytes m h0 k) (read_bytes m n0 l)))"
proof -
  let ?hs = "read_bytes m h0 k" and ?n = "read_bytes m n0 l"
  consider "l = 0" | "0 < l" "k < l" | "0 < l" "l \<le> k" by linarith
  then show ?thesis
  proof cases
    case 1
    then show ?thesis by (simp add: lilu_os_memmem_def first_occurrence_def upt_conv_Cons del: upt_Suc)
  next
    case 2
    then show ?thesis by (simp add: lilu_os_memmem_def first_occurrence_short)
  next
    case 3
    then have ne: "?n \<noteq> []" and n0: "?n ! 0 = m n0" by (cases l; simp)+
    show ?thesis
    proof (cases "find (\<lambda>i. m (h0 + of_nat i) = m n0) [0..<k]")
      case None
      then have "first_occurrence ?hs ?n = map_option (\<lambda>j. k + j) (first_occurrence (drop k ?hs) ?n)"
        by (intro first_from_byte [OF ne]) (auto simp: find_None_iff n0 nth_read_bytes)
      then have "first_occurrence ?hs ?n = None" using 3 by (simp add: first_occurrence_short)
      then show ?thesis using None 3 by (simp add: lilu_os_memmem_def lilu_os_memchr_bytes memchr_bytes_find)
    next
      case (Some i)
      then have i: "i < k" "m (h0 + of_nat i) = m n0" "\<forall>j < i. m (h0 + of_nat j) \<noteq> m n0"
        by (auto simp: find_Some_iff)
      have f: "first_occurrence ?hs ?n = map_option (\<lambda>j. i + j) (first_occurrence (drop i ?hs) ?n)"
        by (intro first_from_byte [OF ne]) (use i in \<open>auto simp: n0 nth_read_bytes\<close>)
      have u: "unat (of_nat i :: u64) = i" using i(1) assms by (intro unat_of_nat_u64) simp
      have "lilu_os_memmem m h0 k n0 l =
          map_option (map_option (\<lambda>j. h0 + of_nat i + of_nat j)) (Some (first_occurrence (drop i ?hs) ?n))"
      proof (cases "l = 1")
        case True
        then have "occurs (drop i ?hs) ?n 0" using i by (auto simp: occurs_def nth_read_bytes)
        then show ?thesis using True Some 3
          by (simp add: lilu_os_memmem_def lilu_os_memchr_bytes memchr_bytes_find first_occurrence_here)
      next
        case False
        then show ?thesis unfolding memmem_rest_first [OF ne, symmetric] using Some 3 u i(1)
          by (simp add: lilu_os_memmem_def lilu_os_memchr_bytes memchr_bytes_find memmem_rest_def drop_read_bytes Let_def)
      qed
      then show ?thesis by (simp add: f option.map_comp comp_def algebra_simps)
    qed
  qed
qed

theorem lilu_os_memmem_first_witness:
  "lilu_os_memmem (write_bytes (write_bytes (\<lambda>_. 0) 0x1000 [9, 7, 8, 7, 8, 7, 1, 7, 8, 7, 8, 7, 5]) 0x2000 [7, 8, 7, 8, 7, 5]) 0x1000 13 0x2000 6 =
     Some (Some 0x1007)"
proof -
  let ?m = "write_bytes (write_bytes (\<lambda>_. 0) 0x1000 [9, 7, 8, 7, 8, 7, 1, 7, 8, 7, 8, 7, 5]) 0x2000 [7, 8, 7, 8, 7, 5 :: byte]"
  have "first_occurrence (read_bytes ?m 0x1000 13) (read_bytes ?m 0x2000 6) = Some 7" by code_simp
  then show ?thesis using lilu_os_memmem_first [of 13 ?m "0x1000" "0x2000" 6] by simp
qed

text \<open>
  C29. \<open>lilu_os_memchr\<close>, which skips eight bytes at a time when the word has no zero byte after the byte was
  taken out of it, returns the first of the \<open>n\<close> bytes that is equal to \<open>c\<close>, and nothing when there is none.
\<close>

theorem lilu_os_memchr_first:
  "lilu_os_memchr m s c n = map_option (\<lambda>i. s + of_nat i) (find (\<lambda>i. m (s + of_nat i) = c) [0..<n])"
  by (simp add: lilu_os_memchr_bytes memchr_bytes_find)

end
