(* ===== verification/Qsort.thy ===== *)
theory Qsort
  imports Prelude "HOL-Library.Multiset"
begin

text \<open>
  The sort of \<open>kern_qsort.cpp\<close> (Bentley and McIlroy). An array of \<open>n\<close> elements of \<open>es\<close> bytes is a list, a
  pointer into it the index of an element, and \<open>cmp\<close> the comparison the caller gives. The exchange of two
  elements is also modelled on bytes, as the code does it. The code keeps distances in bytes in variables of type
  \<open>int\<close>; where one does not fit, the pointers computed from it need not even point to elements, and the sort on
  elements ends with \<open>None\<close>.
\<close>

section \<open>Exchanging bytes\<close>

text \<open>\<open>swapcode\<close> for units of \<open>u\<close> bytes: the do loop over \<open>n / u\<close> units, at least one.\<close>

primrec swap_units :: "nat \<Rightarrow> nat \<Rightarrow> addr \<Rightarrow> addr \<Rightarrow> memory \<Rightarrow> memory" where
  "swap_units u 0 pi pj m = m"
| "swap_units u (Suc i) pi pj m =
     (let t = read_bytes m pi u; m1 = write_bytes m pi (read_bytes m pj u); m2 = write_bytes m1 pj t
      in swap_units u i (pi + of_nat u) (pj + of_nat u) m2)"

text \<open>
  The number of bytes is an \<open>int\<close>. Dividing it by \<open>sizeof (TYPE)\<close> turns it into an unsigned 64-bit value, which is then read
  as the \<open>long\<close> \<open>i\<close>.
\<close>

definition swapcode :: "nat \<Rightarrow> addr \<Rightarrow> addr \<Rightarrow> 32 word \<Rightarrow> memory \<Rightarrow> memory" where
  "swapcode u a b n m = (let i = sint ((scast n :: 64 word) div of_nat u) in swap_units u (max 1 (nat i)) a b m)"

definition SWAPINIT :: "addr \<Rightarrow> nat \<Rightarrow> nat" where
  "SWAPINIT a es = (if unat a mod 8 \<noteq> 0 \<or> es mod 8 \<noteq> 0 then 2 else if es = 8 then 0 else 1)"

definition swapfunc :: "addr \<Rightarrow> addr \<Rightarrow> 32 word \<Rightarrow> nat \<Rightarrow> memory \<Rightarrow> memory" where
  "swapfunc a b n swaptype m = (if swaptype \<le> 1 then swapcode 8 a b n m else swapcode 1 a b n m)"

definition swap_bytes :: "addr \<Rightarrow> addr \<Rightarrow> nat \<Rightarrow> nat \<Rightarrow> memory \<Rightarrow> memory" where
  "swap_bytes a b es swaptype m =
     (if swaptype = 0 then
        (let t = read_bytes m a 8; m1 = write_bytes m a (read_bytes m b 8) in write_bytes m1 b t)
      else swapfunc a b (of_nat es) swaptype m)"

section \<open>The sort on elements\<close>

definition swap :: "nat \<Rightarrow> nat \<Rightarrow> 'a list \<Rightarrow> 'a list" where
  "swap i j xs = xs[i := xs ! j, j := xs ! i]"

primrec vecswap :: "nat \<Rightarrow> nat \<Rightarrow> nat \<Rightarrow> 'a list \<Rightarrow> 'a list" where
  "vecswap a b 0 xs = xs"
| "vecswap a b (Suc r) xs = vecswap (Suc a) (Suc b) r (swap a b xs)"

definition med3 :: "('a \<Rightarrow> 'a \<Rightarrow> int) \<Rightarrow> 'a list \<Rightarrow> nat \<Rightarrow> nat \<Rightarrow> nat \<Rightarrow> nat" where
  "med3 cmp xs a b c =
     (if cmp (xs ! a) (xs ! b) < 0 then
        (if cmp (xs ! b) (xs ! c) < 0 then b else if cmp (xs ! a) (xs ! c) < 0 then c else a)
      else (if cmp (xs ! b) (xs ! c) > 0 then b else if cmp (xs ! a) (xs ! c) < 0 then a else c))"

text \<open>Insertion sort: element \<open>pl\<close> goes down past the larger ones, for one element after the other.\<close>

primrec insert_down :: "('a \<Rightarrow> 'a \<Rightarrow> int) \<Rightarrow> nat \<Rightarrow> 'a list \<Rightarrow> 'a list" where
  "insert_down cmp 0 xs = xs"
| "insert_down cmp (Suc p) xs =
     (if cmp (xs ! p) (xs ! Suc p) > 0 then insert_down cmp p (swap (Suc p) p xs) else xs)"

definition insertion_sort :: "('a \<Rightarrow> 'a \<Rightarrow> int) \<Rightarrow> 'a list \<Rightarrow> 'a list" where
  "insertion_sort cmp xs = fold (insert_down cmp) [1..<length xs] xs"

text \<open>A distance of \<open>k\<close> elements, in bytes in an \<open>int\<close>.\<close>

definition int_dist :: "nat \<Rightarrow> nat \<Rightarrow> nat option" where
  "int_dist es k = (if k * es < 2 ^ 31 then Some k else None)"

definition pivot_index :: "nat \<Rightarrow> ('a \<Rightarrow> 'a \<Rightarrow> int) \<Rightarrow> 'a list \<Rightarrow> nat option" where
  "pivot_index es cmp xs =
     (let n = length xs; pm = n div 2; pl = 0; pn = n - 1 in
      if n > 40 then do {
        d \<leftarrow> int_dist es (n div 8);
        d2 \<leftarrow> int_dist es (2 * d);
        let pl = med3 cmp xs pl (pl + d) (pl + d2);
        let pm = med3 cmp xs (pm - d) pm (pm + d);
        let pn = med3 cmp xs (pn - d2) (pn - d) pn;
        Some (med3 cmp xs pl pm pn)
      }
      else if n > 7 then Some (med3 cmp xs pl pm pn)
      else Some pm)"

text \<open>
  The two scans of the partition; the pivot is element 0. \<open>pc\<close> and \<open>pd\<close> are kept one element higher than
  in the code, as \<open>qc\<close> and \<open>qd\<close>. The flag is \<open>swap_cnt\<close>.
\<close>

function scan_up :: "('a \<Rightarrow> 'a \<Rightarrow> int) \<Rightarrow> 'a list \<Rightarrow> nat \<Rightarrow> nat \<Rightarrow> nat \<Rightarrow> bool \<Rightarrow> 'a list \<times> nat \<times> nat \<times> bool" where
  "scan_up cmp xs pa pb qc sc =
     (if pb < qc \<and> cmp (xs ! pb) (xs ! 0) \<le> 0 then
        (if cmp (xs ! pb) (xs ! 0) = 0 then scan_up cmp (swap pa pb xs) (pa + 1) (pb + 1) qc True
         else scan_up cmp xs pa (pb + 1) qc sc)
      else (xs, pa, pb, sc))"
  by pat_completeness auto
termination by (relation "measure (\<lambda>(cmp, xs, pa, pb, qc, sc). qc - pb)") auto

function scan_down :: "('a \<Rightarrow> 'a \<Rightarrow> int) \<Rightarrow> 'a list \<Rightarrow> nat \<Rightarrow> nat \<Rightarrow> nat \<Rightarrow> bool \<Rightarrow> 'a list \<times> nat \<times> nat \<times> bool" where
  "scan_down cmp xs pb qc qd sc =
     (if pb < qc \<and> cmp (xs ! (qc - 1)) (xs ! 0) \<ge> 0 then
        (if cmp (xs ! (qc - 1)) (xs ! 0) = 0 then scan_down cmp (swap (qc - 1) (qd - 1) xs) pb (qc - 1) (qd - 1) True
         else scan_down cmp xs pb (qc - 1) qd sc)
      else (xs, qc, qd, sc))"
  by pat_completeness auto
termination by (relation "measure (\<lambda>(cmp, xs, pb, qc, qd, sc). qc)") auto

declare scan_up.simps [simp del] scan_down.simps [simp del]

text \<open>One round of the partition, and all of them: the list, \<open>pa\<close>, \<open>pb\<close>, \<open>qc\<close>, \<open>qd\<close> and the flag.\<close>

definition scans :: "('a \<Rightarrow> 'a \<Rightarrow> int) \<Rightarrow> 'a list \<Rightarrow> nat \<Rightarrow> nat \<Rightarrow> nat \<Rightarrow> nat \<Rightarrow> bool
    \<Rightarrow> 'a list \<times> nat \<times> nat \<times> nat \<times> nat \<times> bool" where
  "scans cmp xs pa pb qc qd sc =
     (let (xs1, pa1, pb1, sc1) = scan_up cmp xs pa pb qc sc;
          (xs2, qc1, qd1, sc2) = scan_down cmp xs1 pb1 qc qd sc1
      in (xs2, pa1, pb1, qc1, qd1, sc2))"

lemma length_swap [simp]: "length (swap i j xs) = length xs"
  by (simp add: swap_def)

lemma length_vecswap [simp]: "length (vecswap a b r xs) = length xs"
  by (induction r arbitrary: a b xs) simp_all

text \<open>The pointers keep their order.\<close>

definition ordered_at :: "'a list \<Rightarrow> nat \<Rightarrow> nat \<Rightarrow> nat \<Rightarrow> nat \<Rightarrow> bool" where
  "ordered_at xs pa pb qc qd \<longleftrightarrow> 0 < pa \<and> pa \<le> pb \<and> pb \<le> qc \<and> qc \<le> qd \<and> qd \<le> length xs"

lemma scan_down_le: "scan_down cmp xs pb qc qd sc = (ys, qc', qd', sc') \<Longrightarrow> qc' \<le> qc"
proof (induction cmp xs pb qc qd sc rule: scan_down.induct)
  case (1 cmp xs pb qc qd sc)
  then show ?case by (force simp: scan_down.simps [of cmp xs pb qc] split: if_splits)
qed

lemma scans_le: "scans cmp xs pa pb qc qd sc = (ys, pa', pb', qc', qd', sc') \<Longrightarrow> qc' \<le> qc"
  by (auto simp: scans_def dest: scan_down_le split: prod.splits)

function partition_loop :: "('a \<Rightarrow> 'a \<Rightarrow> int) \<Rightarrow> 'a list \<Rightarrow> nat \<Rightarrow> nat \<Rightarrow> nat \<Rightarrow> nat \<Rightarrow> bool
    \<Rightarrow> 'a list \<times> nat \<times> nat \<times> nat \<times> nat \<times> bool" where
  "partition_loop cmp xs pa pb qc qd sc =
     (case scans cmp xs pa pb qc qd sc of
        (ys, pa1, pb1, qc1, qd1, sc1) \<Rightarrow>
          if pb1 \<ge> qc1 then (ys, pa1, pb1, qc1, qd1, sc1)
          else partition_loop cmp (swap pb1 (qc1 - 1) ys) pa1 (pb1 + 1) (qc1 - 1) qd1 True)"
  by pat_completeness auto
termination
  by (relation "measure (\<lambda>(cmp, xs, pa, pb, qc, qd, sc). qc)") (auto dest!: scans_le [OF sym])

declare partition_loop.simps [simp del]

lemma mset_exchange [simp]: "i < length xs \<Longrightarrow> j < length xs \<Longrightarrow> mset (swap i j xs) = mset xs"
  by (simp add: swap_def mset_swap)

lemma nth_swap:
  "i < length xs \<Longrightarrow> j < length xs \<Longrightarrow> k < length xs \<Longrightarrow>
     swap i j xs ! k = (if k = i then xs ! j else if k = j then xs ! i else xs ! k)"
  by (auto simp: swap_def nth_list_update)

text \<open>The layout of a partition: pivot, equal, smaller, not seen yet, larger, equal.\<close>

definition layout :: "('a \<Rightarrow> 'a \<Rightarrow> int) \<Rightarrow> 'a list \<Rightarrow> nat \<Rightarrow> nat \<Rightarrow> nat \<Rightarrow> nat \<Rightarrow> bool" where
  "layout cmp xs pa pb qc qd \<longleftrightarrow> ordered_at xs pa pb qc qd \<and>
     (\<forall>i. 0 < i \<and> i < pa \<longrightarrow> cmp (xs ! i) (xs ! 0) = 0) \<and> (\<forall>i. pa \<le> i \<and> i < pb \<longrightarrow> cmp (xs ! i) (xs ! 0) < 0) \<and>
     (\<forall>i. qc \<le> i \<and> i < qd \<longrightarrow> cmp (xs ! i) (xs ! 0) > 0) \<and> (\<forall>i. qd \<le> i \<and> i < length xs \<longrightarrow> cmp (xs ! i) (xs ! 0) = 0)"

lemma layout_equal_up:
  assumes "layout cmp xs pa pb qc qd" and "pb < qc" and "cmp (xs ! pb) (xs ! 0) = 0"
  shows "layout cmp (swap pa pb xs) (pa + 1) (pb + 1) qc qd"
proof -
  have o: "0 < pa" "pa \<le> pb" "pb < length xs" "pa < length xs" "0 < length xs"
    using assms(1,2) unfolding layout_def ordered_at_def by auto
  show ?thesis using assms o unfolding layout_def ordered_at_def
    by (auto simp: nth_swap)
qed

lemma layout_less_up:
  "layout cmp xs pa pb qc qd \<Longrightarrow> pb < qc \<Longrightarrow> cmp (xs ! pb) (xs ! 0) < 0 \<Longrightarrow> layout cmp xs pa (pb + 1) qc qd"
  unfolding layout_def ordered_at_def by (auto simp: less_Suc_eq)

lemma layout_equal_down:
  assumes "layout cmp xs pa pb qc qd" and "pb < qc" and "cmp (xs ! (qc - 1)) (xs ! 0) = 0"
  shows "layout cmp (swap (qc - 1) (qd - 1) xs) pa pb (qc - 1) (qd - 1)"
proof -
  have o: "0 < pa" "pa \<le> pb" "pb < qc" "qc \<le> qd" "qd \<le> length xs"
    using assms(1,2) unfolding layout_def ordered_at_def by auto
  have n: "swap (qc - 1) (qd - 1) xs ! k = (if k = qc - 1 then xs ! (qd - 1) else if k = qd - 1 then xs ! (qc - 1) else xs ! k)"
    if "k < length xs" for k using o that by (intro nth_swap) auto
  have z: "swap (qc - 1) (qd - 1) xs ! 0 = xs ! 0" using o by (subst n) auto
  have gr: "cmp (xs ! i) (xs ! 0) > 0" if "qc \<le> i" "i < qd" for i using assms(1) that unfolding layout_def by blast
  have eq: "cmp (xs ! i) (xs ! 0) = 0" if "qd \<le> i" "i < length xs" for i using assms(1) that unfolding layout_def by blast
  have "cmp (swap (qc - 1) (qd - 1) xs ! i) (xs ! 0) > 0" if i: "qc - 1 \<le> i" "i < qd - 1" for i
    using n [of i] gr [of i] gr [of "qd - 1"] i o by (cases "i = qc - 1") auto
  moreover have "cmp (swap (qc - 1) (qd - 1) xs ! i) (xs ! 0) = 0" if i: "qd - 1 \<le> i" "i < length xs" for i
    using n [of i] eq [of i] assms(3) i o by (cases "i = qd - 1") auto
  moreover have "swap (qc - 1) (qd - 1) xs ! i = xs ! i" if "i < pb" for i
    using that n [of i] o by auto
  ultimately show ?thesis using assms(1) o z unfolding layout_def ordered_at_def by auto
qed

lemma layout_greater_down:
  assumes "layout cmp xs pa pb qc qd" and "pb < qc" and "cmp (xs ! (qc - 1)) (xs ! 0) > 0"
  shows "layout cmp xs pa pb (qc - 1) qd"
proof -
  have "cmp (xs ! i) (xs ! 0) > 0" if "qc - 1 \<le> i" "i < qd" for i
    using assms that unfolding layout_def by (cases "i = qc - 1") auto
  then show ?thesis using assms(1,2) unfolding layout_def ordered_at_def by auto
qed

lemma scan_up_layout:
  "scan_up cmp xs pa pb qc sc = (ys, pa', pb', sc') \<Longrightarrow> layout cmp xs pa pb qc qd \<Longrightarrow>
     layout cmp ys pa' pb' qc qd \<and> mset ys = mset xs \<and> (pb' < qc \<longrightarrow> 0 < cmp (ys ! pb') (ys ! 0))"
proof (induction cmp xs pa pb qc sc rule: scan_up.induct)
  case (1 cmp xs pa pb qc sc)
  have "pa < length xs \<and> pb < length xs" if "pb < qc" using 1(4) that unfolding layout_def ordered_at_def by auto
  then show ?case
    using 1 layout_equal_up [OF 1(4)] layout_less_up [OF 1(4)]
    by (auto simp: scan_up.simps [of cmp xs pa pb] not_le split: if_splits)
qed

lemma scan_down_layout:
  "scan_down cmp xs pb qc qd sc = (ys, qc', qd', sc') \<Longrightarrow> layout cmp xs pa pb qc qd \<Longrightarrow>
     layout cmp ys pa pb qc' qd' \<and> mset ys = mset xs \<and> qc' \<le> qc \<and> (\<forall>i < qc'. ys ! i = xs ! i) \<and>
     (pb < qc' \<longrightarrow> cmp (ys ! (qc' - 1)) (ys ! 0) < 0)"
proof (induction cmp xs pb qc qd sc rule: scan_down.induct)
  case (1 cmp xs pb qc qd sc)
  show ?case
  proof (cases "pb < qc \<and> cmp (xs ! (qc - 1)) (xs ! 0) \<ge> 0")
    case True
    have o: "pb < qc" "qc \<le> qd" "qd \<le> length xs" using True 1(4) unfolding layout_def ordered_at_def by auto
    show ?thesis
    proof (cases "cmp (xs ! (qc - 1)) (xs ! 0) = 0")
      case eq: True
      let ?ys = "swap (qc - 1) (qd - 1) xs"
      have "scan_down cmp ?ys pb (qc - 1) (qd - 1) True = (ys, qc', qd', sc')"
        using 1(3) True eq by (simp add: scan_down.simps [of cmp xs pb qc])
      note IH = 1(1) [OF True eq this layout_equal_down [OF 1(4) o(1) eq]]
      have "?ys ! i = xs ! i" if "i < qc - 1" for i using that o by (subst nth_swap) auto
      then show ?thesis using IH o by auto
    next
      case False
      have "scan_down cmp xs pb (qc - 1) qd sc = (ys, qc', qd', sc')"
        using 1(3) True False by (simp add: scan_down.simps [of cmp xs pb qc])
      from 1(2) [OF True False this layout_greater_down [OF 1(4) o(1)]] show ?thesis using True False by auto
    qed
  next
    case False
    then show ?thesis using 1(3,4) by (auto simp: scan_down.simps [of cmp xs pb qc] not_le)
  qed
qed


lemma scans_layout:
  assumes "scans cmp xs pa pb qc qd sc = (ys, pa', pb', qc', qd', sc')" and "layout cmp xs pa pb qc qd"
  shows "layout cmp ys pa' pb' qc' qd' \<and> mset ys = mset xs \<and>
     (pb' < qc' \<longrightarrow> Suc pb' < qc' \<and> 0 < cmp (ys ! pb') (ys ! 0) \<and> cmp (ys ! (qc' - 1)) (ys ! 0) < 0)"
proof -
  obtain zs s where u: "scan_up cmp xs pa pb qc sc = (zs, pa', pb', s)" and d: "scan_down cmp zs pb' qc qd s = (ys, qc', qd', sc')"
    using assms(1) by (auto simp: scans_def split: prod.splits)
  note U = scan_up_layout [OF u assms(2)]
  note D = scan_down_layout [OF d U [THEN conjunct1]]
  have "0 < cmp (ys ! pb') (ys ! 0)" if "pb' < qc'" using U D that by auto
  then show ?thesis using U D by (metis Suc_lessI diff_Suc_1 less_asym)
qed

lemma layout_exchange:
  assumes "layout cmp xs pa pb qc qd" and "Suc pb < qc" and "0 < cmp (xs ! pb) (xs ! 0)" and "cmp (xs ! (qc - 1)) (xs ! 0) < 0"
  shows "layout cmp (swap pb (qc - 1) xs) pa (pb + 1) (qc - 1) qd"
proof -
  have o: "0 < pa" "pa \<le> pb" "Suc pb < qc" "qc \<le> qd" "qd \<le> length xs"
    using assms(1,2) unfolding layout_def ordered_at_def by auto
  have n: "swap pb (qc - 1) xs ! k = (if k = pb then xs ! (qc - 1) else if k = qc - 1 then xs ! pb else xs ! k)"
    if "k < length xs" for k using o that by (intro nth_swap) auto
  have z: "swap pb (qc - 1) xs ! 0 = xs ! 0" using o by (subst n) auto
  have same: "swap pb (qc - 1) xs ! i = xs ! i" if "i < pb \<or> qc \<le> i" "i < length xs" for i
    using that n [of i] o by auto
  have "cmp (swap pb (qc - 1) xs ! i) (xs ! 0) < 0" if i: "pa \<le> i" "i < pb + 1" for i
    using assms(1,4) same [of i] n [of i] i o unfolding layout_def by (cases "i = pb") auto
  moreover have "cmp (swap pb (qc - 1) xs ! i) (xs ! 0) > 0" if i: "qc - 1 \<le> i" "i < qd" for i
    using assms(1,3) same [of i] n [of i] i o unfolding layout_def by (cases "i = qc - 1") auto
  ultimately show ?thesis using assms(1) o z same unfolding layout_def ordered_at_def by auto
qed

lemma partition_loop_layout:
  "partition_loop cmp xs pa pb qc qd sc = (ys, pa', pb', qc', qd', sc') \<Longrightarrow> layout cmp xs pa pb qc qd \<Longrightarrow>
     layout cmp ys pa' pb' qc' qd' \<and> mset ys = mset xs \<and> qc' = pb'"
proof (induction cmp xs pa pb qc qd sc rule: partition_loop.induct)
  case (1 cmp xs pa pb qc qd sc)
  obtain zs pa1 pb1 qc1 qd1 sc1 where s: "scans cmp xs pa pb qc qd sc = (zs, pa1, pb1, qc1, qd1, sc1)" by (metis prod.exhaust)
  note S = scans_layout [OF s 1(3)]
  show ?case
  proof (cases "pb1 \<ge> qc1")
    case True
    then have "ys = zs" "pa' = pa1" "pb' = pb1" "qc' = qc1" "qd' = qd1"
      using 1(2) s by (simp_all add: partition_loop.simps [of cmp xs])
    moreover have "pb1 \<le> qc1" using S unfolding layout_def ordered_at_def by simp
    ultimately show ?thesis using S True by simp
  next
    case False
    have r: "partition_loop cmp (swap pb1 (qc1 - 1) zs) pa1 (pb1 + 1) (qc1 - 1) qd1 True = (ys, pa', pb', qc', qd', sc')"
      using 1(2) s False by (simp add: partition_loop.simps [of cmp xs])
    have l: "layout cmp (swap pb1 (qc1 - 1) zs) pa1 (pb1 + 1) (qc1 - 1) qd1"
      by (rule layout_exchange) (use S False in auto)
    have "pb1 < length zs" "qc1 - 1 < length zs" using S False unfolding layout_def ordered_at_def by auto
    then show ?thesis using 1(1) [OF s [symmetric] refl refl refl refl False r l] S by auto
  qed
qed

lemma layout_start: "xs \<noteq> [] \<Longrightarrow> layout cmp xs 1 1 (length xs) (length xs)"
  by (auto simp: layout_def ordered_at_def Suc_le_eq)

definition qs_partition :: "nat \<Rightarrow> ('a \<Rightarrow> 'a \<Rightarrow> int) \<Rightarrow> 'a list \<Rightarrow> ('a list \<times> nat \<times> nat \<times> nat \<times> nat \<times> bool) option" where
  "qs_partition es cmp xs =
     map_option (\<lambda>pm. partition_loop cmp (swap 0 pm xs) 1 1 (length xs) (length xs) False) (pivot_index es cmp xs)"

lemma partition_layout:
  assumes "qs_partition es cmp xs = Some (ys, pa, pb, qc, qd, sc)" and "xs \<noteq> []"
  shows "layout cmp ys pa pb qc qd \<and> qc = pb \<and> length ys = length xs \<and>
    (\<exists>pm. pivot_index es cmp xs = Some pm \<and> mset ys = mset (swap 0 pm xs))"
proof -
  obtain pm where pm: "pivot_index es cmp xs = Some pm"
    and P: "partition_loop cmp (swap 0 pm xs) 1 1 (length xs) (length xs) False = (ys, pa, pb, qc, qd, sc)"
    using assms(1) by (auto simp: qs_partition_def)
  have "layout cmp (swap 0 pm xs) 1 1 (length xs) (length xs)"
    using layout_start [of "swap 0 pm xs" cmp] assms(2) by (metis length_0_conv length_swap)
  from partition_loop_layout [OF P this] pm show ?thesis by (metis length_swap size_mset)
qed

text \<open>
  The equal elements go from both ends to the middle, and the parts left and right of them are sorted in turn;
  without any exchange the partition is followed by an insertion sort.
\<close>

definition gather_equal :: "nat \<Rightarrow> 'a list \<Rightarrow> nat \<Rightarrow> nat \<Rightarrow> nat \<Rightarrow> nat \<Rightarrow> 'a list option" where
  "gather_equal es ys pa pb qc qd = do {
     r \<leftarrow> int_dist es (min pa (pb - pa));
     let ys = vecswap 0 (pb - r) r ys;
     r \<leftarrow> int_dist es (min (qd - qc) (length ys - qd));
     Some (vecswap pb (length ys - r) r ys)
   }"

lemma gather_equal_length: "gather_equal es ys pa pb qc qd = Some zs \<Longrightarrow> length zs = length ys"
  by (auto simp: gather_equal_def Let_def split: bind_splits)

lemma int_dist_Some: "int_dist es k = Some r \<Longrightarrow> r = k"
  by (simp add: int_dist_def split: if_splits)

text \<open>
  Elements of no bytes cannot be told apart (from seven of them on the code never leaves the partition), and an element
  size that is no \<open>int\<close> is cut by \<open>swapfunc\<close>; both are \<open>None\<close>.
\<close>

function qsort :: "nat \<Rightarrow> ('a \<Rightarrow> 'a \<Rightarrow> int) \<Rightarrow> 'a list \<Rightarrow> 'a list option" where
  "qsort es cmp xs =
     (let n = length xs in
      if es = 0 \<or> es \<ge> 2 ^ 31 then None
      else if n < 7 then Some (insertion_sort cmp xs)
      else (case qs_partition es cmp xs of
        None \<Rightarrow> None
      | Some (ys, pa, pb, qc, qd, sc) \<Rightarrow>
          if \<not> sc then Some (insertion_sort cmp ys)
          else (case gather_equal es ys pa pb qc qd of
            None \<Rightarrow> None
          | Some zs \<Rightarrow>
              (case int_dist es (pb - pa) of
                None \<Rightarrow> None
              | Some l \<Rightarrow>
                  (case (if l > 1 then qsort es cmp (take l zs) else Some (take l zs)) of
                    None \<Rightarrow> None
                  | Some left \<Rightarrow>
                      (case int_dist es (qd - qc) of
                        None \<Rightarrow> None
                      | Some r \<Rightarrow>
                          map_option (\<lambda>right. left @ take (n - r - l) (drop l zs) @ right)
                            (if r > 1 then qsort es cmp (drop (n - r) zs) else Some (drop (n - r) zs))))))))"
  by pat_completeness auto
termination
proof (relation "measure (\<lambda>(es, cmp, xs). length xs)", goal_cases)
  case 1
  then show ?case by simp
qed (auto dest!: partition_layout gather_equal_length int_dist_Some simp: layout_def ordered_at_def)

declare qsort.simps [simp del]

end
