(* ===== verification/Qsort_Correct.thy ===== *)
theory Qsort_Correct
  imports Qsort
begin

text \<open>
  \<open>qsort\<close> sorts: insertion, the layout of the partition, the gathering of the equal elements; and the exchange
  of bytes is the exchange of elements.
\<close>

section \<open>The sort is correct\<close>

definition comparator :: "('a \<Rightarrow> 'a \<Rightarrow> int) \<Rightarrow> bool" where
  "comparator cmp \<longleftrightarrow> (\<forall>x y. cmp x y < 0 \<longleftrightarrow> 0 < cmp y x) \<and> (\<forall>x y z. cmp x y \<le> 0 \<longrightarrow> cmp y z \<le> 0 \<longrightarrow> cmp x z \<le> 0)"

lemma comparatorD:
  assumes "comparator cmp"
  shows "cmp x y < 0 \<longleftrightarrow> 0 < cmp y x" and "cmp x y = 0 \<longleftrightarrow> cmp y x = 0" and "cmp x y \<le> 0 \<Longrightarrow> cmp y z \<le> 0 \<Longrightarrow> cmp x z \<le> 0"
    and "0 < cmp x y \<Longrightarrow> cmp y x \<le> 0"
proof -
  have f: "cmp x y < 0 \<longleftrightarrow> 0 < cmp y x" for x y using assms unfolding comparator_def by blast
  show "cmp x y < 0 \<longleftrightarrow> 0 < cmp y x" by (rule f)
  show "cmp x y = 0 \<longleftrightarrow> cmp y x = 0" using f [of x y] f [of y x] by linarith
  show "cmp x y \<le> 0 \<Longrightarrow> cmp y z \<le> 0 \<Longrightarrow> cmp x z \<le> 0" using assms unfolding comparator_def by blast
  show "0 < cmp x y \<Longrightarrow> cmp y x \<le> 0" using f [of y x] by linarith
qed

abbreviation sorted_by :: "('a \<Rightarrow> 'a \<Rightarrow> int) \<Rightarrow> 'a list \<Rightarrow> bool" where
  "sorted_by cmp \<equiv> sorted_wrt (\<lambda>x y. cmp x y \<le> 0)"

subsection \<open>Insertion\<close>

text \<open>All but element \<open>p\<close> of the first \<open>q + 1\<close> are in order, and it is not larger than those behind it.\<close>

definition hole_at :: "('a \<Rightarrow> 'a \<Rightarrow> int) \<Rightarrow> 'a list \<Rightarrow> nat \<Rightarrow> nat \<Rightarrow> bool" where
  "hole_at cmp xs p q \<longleftrightarrow> p \<le> q \<and> q < length xs \<and> (\<forall>i j. i < j \<and> j \<le> q \<and> i \<noteq> p \<and> j \<noteq> p \<longrightarrow> cmp (xs ! i) (xs ! j) \<le> 0) \<and>
     (\<forall>j. p < j \<and> j \<le> q \<longrightarrow> cmp (xs ! p) (xs ! j) \<le> 0)"

lemma hole_down:
  assumes "comparator cmp" and "hole_at cmp xs (Suc p) q" and "cmp (xs ! p) (xs ! Suc p) > 0"
  shows "hole_at cmp (swap (Suc p) p xs) p q"
proof -
  have q: "Suc p \<le> q" "q < length xs" using assms(2) unfolding hole_at_def by auto
  have n: "swap (Suc p) p xs ! k = (if k = Suc p then xs ! p else if k = p then xs ! Suc p else xs ! k)" if "k \<le> q" for k
    using q that by (intro nth_swap) auto
  have H: "cmp (xs ! i) (xs ! j) \<le> 0" if "i < j" "j \<le> q" "i \<noteq> Suc p" "j \<noteq> Suc p" for i j
    using assms(2) that unfolding hole_at_def by blast
  have "cmp (swap (Suc p) p xs ! i) (swap (Suc p) p xs ! j) \<le> 0" if "i < j" "j \<le> q" "i \<noteq> p" "j \<noteq> p" for i j
    using that n H [of i j] H [of p j] H [of i p] by auto
  moreover have "cmp (swap (Suc p) p xs ! p) (swap (Suc p) p xs ! j) \<le> 0" if "p < j" "j \<le> q" for j
    using that n q assms(2) comparatorD(4) [OF assms(1,3)] unfolding hole_at_def by auto
  ultimately show ?thesis using q unfolding hole_at_def by simp
qed

lemma insert_down_sorts:
  assumes "comparator cmp" and "hole_at cmp xs p q"
  shows "mset (insert_down cmp p xs) = mset xs \<and> (\<forall>i j. i < j \<and> j \<le> q \<longrightarrow> cmp (insert_down cmp p xs ! i) (insert_down cmp p xs ! j) \<le> 0)"
  using assms(2)
proof (induction p arbitrary: xs)
  case 0
  have "cmp (xs ! i) (xs ! j) \<le> 0" if "i < j" "j \<le> q" for i j
    using 0 that unfolding hole_at_def by (cases "i = 0") auto
  then show ?case by simp
next
  case (Suc p)
  show ?case
  proof (cases "cmp (xs ! p) (xs ! Suc p) > 0")
    case True
    have "Suc p < length xs" "p < length xs" using Suc.prems unfolding hole_at_def by auto
    then show ?thesis using Suc.IH [OF hole_down [OF assms(1) Suc.prems True]] True by simp
  next
    case False
    have "cmp (xs ! i) (xs ! Suc p) \<le> 0" if "i < Suc p" for i
    proof (cases "i = p")
      case False
      then have "cmp (xs ! i) (xs ! p) \<le> 0" using that Suc.prems unfolding hole_at_def by auto
      then show ?thesis using comparatorD(3) [OF assms(1)] \<open>\<not> cmp (xs ! p) (xs ! Suc p) > 0\<close> by (meson not_less)
    qed (use \<open>\<not> cmp (xs ! p) (xs ! Suc p) > 0\<close> in simp)
    then show ?thesis using False Suc.prems unfolding hole_at_def by auto
  qed
qed

lemma length_insert_down [simp]: "length (insert_down cmp p xs) = length xs"
  by (induction p arbitrary: xs) simp_all

lemma insertion_sort_sorts:
  assumes "comparator cmp"
  shows "mset (insertion_sort cmp xs) = mset xs \<and> sorted_by cmp (insertion_sort cmp xs)"
proof -
  have "k \<le> length xs \<Longrightarrow> length (fold (insert_down cmp) [1..<k] xs) = length xs \<and> mset (fold (insert_down cmp) [1..<k] xs) = mset xs \<and>
     (\<forall>i j. i < j \<and> j < k \<longrightarrow> cmp (fold (insert_down cmp) [1..<k] xs ! i) (fold (insert_down cmp) [1..<k] xs ! j) \<le> 0)" for k
  proof (induction k)
    case (Suc k)
    let ?ys = "fold (insert_down cmp) [1..<k] xs"
    show ?case
    proof (cases "1 \<le> k")
      case True
      have "hole_at cmp ?ys k k" using Suc unfolding hole_at_def by auto
      then show ?thesis using insert_down_sorts [OF assms, of ?ys k k] Suc True by (auto simp: less_Suc_eq_le)
    qed (use Suc in auto)
  qed simp
  from this [of "length xs"] show ?thesis by (simp add: insertion_sort_def sorted_wrt_iff_nth_less)
qed

subsection \<open>Moving the equal elements\<close>

lemma nth_vecswap:
  "a + r \<le> b \<Longrightarrow> b + r \<le> length xs \<Longrightarrow> k < length xs \<Longrightarrow>
     vecswap a b r xs ! k = (if a \<le> k \<and> k < a + r then xs ! (b + (k - a)) else if b \<le> k \<and> k < b + r then xs ! (a + (k - b)) else xs ! k)"
proof (induction r arbitrary: a b xs)
  case (Suc r)
  have s: "swap a b xs ! j = (if j = a then xs ! b else if j = b then xs ! a else xs ! j)" if "j < length xs" for j
    using Suc.prems that by (intro nth_swap) auto
  have e: "vecswap a b (Suc r) xs ! k = (if Suc a \<le> k \<and> k < Suc a + r then swap a b xs ! (Suc b + (k - Suc a))
      else if Suc b \<le> k \<and> k < Suc b + r then swap a b xs ! (Suc a + (k - Suc b)) else swap a b xs ! k)"
    using Suc.IH [of "Suc a" "Suc b" "swap a b xs"] Suc.prems by simp
  consider "k = a" | "Suc a \<le> k" "k < Suc a + r" | "k = b" | "Suc b \<le> k" "k < Suc b + r" | "k < a \<or> Suc a + r \<le> k" "k < b \<or> Suc b + r \<le> k"
    using Suc.prems(1) by linarith
  then show ?case
  proof cases
    case 2
    then have "Suc b + (k - Suc a) = b + (k - a)" by simp
    then show ?thesis using e s [of "b + (k - a)"] 2 Suc.prems by (auto simp del: vecswap.simps)
  next
    case 4
    then have "Suc a + (k - Suc b) = a + (k - b)" by simp
    then show ?thesis using e s [of "a + (k - b)"] 4 Suc.prems by (auto simp del: vecswap.simps)
  qed (use e s [of k] Suc.prems in \<open>auto simp del: vecswap.simps\<close>)
qed auto

lemma mset_vecswap: "a + r \<le> length xs \<Longrightarrow> b + r \<le> length xs \<Longrightarrow> mset (vecswap a b r xs) = mset xs"
  by (induction r arbitrary: a b xs) simp_all


text \<open>Exchanging as many elements as the shorter of two neighbouring blocks has exchanges the blocks, up to order.\<close>

lemma block_exchange:
  assumes "b \<le> p" and "p \<le> q" and "q \<le> length xs" and "r = min (p - b) (q - p)" and "zs = vecswap b (q - r) r xs"
  shows "(b \<le> i \<and> i < b + (q - p) \<longrightarrow> (\<exists>j. p \<le> j \<and> j < q \<and> zs ! i = xs ! j)) \<and>
     (b + (q - p) \<le> i \<and> i < q \<longrightarrow> (\<exists>j. b \<le> j \<and> j < p \<and> zs ! i = xs ! j)) \<and>
     ((i < b \<or> q \<le> i) \<and> i < length xs \<longrightarrow> zs ! i = xs ! i)"
proof (cases "i < length xs")
  case True
  have "b + r \<le> q - r" "q - r + r \<le> length xs" using assms(1-4) by linarith+
  then have z: "zs ! i = (if b \<le> i \<and> i < b + r then xs ! (q - r + (i - b)) else if q - r \<le> i \<and> i < q - r + r then xs ! (b + (i - (q - r))) else xs ! i)"
    unfolding assms(5) by (rule nth_vecswap) (rule True)
  have r: "r = p - b \<and> p - b \<le> q - p \<or> r = q - p \<and> q - p \<le> p - b" using assms(4) by linarith
  show ?thesis
  proof (intro conjI impI; elim conjE)
    assume i: "b \<le> i" "i < b + (q - p)"
    show "\<exists>j. p \<le> j \<and> j < q \<and> zs ! i = xs ! j"
    proof (cases "i < b + r")
      case True
      have "p \<le> q - r + (i - b)" "q - r + (i - b) < q" using True i r assms(1,2) by linarith+
      moreover have "zs ! i = xs ! (q - r + (i - b))" using z True i by simp
      ultimately show ?thesis by blast
    next
      case False
      have "p \<le> i" "i < q" "i < q - r" using False i r assms(1,2) by linarith+
      moreover from this have "zs ! i = xs ! i" using z False by simp
      ultimately show ?thesis by blast
    qed
  next
    assume i: "b + (q - p) \<le> i" "i < q"
    show "\<exists>j. b \<le> j \<and> j < p \<and> zs ! i = xs ! j"
    proof (cases "q - r \<le> i")
      case True
      have "b + (i - (q - r)) < p" "\<not> i < b + r" "i < q - r + r" using True i r assms(1,2) by linarith+
      moreover from this have "zs ! i = xs ! (b + (i - (q - r)))" using z True i(2) by simp
      ultimately show ?thesis by (metis le_add1)
    next
      case False
      have "b \<le> i" "i < p" "\<not> i < b + r" using False i r assms(1,2) by linarith+
      moreover from this have "zs ! i = xs ! i" using z False by simp
      ultimately show ?thesis by blast
    qed
  next
    assume "i < b \<or> q \<le> i"
    then show "zs ! i = xs ! i" using z assms(1,2,4) by auto
  qed
qed (use assms in auto)

lemma gather_equal_parts:
  assumes "layout cmp ys pa pb qc qd" and "qc = pb" and "gather_equal es ys pa pb qc qd = Some zs"
  shows "mset zs = mset ys" and "i < pb - pa \<Longrightarrow> cmp (zs ! i) (ys ! 0) < 0"
    and "length ys - (qd - qc) \<le> i \<Longrightarrow> i < length ys \<Longrightarrow> 0 < cmp (zs ! i) (ys ! 0)"
    and "pb - pa \<le> i \<Longrightarrow> i < length ys - (qd - qc) \<Longrightarrow> zs ! i = ys ! 0 \<or> cmp (zs ! i) (ys ! 0) = 0"
proof -
  let ?n = "length ys" and ?r = "min pa (pb - pa)" and ?r2 = "min (qd - pb) (length ys - qd)"
  have o: "0 < pa" "pa \<le> pb" "pb \<le> qd" "qd \<le> ?n" using assms(1,2) unfolding layout_def ordered_at_def by auto
  define ws where "ws = vecswap 0 (pb - ?r) ?r ys"
  have lw: "length ws = ?n" by (simp add: ws_def)
  have z: "zs = vecswap pb (?n - ?r2) ?r2 ws" using assms(2,3) by (auto simp: gather_equal_def ws_def Let_def int_dist_def split: if_splits)
  show "mset zs = mset ys" unfolding z ws_def using o by (simp add: mset_vecswap)
  note B1 = block_exchange [of 0 pa pb ys, OF _ o(2) _ _ ws_def]
  have b1: "i < pb - pa \<Longrightarrow> \<exists>j. pa \<le> j \<and> j < pb \<and> ws ! i = ys ! j" "pb - pa \<le> i \<Longrightarrow> i < pb \<Longrightarrow> \<exists>j < pa. ws ! i = ys ! j"
    "pb \<le> i \<Longrightarrow> i < ?n \<Longrightarrow> ws ! i = ys ! i" for i
    using B1 [of i] o by auto
  note B2 = block_exchange [of pb qd ?n ws, OF o(3,4) _ _ z]
  have b2: "i < pb \<Longrightarrow> zs ! i = ws ! i" "pb \<le> i \<Longrightarrow> i < ?n - (qd - pb) \<Longrightarrow> \<exists>j. qd \<le> j \<and> j < ?n \<and> zs ! i = ws ! j"
    "?n - (qd - pb) \<le> i \<Longrightarrow> i < ?n \<Longrightarrow> \<exists>j. pb \<le> j \<and> j < qd \<and> zs ! i = ws ! j" for i
    using B2 [of i] o lw by auto
  show "cmp (zs ! i) (ys ! 0) < 0" if "i < pb - pa"
    using b1(1) [of i] b2(1) [of i] that assms(1) unfolding layout_def by auto
  show "0 < cmp (zs ! i) (ys ! 0)" if i: "?n - (qd - qc) \<le> i" "i < ?n"
  proof -
    obtain j where "pb \<le> j" "j < qd" "zs ! i = ws ! j" using b2(3) [of i] i unfolding assms(2) by blast
    then show ?thesis using b1(3) [of j] o assms(1,2) unfolding layout_def by auto
  qed
  show "zs ! i = ys ! 0 \<or> cmp (zs ! i) (ys ! 0) = 0" if i: "pb - pa \<le> i" "i < ?n - (qd - qc)"
  proof (cases "i < pb")
    case True
    then obtain j where "j < pa" "zs ! i = ys ! j" using b1(2) [of i] b2(1) [of i] i by auto
    then show ?thesis using assms(1) unfolding layout_def by (cases "j = 0") auto
  next
    case False
    then obtain j where "qd \<le> j" "j < ?n" "zs ! i = ws ! j" using b2(2) [of i] i unfolding assms(2) by (meson not_less)
    then show ?thesis using b1(3) [of j] o assms(1) unfolding layout_def by auto
  qed
qed


subsection \<open>The whole sort\<close>

lemma sorted_parts:
  assumes "comparator cmp" and "sorted_by cmp L" and "sorted_by cmp R" and "\<And>x. x \<in> set L \<Longrightarrow> cmp x v < 0"
    and "\<And>x. x \<in> set R \<Longrightarrow> 0 < cmp x v" and "\<And>x. x \<in> set M \<Longrightarrow> cmp x v = 0"
  shows "sorted_by cmp (L @ M @ R)"
proof -
  note t = comparatorD(3) [OF assms(1), of _ v]
  have lv: "cmp x v \<le> 0" if "x \<in> set L \<union> set M" for x using that assms(4,6) by (auto intro: less_imp_le)
  have vr: "cmp v x \<le> 0" if "x \<in> set M \<union> set R" for x
    using that assms(5,6) comparatorD(2,4) [OF assms(1)] by (metis UnE order_refl)
  have M: "sorted_by cmp M" using t lv vr by (auto simp: sorted_wrt_iff_nth_less)
  show ?thesis using assms(2,3) M t lv vr by (auto simp: sorted_wrt_append)
qed

lemma med3_bounds: "a < length xs \<Longrightarrow> b < length xs \<Longrightarrow> c < length xs \<Longrightarrow> med3 cmp xs a b c < length xs"
  by (simp add: med3_def)

lemma pivot_index_bounds: "0 < length xs \<Longrightarrow> pivot_index es cmp xs = Some pm \<Longrightarrow> pm < length xs"
  by (auto simp: pivot_index_def Let_def int_dist_def intro!: med3_bounds split: if_splits bind_splits) linarith+

text \<open>An array of less than \<open>2 ^ 31\<close> bytes has no distance that is not an \<open>int\<close>.\<close>

lemma int_dist_fits: "n * es < 2 ^ 31 \<Longrightarrow> k \<le> n \<Longrightarrow> int_dist es k = Some k"
  using order_le_less_trans [OF mult_le_mono1 [of k n es]] by (simp add: int_dist_def)

lemma qs_partition_fits:
  assumes "length xs * es < 2 ^ 31"
  obtains p where "qs_partition es cmp xs = Some p"
proof -
  have "2 * (length xs div 8) \<le> length xs" by linarith
  then have "\<exists>pm. pivot_index es cmp xs = Some pm"
    using int_dist_fits [OF assms, of "length xs div 8"] int_dist_fits [OF assms, of "2 * (length xs div 8)"]
    by (simp add: pivot_index_def Let_def)
  then obtain pm where "pivot_index es cmp xs = Some pm" ..
  then show thesis by (intro that) (simp add: qs_partition_def)
qed

lemma gather_equal_fits:
  assumes "length ys * es < 2 ^ 31" "pb \<le> length ys"
  obtains zs where "gather_equal es ys pa pb qc qd = Some zs"
  using int_dist_fits [OF assms(1), of "min pa (pb - pa)"] int_dist_fits [OF assms(1), of "min (qd - qc) (length ys - qd)"] assms(2)
  by (auto simp: gather_equal_def Let_def)

lemma three_parts: "l + r \<le> length zs \<Longrightarrow> zs = take l zs @ take (length zs - r - l) (drop l zs) @ drop (length zs - r) zs"
  by (metis (no_types, lifting) append_take_drop_id drop_drop le_add_diff_inverse2 diff_le_self add_le_imp_le_diff le_add_diff_inverse)

lemma sorted_short: "length xs \<le> 1 \<Longrightarrow> sorted_by cmp xs"
  by (cases xs) auto

text \<open>Sorting the parts of the gathered list sorts the list.\<close>

lemma sort_around:
  assumes C: "comparator cmp" and L: "layout cmp ys pa pb qc qd" "qc = pb" and z: "gather_equal es ys pa pb qc qd = Some zs"
    and l: "mset l = mset (take (pb - pa) zs) \<and> sorted_by cmp l" and r: "mset r = mset (drop (length ys - (qd - qc)) zs) \<and> sorted_by cmp r"
  shows "mset (l @ take (length ys - (qd - qc) - (pb - pa)) (drop (pb - pa) zs) @ r) = mset ys \<and>
     sorted_by cmp (l @ take (length ys - (qd - qc) - (pb - pa)) (drop (pb - pa) zs) @ r)"
proof -
  let ?M = "take (length ys - (qd - qc) - (pb - pa)) (drop (pb - pa) zs)"
  note G = gather_equal_parts [OF L z]
  have n: "length zs = length ys" using gather_equal_length [OF z] .
  have le: "(pb - pa) + (qd - qc) \<le> length zs" using L n unfolding layout_def ordered_at_def by linarith
  have "mset (l @ ?M @ r) = mset zs" using l r arg_cong [OF three_parts [OF le], of mset] n by simp
  moreover have "cmp x (ys ! 0) < 0" if "x \<in> set l" for x
    using that l [THEN conjunct1, THEN mset_eq_setD] G(2) by (auto simp: in_set_conv_nth)
  moreover have "0 < cmp x (ys ! 0)" if "x \<in> set r" for x
    using that r [THEN conjunct1, THEN mset_eq_setD] G(3) n by (auto simp: in_set_conv_nth)
  moreover have "cmp x (ys ! 0) = 0" if x: "x \<in> set ?M" for x
  proof -
    obtain i where "i < length ys - (qd - qc) - (pb - pa)" "x = zs ! (pb - pa + i)" using x n by (auto simp: in_set_conv_nth)
    then have "x = ys ! 0 \<or> cmp x (ys ! 0) = 0" using G(4) [of "pb - pa + i"] by simp
    then show ?thesis using comparatorD(1) [OF C, of x x] by auto
  qed
  ultimately show ?thesis using G(1) sorted_parts [OF C, of l r "ys ! 0" ?M] l r by simp
qed

lemma qsort_part:
  assumes "\<And>ys. length ys < n \<Longrightarrow> length ys * es < 2 ^ 31 \<Longrightarrow>
      \<exists>ws. qsort es cmp ys = Some ws \<and> mset ws = mset ys \<and> sorted_by cmp ws"
    and "length zs = k" and "k < n" and "k * es < 2 ^ 31"
  obtains ws where "(if k > 1 then qsort es cmp zs else Some zs) = Some ws" "mset ws = mset zs \<and> sorted_by cmp ws"
  using assms(1) [of zs] assms(2-4) sorted_short [of zs cmp] by (cases "k > 1") auto

text \<open>
  C28. On an array of less than \<open>2 ^ 31\<close> bytes \<open>qsort\<close> ends, keeps every distance it computes inside its \<open>int\<close>, and with a
  comparison that is a total preorder its result is a rearrangement of the array in which no element is larger than a
  later one.
\<close>

theorem qsort_sorts:
  assumes "comparator cmp" and "0 < es" and "es < 2 ^ 31" and "length xs * es < 2 ^ 31"
  shows "\<exists>ys. qsort es cmp xs = Some ys \<and> mset ys = mset xs \<and> sorted_by cmp ys"
  using assms(4)
proof (induction "length xs" arbitrary: xs rule: less_induct)
  case less
  note C = assms(1) and es = assms(2,3) and fits = less.prems and part = qsort_part [OF less.hyps]
  show ?case
  proof (cases "length xs < 7")
    case True
    then show ?thesis using insertion_sort_sorts [OF C] es by (simp add: qsort.simps [of es cmp xs])
  next
    case big: False
    obtain ys pa pb qc qd sc where P: "qs_partition es cmp xs = Some (ys, pa, pb, qc, qd, sc)"
      using qs_partition_fits [OF fits] by (metis prod.exhaust)
    have ne: "xs \<noteq> []" using big by auto
    have L: "layout cmp ys pa pb qc qd" "qc = pb" "length ys = length xs" "mset ys = mset xs"
      using partition_layout [OF P ne] pivot_index_bounds [of xs es cmp] ne by auto
    have o: "0 < pa" "pa \<le> pb" "qc \<le> qd" "pb \<le> qd" "qd \<le> length xs" using L unfolding layout_def ordered_at_def by auto
    show ?thesis
    proof (cases sc)
      case False
      then show ?thesis using insertion_sort_sorts [OF C, of ys] big P L es by (simp add: qsort.simps [of es cmp xs])
    next
      case True
      obtain zs where G: "gather_equal es ys pa pb qc qd = Some zs"
        using gather_equal_fits [of ys es pb pa qc qd] fits L(3) o by (metis order_trans)
      have lz: "length zs = length xs" using gather_equal_length [OF G] L(3) by simp
      let ?l = "pb - pa" and ?r = "qd - qc"
      have d: "int_dist es ?l = Some ?l" "int_dist es ?r = Some ?r" using int_dist_fits [OF fits] o by auto
      then have small: "?l * es < 2 ^ 31" "?r * es < 2 ^ 31" by (auto simp: int_dist_def split: if_splits)
      obtain left where left: "(if ?l > 1 then qsort es cmp (take ?l zs) else Some (take ?l zs)) = Some left"
        "mset left = mset (take ?l zs) \<and> sorted_by cmp left"
        by (rule part [where zs = "take ?l zs" and k = ?l]) (use lz o small(1) in auto)
      obtain right where right: "(if ?r > 1 then qsort es cmp (drop (length xs - ?r) zs) else Some (drop (length xs - ?r) zs)) = Some right"
        "mset right = mset (drop (length ys - ?r) zs) \<and> sorted_by cmp right"
        by (rule part [where zs = "drop (length xs - ?r) zs" and k = ?r]) (use lz o small(2) L(2,3) in auto)
      have "qsort es cmp xs = Some (left @ take (length ys - ?r - ?l) (drop ?l zs) @ right)"
        using big P True G d left(1) right(1) es L(3) by (subst qsort.simps) (simp add: Let_def)
      then show ?thesis using sort_around [OF C L(1,2) G left(2) right(2)] L(4) by simp
    qed
  qed
qed

theorem qsort_sorts_witness:
  "\<exists>ys. qsort 4 (\<lambda>x y. x - y) [5, 2, 9, 1, 7, 2, 8, 4, 6 :: int] = Some ys \<and> mset ys = mset [5, 2, 9, 1, 7, 2, 8, 4, 6] \<and>
     sorted_by (\<lambda>x y. x - y) ys"
  by (rule qsort_sorts) (auto simp: comparator_def)

section \<open>The exchange of bytes\<close>

definition exchanged :: "memory \<Rightarrow> addr \<Rightarrow> addr \<Rightarrow> nat \<Rightarrow> memory" where
  "exchanged m a b n x =
     (if offset a x < n then m (b + of_nat (offset a x)) else if offset b x < n then m (a + of_nat (offset b x)) else m x)"

lemma apart_not_both: "apart a n b n \<Longrightarrow> offset a x < n \<Longrightarrow> offset b x < n \<Longrightarrow> False"
  unfolding apart_def using add_offset by metis

lemma exchange_writes:
  assumes "apart a n b n" and "n \<le> 2 ^ 64"
  shows "write_bytes (write_bytes m a (read_bytes m b n)) b (read_bytes m a n) = exchanged m a b n"
proof
  fix x
  show "write_bytes (write_bytes m a (read_bytes m b n)) b (read_bytes m a n) x = exchanged m a b n x"
    using apart_not_both [OF assms(1), of x] assms(2) by (auto simp: exchanged_def write_bytes_apply nth_read_bytes)
qed

lemma offset_advance_iff:
  assumes "u + n \<le> 2 ^ 64"
  shows "offset (p + of_nat u) x < n \<longleftrightarrow> u \<le> offset p x \<and> offset p x < u + n"
proof
  assume a: "offset (p + of_nat u) x < n"
  have "offset p (p + of_nat u) = u" using a assms by (intro offset_add_nat) simp
  then have "offset p x = u + offset (p + of_nat u) x" using offset_trans [of p "p + of_nat u" x] a assms by simp
  then show "u \<le> offset p x \<and> offset p x < u + n" using a by simp
next
  assume "u \<le> offset p x \<and> offset p x < u + n"
  then show "offset (p + of_nat u) x < n" using offset_advance [of u p x] by auto
qed

lemma exchanged_more:
  assumes "apart a (u + n) b (u + n)" and "u + n \<le> 2 ^ 64"
  shows "exchanged (exchanged m a b u) (a + of_nat u) (b + of_nat u) n = exchanged m a b (u + n)"
proof
  fix x
  note adv = offset_advance_iff [OF assms(2), of _ x]
  have e: "exchanged m a b u (p + of_nat (offset q x)) = m (p + of_nat (offset q x))"
    if "p = a \<and> q = b \<or> p = b \<and> q = a" "u \<le> offset q x" "offset q x < u + n" for p q
  proof -
    have "offset p (p + of_nat (offset q x)) = offset q x" using that(3) assms(2) by (intro offset_add_nat) simp
    moreover have "u + n \<le> offset q (p + of_nat (offset q x))"
      using apart_offset [OF _ that(3)] assms(1) that(1) apart_sym by blast
    ultimately show ?thesis using that by (auto simp: exchanged_def)
  qed
  consider "u \<le> offset a x" "offset a x < u + n" | "u \<le> offset b x" "offset b x < u + n" | "offset a x < u \<or> u + n \<le> offset a x" "offset b x < u \<or> u + n \<le> offset b x"
    by linarith
  then show "exchanged (exchanged m a b u) (a + of_nat u) (b + of_nat u) n x = exchanged m a b (u + n) x"
  proof cases
    case 1
    then have "b + of_nat u + of_nat (offset a x - u) = b + of_nat (offset a x)" by (simp add: add.assoc flip: of_nat_add)
    moreover have "offset a x - u < n" using 1 by linarith
    ultimately show ?thesis using 1 e [of b a] adv offset_advance [of u a x] by (simp add: exchanged_def [of "exchanged m a b u"] exchanged_def [of m a b "u + n"])
  next
    case 2
    then have "\<not> offset a x < u + n" using apart_not_both [OF assms(1), of x] by blast
    moreover have "a + of_nat u + of_nat (offset b x - u) = a + of_nat (offset b x)" using 2 by (simp add: add.assoc flip: of_nat_add)
    moreover have "offset b x - u < n" using 2 by linarith
    ultimately show ?thesis using 2 e [of a b] adv offset_advance [of u b x] by (simp add: exchanged_def [of "exchanged m a b u"] exchanged_def [of m a b "u + n"])
  next
    case 3
    then have "\<not> offset (a + of_nat u) x < n" "\<not> offset (b + of_nat u) x < n" unfolding adv by auto
    then have "exchanged (exchanged m a b u) (a + of_nat u) (b + of_nat u) n x = exchanged m a b u x"
      by (simp add: exchanged_def [of "exchanged m a b u"])
    also have "\<dots> = exchanged m a b (u + n) x" using 3 unfolding exchanged_def by auto
    finally show ?thesis .
  qed
qed

lemma swap_units_exchange:
  "apart a (u * k) b (u * k) \<Longrightarrow> u * k \<le> 2 ^ 64 \<Longrightarrow> swap_units u k a b m = exchanged m a b (u * k)"
proof (induction k arbitrary: a b m)
  case 0
  then show ?case by (simp add: exchanged_def fun_eq_iff)
next
  case (Suc k)
  have s: "apart a u b u" "apart (a + of_nat u) (u * k) (b + of_nat u) (u * k)"
    using apart_sub [OF Suc.prems(1), of 0 u 0 u] apart_sub [OF Suc.prems(1), of u "u * k" u "u * k"] by simp_all
  have "swap_units u (Suc k) a b m = swap_units u k (a + of_nat u) (b + of_nat u) (exchanged m a b u)"
    using exchange_writes [OF s(1)] Suc.prems(2) by (simp add: Let_def)
  also have "\<dots> = exchanged (exchanged m a b u) (a + of_nat u) (b + of_nat u) (u * k)"
    using Suc.IH [OF s(2)] Suc.prems(2) by simp
  also have "\<dots> = exchanged m a b (u + u * k)" using exchanged_more Suc.prems by simp
  finally show ?case by simp
qed

lemma u64_div_of_nat: "n < 2 ^ 31 \<Longrightarrow> u < 2 ^ 31 \<Longrightarrow> (of_nat n :: 64 word) div of_nat u = of_nat (n div u)"
  using div_le_dividend [of n u] by (simp add: word_arith_nat_div unat_of_nat)

lemma swapcode_int:
  assumes "n < 2 ^ 31" "0 < u" "u < 2 ^ 31"
  shows "swapcode u a b (of_nat n) m = swap_units u (max 1 (n div u)) a b m"
proof -
  have q: "n div u < 2 ^ 31" using div_le_dividend [of n u] assms(1) by linarith
  have "sint (of_nat n :: 32 word) = int n" using assms(1) by (simp add: signed_of_nat signed_take_bit_int_eq_self)
  then have "scast (of_nat n :: 32 word) = (of_nat n :: 64 word)" by (simp add: scast_eq)
  moreover have "(of_nat n :: 64 word) div of_nat u = of_nat (n div u)"
    by (metis (no_types) assms u64_div_of_nat)
  moreover have "sint (of_nat (n div u) :: 64 word) = int (n div u)"
    using q by (simp add: signed_of_nat signed_take_bit_int_eq_self)
  ultimately show ?thesis by (simp add: swapcode_def)
qed

text \<open>
  C37. The exchange of two elements of \<open>es\<close> bytes, less than \<open>2 ^ 31\<close>, that do not overlap, by one word, by words or by
  bytes as \<open>SWAPINIT\<close> picks from the alignment of the array and the element size, exchanges the bytes of the two
  elements and touches no other.
\<close>

theorem swap_bytes_exchanges:
  assumes "apart a es b es" and "0 < es" and "es < 2 ^ 31"
  shows "swap_bytes a b es (SWAPINIT base es) m = exchanged m a b es"
proof -
  have c: "swapcode 8 a b (of_nat es) m = swap_units 8 (max 1 (es div 8)) a b m" "swapcode 1 a b (of_nat es) m = swap_units 1 (max 1 es) a b m"
    using swapcode_int [OF assms(3), of 8] swapcode_int [OF assms(3), of 1] by simp_all
  have "es div 8 * 8 = es" if "es mod 8 = 0" using that by auto
  moreover have "0 < es div 8" if "es mod 8 = 0" using that assms(2) by auto
  ultimately show ?thesis
    using swap_units_exchange [of a 8 "es div 8" b m] swap_units_exchange [of a 1 es b m] exchange_writes [of a 8 b m] assms
    by (auto simp: swap_bytes_def SWAPINIT_def swapfunc_def c [simplified] c Let_def mult.commute max_def)
qed

theorem swap_bytes_exchanges_witness:
  "swap_bytes 0x1000 0x1010 16 (SWAPINIT 0x1000 16) (write_bytes (\<lambda>_. 0) 0x1000 [1, 2, 3]) 0x1012 = 3"
proof -
  have "apart 0x1000 16 0x1010 16" by (rule apartI) (simp_all add: offset_def)
  then have "swap_bytes 0x1000 0x1010 16 (SWAPINIT 0x1000 16) (write_bytes (\<lambda>_. 0) 0x1000 [1, 2, 3]) =
      exchanged (write_bytes (\<lambda>_. 0) 0x1000 [1, 2, 3]) 0x1000 0x1010 16"
    by (rule swap_bytes_exchanges) simp_all
  moreover have "exchanged (write_bytes (\<lambda>_. 0) 0x1000 [1, 2, 3]) 0x1000 0x1010 16 0x1012 = 3" by code_simp
  ultimately show ?thesis by simp
qed

end
