(* ===== verification/Sha256.thy ===== *)
theory Sha256
  imports Prelude
begin

text \<open>
  \<open>sha256.c\<close>: the context, the transform of one block, and the streaming interface. The buffer of the context is a
  list of 64 bytes and the state one of eight words; \<open>sha256_update\<close> counts in 32 bits, so that its loop is a partial
  function. The specification hashes the padded message block by block.
\<close>

type_synonym hash_state = "u32 list"

record SHA256_CTX =
  ctx_data :: "byte list"
  datalen :: nat
  bitlen :: u64
  ctx_state :: hash_state

section \<open>The transform\<close>

definition ROTRIGHT :: "u32 \<Rightarrow> nat \<Rightarrow> u32" where
  "ROTRIGHT a b = drop_bit b a OR push_bit (32 - b) a"

definition CH :: "u32 \<Rightarrow> u32 \<Rightarrow> u32 \<Rightarrow> u32" where
  "CH x y z = (x AND y) XOR (NOT x AND z)"

definition MAJ :: "u32 \<Rightarrow> u32 \<Rightarrow> u32 \<Rightarrow> u32" where
  "MAJ x y z = (x AND y) XOR (x AND z) XOR (y AND z)"

definition EP0 :: "u32 \<Rightarrow> u32" where
  "EP0 x = ROTRIGHT x 2 XOR ROTRIGHT x 13 XOR ROTRIGHT x 22"

definition EP1 :: "u32 \<Rightarrow> u32" where
  "EP1 x = ROTRIGHT x 6 XOR ROTRIGHT x 11 XOR ROTRIGHT x 25"

definition SIG0 :: "u32 \<Rightarrow> u32" where
  "SIG0 x = ROTRIGHT x 7 XOR ROTRIGHT x 18 XOR drop_bit 3 x"

definition SIG1 :: "u32 \<Rightarrow> u32" where
  "SIG1 x = ROTRIGHT x 17 XOR ROTRIGHT x 19 XOR drop_bit 10 x"

text \<open>The constants, in the eight rows of the source.\<close>

definition sha_k :: "u32 list" where
  "sha_k = concat
    [[0x428a2f98, 0x71374491, 0xb5c0fbcf, 0xe9b5dba5, 0x3956c25b, 0x59f111f1, 0x923f82a4, 0xab1c5ed5],
     [0xd807aa98, 0x12835b01, 0x243185be, 0x550c7dc3, 0x72be5d74, 0x80deb1fe, 0x9bdc06a7, 0xc19bf174],
     [0xe49b69c1, 0xefbe4786, 0x0fc19dc6, 0x240ca1cc, 0x2de92c6f, 0x4a7484aa, 0x5cb0a9dc, 0x76f988da],
     [0x983e5152, 0xa831c66d, 0xb00327c8, 0xbf597fc7, 0xc6e00bf3, 0xd5a79147, 0x06ca6351, 0x14292967],
     [0x27b70a85, 0x2e1b2138, 0x4d2c6dfc, 0x53380d13, 0x650a7354, 0x766a0abb, 0x81c2c92e, 0x92722c85],
     [0xa2bfe8a1, 0xa81a664b, 0xc24b8b70, 0xc76c51a3, 0xd192e819, 0xd6990624, 0xf40e3585, 0x106aa070],
     [0x19a4c116, 0x1e376c08, 0x2748774c, 0x34b0bcb5, 0x391c0cb3, 0x4ed8aa4a, 0x5b9cca4f, 0x682e6ff3],
     [0x748f82ee, 0x78a5636f, 0x84c87814, 0x8cc70208, 0x90befffa, 0xa4506ceb, 0xbef9a3f7, 0xc67178f2]]"

definition be_word :: "byte list \<Rightarrow> nat \<Rightarrow> u32" where
  "be_word data j = push_bit 24 (ucast (data ! j)) OR push_bit 16 (ucast (data ! (j + 1))) OR
     push_bit 8 (ucast (data ! (j + 2))) OR ucast (data ! (j + 3))"

text \<open>The message schedule: sixteen words of the block, and each further one from four before it.\<close>

definition sha_extend :: "u32 list \<Rightarrow> u32 list" where
  "sha_extend m =
     (let i = length m in m @ [SIG1 (m ! (i - 2)) + m ! (i - 7) + SIG0 (m ! (i - 15)) + m ! (i - 16)])"

definition sha_schedule :: "byte list \<Rightarrow> u32 list" where
  "sha_schedule data = (sha_extend ^^ 48) (map (\<lambda>i. be_word data (4 * i)) [0..<16])"

fun sha_round :: "u32 \<times> u32 \<Rightarrow> hash_state \<Rightarrow> hash_state" where
  "sha_round (ki, mi) [a, b, c, d, e, f, g, h] =
     (let t1 = h + EP1 e + CH e f g + ki + mi; t2 = EP0 a + MAJ a b c
      in [t1 + t2, a, b, c, d + t1, e, f, g])"
| "sha_round _ st = st"

definition sha256_block :: "byte list \<Rightarrow> hash_state \<Rightarrow> hash_state" where
  "sha256_block data st = map2 (+) st (fold sha_round (zip sha_k (sha_schedule data)) st)"

definition sha256_transform :: "byte list \<Rightarrow> SHA256_CTX \<Rightarrow> SHA256_CTX" where
  "sha256_transform data ctx = ctx\<lparr>ctx_state := sha256_block data (ctx_state ctx)\<rparr>"

section \<open>The streaming interface\<close>

definition sha_h0 :: hash_state where
  "sha_h0 = [0x6a09e667, 0xbb67ae85, 0x3c6ef372, 0xa54ff53a, 0x510e527f, 0x9b05688c, 0x1f83d9ab, 0x5be0cd19]"

definition sha256_init :: "SHA256_CTX \<Rightarrow> SHA256_CTX" where
  "sha256_init ctx = ctx\<lparr>datalen := 0, bitlen := 0, ctx_state := sha_h0\<rparr>"

definition sha256_byte :: "byte \<Rightarrow> SHA256_CTX \<Rightarrow> SHA256_CTX" where
  "sha256_byte b ctx =
     (let ctx1 = ctx\<lparr>ctx_data := (ctx_data ctx)[datalen ctx := b], datalen := datalen ctx + 1\<rparr> in
      if datalen ctx1 = 64
      then (let ctx2 = sha256_transform (ctx_data ctx1) ctx1 in ctx2\<lparr>bitlen := bitlen ctx2 + 512, datalen := 0\<rparr>)
      else ctx1)"

text \<open>\<open>i\<close> has 32 bits and \<open>len\<close> has 64.\<close>

partial_function (option) sha256_update_loop :: "(nat \<Rightarrow> byte) \<Rightarrow> nat \<Rightarrow> u32 \<Rightarrow> SHA256_CTX \<Rightarrow> SHA256_CTX option" where
  "sha256_update_loop data len i ctx =
     (if unat i < len then sha256_update_loop data len (i + 1) (sha256_byte (data (unat i)) ctx) else Some ctx)"

declare sha256_update_loop.simps [code]

definition sha256_update :: "byte list \<Rightarrow> SHA256_CTX \<Rightarrow> SHA256_CTX option" where
  "sha256_update data ctx = sha256_update_loop (\<lambda>i. data ! i) (length data) 0 ctx"

text \<open>Bytes stored one after the other from \<open>i\<close> on.\<close>

definition put_bytes :: "nat \<Rightarrow> byte list \<Rightarrow> byte list \<Rightarrow> byte list" where
  "put_bytes i bs data = fold (\<lambda>k d. d[i + k := bs ! k]) [0..<length bs] data"

definition sha256_pad :: "SHA256_CTX \<Rightarrow> SHA256_CTX" where
  "sha256_pad ctx =
     (let i = datalen ctx in
      if i < 56 then ctx\<lparr>ctx_data := put_bytes i (0x80 # replicate (55 - i) 0) (ctx_data ctx)\<rparr>
      else
        (let ctx1 = ctx\<lparr>ctx_data := put_bytes i (0x80 # replicate (63 - i) 0) (ctx_data ctx)\<rparr>;
             ctx2 = sha256_transform (ctx_data ctx1) ctx1
         in ctx2\<lparr>ctx_data := put_bytes 0 (replicate 56 0) (ctx_data ctx2)\<rparr>))"

definition be_bytes64 :: "u64 \<Rightarrow> byte list" where
  "be_bytes64 w = map (\<lambda>i. ucast (drop_bit (56 - 8 * i) w)) [0..<8]"

definition sha_digest :: "hash_state \<Rightarrow> byte list" where
  "sha_digest st = concat (map (\<lambda>w. map (\<lambda>i. ucast (drop_bit (24 - i * 8) w)) [0..<4]) st)"

definition sha256_final :: "SHA256_CTX \<Rightarrow> byte list \<times> SHA256_CTX" where
  "sha256_final ctx =
     (let ctx1 = sha256_pad ctx;
          ctx2 = ctx1\<lparr>bitlen := bitlen ctx1 + of_nat (datalen ctx1 * 8)\<rparr>;
          ctx3 = ctx2\<lparr>ctx_data := put_bytes 56 (be_bytes64 (bitlen ctx2)) (ctx_data ctx2)\<rparr>;
          ctx4 = sha256_transform (ctx_data ctx3) ctx3
      in (sha_digest (ctx_state ctx4), ctx4))"

section \<open>The specification\<close>

text \<open>The padded message: a one bit, zeros, and the number of bits in eight bytes.\<close>

definition sha_padded :: "byte list \<Rightarrow> byte list" where
  "sha_padded msg = msg @ 0x80 # replicate ((119 - length msg mod 64) mod 64) 0 @ be_bytes64 (of_nat (8 * length msg))"

function sha_blocks :: "byte list \<Rightarrow> hash_state \<Rightarrow> hash_state" where
  "sha_blocks bs st = (if length bs < 64 then st else sha_blocks (drop 64 bs) (sha256_block (take 64 bs) st))"
  by pat_completeness auto
termination by (relation "measure (\<lambda>(bs, st). length bs)") auto

declare sha_blocks.simps [simp del]

definition sha256_spec :: "byte list \<Rightarrow> byte list" where
  "sha256_spec msg = sha_digest (sha_blocks (sha_padded msg) sha_h0)"

section \<open>Blocks\<close>

lemma sha_blocks_append: "64 dvd length a \<Longrightarrow> sha_blocks (a @ b) st = sha_blocks b (sha_blocks a st)"
proof (induction a st rule: sha_blocks.induct)
  case (1 a st)
  show ?case
  proof (cases "length a < 64")
    case True
    then have "a = []" using 1(2) by (auto dest: dvd_imp_le)
    then show ?thesis by (simp add: sha_blocks.simps [of "[]"])
  next
    case False
    have "64 dvd length (drop 64 a)" using 1(2) by simp
    from 1(1) [OF False this] show ?thesis using False by (simp add: sha_blocks.simps [of "a @ b"] sha_blocks.simps [of a])
  qed
qed

lemma sha_blocks_one: "length a = 64 \<Longrightarrow> sha_blocks a st = sha256_block a st"
  by (simp add: sha_blocks.simps [of a] sha_blocks.simps [of "[]"])

lemma put_bytes_at:
  assumes "i + length bs \<le> length d"
  shows "put_bytes i bs d = take i d @ bs @ drop (i + length bs) d"
proof -
  have "fold (\<lambda>k d. d[i + k := bs ! k]) [0..<n] d = take i d @ take n bs @ drop (i + n) d" if "n \<le> length bs" for n
    using that
  proof (induction n)
    case (Suc n)
    have "drop (i + n) d = d ! (i + n) # drop (Suc (i + n)) d" using Suc.prems assms by (simp add: Cons_nth_drop_Suc)
    then show ?case using Suc assms by (simp add: list_update_append take_Suc_conv_app_nth)
  qed simp
  then show ?thesis unfolding put_bytes_def by simp
qed

lemma sha_round_length: "length (sha_round km st) = length st"
  by (cases "(km, st)" rule: sha_round.cases) (simp_all add: Let_def)

lemma sha256_block_length: "length (sha256_block data st) = length st"
proof -
  have "length (fold sha_round kms st) = length st" for kms
    by (induction kms arbitrary: st) (simp_all add: sha_round_length)
  then show ?thesis by (simp add: sha256_block_def)
qed

lemma sha_blocks_length: "length (sha_blocks bs st) = length st"
  by (induction bs st rule: sha_blocks.induct) (subst sha_blocks.simps, simp add: sha256_block_length)

section \<open>The context between calls\<close>

text \<open>What the context holds after the bytes of \<open>msg\<close>.\<close>

definition sha_inv :: "byte list \<Rightarrow> SHA256_CTX \<Rightarrow> bool" where
  "sha_inv msg ctx \<longleftrightarrow> length (ctx_data ctx) = 64 \<and> datalen ctx = length msg mod 64 \<and>
     (let n = 64 * (length msg div 64) in
      take (datalen ctx) (ctx_data ctx) = drop n msg \<and> ctx_state ctx = sha_blocks (take n msg) sha_h0 \<and> bitlen ctx = of_nat (8 * n))"

lemma sha_inv_init: "length (ctx_data ctx) = 64 \<Longrightarrow> sha_inv [] (sha256_init ctx)"
  by (simp add: sha_inv_def sha256_init_def sha_blocks.simps [of "[]"])

lemma sha_inv_byte:
  assumes "sha_inv msg ctx"
  shows "sha_inv (msg @ [b]) (sha256_byte b ctx)"
proof -
  define q r where "q = length msg div 64" and "r = length msg mod 64"
  have len: "length msg = 64 * q + r" "r < 64" by (simp_all add: q_def r_def)
  have i: "length (ctx_data ctx) = 64" "datalen ctx = r" "take r (ctx_data ctx) = drop (64 * q) msg"
    "ctx_state ctx = sha_blocks (take (64 * q) msg) sha_h0" "bitlen ctx = of_nat (8 * (64 * q))"
    using assms(1) unfolding sha_inv_def Let_def q_def r_def by auto
  have t: "take (Suc r) ((ctx_data ctx)[r := b]) = drop (64 * q) (msg @ [b])"
    using i len by (simp add: take_Suc_conv_app_nth)
  show ?thesis
  proof (cases "r = 63")
    case True
    have n: "length (msg @ [b]) div 64 = Suc q" "length (msg @ [b]) mod 64 = 0" using len True by simp_all
    have blk: "(ctx_data ctx)[r := b] = drop (64 * q) (msg @ [b])" using t i(1) True by simp
    have "take (64 * Suc q) (msg @ [b]) = take (64 * q) msg @ drop (64 * q) (msg @ [b])" using len True by simp
    moreover have "64 dvd length (take (64 * q) msg)" using len by simp
    moreover have "length (drop (64 * q) (msg @ [b])) = 64" using len True by simp
    ultimately have s: "sha_blocks (take (64 * Suc q) (msg @ [b])) sha_h0 = sha256_block (drop (64 * q) (msg @ [b])) (ctx_state ctx)"
      using sha_blocks_append [of "take (64 * q) msg"] sha_blocks_one i(4) by metis
    show ?thesis unfolding sha_inv_def Let_def n
      using i True blk s len by (simp add: sha256_byte_def sha256_transform_def Let_def algebra_simps)
  next
    case False
    have n: "length (msg @ [b]) div 64 = q" "length (msg @ [b]) mod 64 = Suc r" using len False by simp_all
    show ?thesis unfolding sha_inv_def Let_def n
      using i t False len by (simp add: sha256_byte_def Let_def)
  qed
qed

lemma sha_inv_fold: "sha_inv msg ctx \<Longrightarrow> sha_inv (msg @ data) (fold sha256_byte data ctx)"
proof (induction data arbitrary: msg ctx)
  case (Cons b data)
  then show ?case using Cons.IH [OF sha_inv_byte [OF Cons.prems], of b] by simp
qed simp

lemma sha256_update_fold:
  assumes "length data < 2 ^ 32"
  shows "sha256_update data ctx = Some (fold sha256_byte data ctx)"
proof -
  have "sha256_update_loop (\<lambda>i. data ! i) (length data) (of_nat k) ctx = Some (fold sha256_byte (drop k data) ctx)"
    if "k \<le> length data" for k ctx
    using that
  proof (induction "length data - k" arbitrary: k ctx)
    case 0
    then have "unat (of_nat k :: u32) = length data" using assms by (simp add: unat_of_nat)
    then show ?case using 0 by (subst sha256_update_loop.simps) simp
  next
    case (Suc n)
    then have k: "k < length data" by simp
    have u: "unat (of_nat k :: u32) = k" using k assms by (simp add: unat_of_nat)
    have "sha256_update_loop (\<lambda>i. data ! i) (length data) (of_nat (Suc k)) (sha256_byte (data ! k) ctx) =
        Some (fold sha256_byte (drop (Suc k) data) (sha256_byte (data ! k) ctx))"
      by (rule Suc.hyps(1)) (use Suc.hyps(2) k in auto)
    moreover have "drop k data = data ! k # drop (Suc k) data" using k by (simp add: Cons_nth_drop_Suc)
    ultimately show ?case using k u by (subst sha256_update_loop.simps) (simp add: add.commute)
  qed
  from this [of 0] show ?thesis by (simp add: sha256_update_def)
qed

lemma sha_pad_blocks:
  assumes "sha_inv msg ctx" and l: "length l = 8"
  shows "let ctx1 = sha256_pad ctx in length (ctx_data ctx1) = 64 \<and> datalen ctx1 = datalen ctx \<and> bitlen ctx1 = bitlen ctx \<and>
    sha256_block (take 56 (ctx_data ctx1) @ l) (ctx_state ctx1) =
      sha_blocks (msg @ 0x80 # replicate ((119 - length msg mod 64) mod 64) 0 @ l) sha_h0"
proof -
  define q r where "q = length msg div 64" and "r = length msg mod 64"
  have len: "length msg = 64 * q + r" "r < 64" by (simp_all add: q_def r_def)
  have i: "length (ctx_data ctx) = 64" "datalen ctx = r" "take r (ctx_data ctx) = drop (64 * q) msg"
    "ctx_state ctx = sha_blocks (take (64 * q) msg) sha_h0"
    using assms(1) unfolding sha_inv_def Let_def q_def r_def by auto
  have sp: "sha_blocks (msg @ t) sha_h0 = sha_blocks (drop (64 * q) msg @ t) (ctx_state ctx)" for t
    using sha_blocks_append [of "take (64 * q) msg" "drop (64 * q) msg @ t" sha_h0] len i(4)
    by (simp add: append_assoc [symmetric] del: append_assoc)
  show ?thesis
  proof (cases "r < 56")
    case True
    have e: "(119 - r) mod 64 = 55 - r" using True by (simp add: mod_if)
    have p: "put_bytes r (0x80 # replicate (55 - r) 0) (ctx_data ctx) =
        drop (64 * q) msg @ 0x80 # replicate (55 - r) 0 @ drop 56 (ctx_data ctx)"
      using i True by (subst put_bytes_at) simp_all
    have "take (56 - r) (0x80 # replicate (55 - r) 0 @ d) = 0x80 # replicate (55 - r) (0 :: byte)" for d
      using True by (simp add: take_Cons')
    then show ?thesis
      unfolding sp r_def [symmetric] e using p i True l len
      by (simp add: sha256_pad_def Let_def sha_blocks_one)
  next
    case False
    have e: "(119 - r) mod 64 = (63 - r) + 56" using False len(2) by (simp add: mod_if)
    have p: "put_bytes r (0x80 # replicate (63 - r) 0) (ctx_data ctx) = drop (64 * q) msg @ 0x80 # replicate (63 - r) 0"
      using i False len by (subst put_bytes_at) simp_all
    have z: "put_bytes 0 (replicate 56 0) (drop (64 * q) msg @ 0x80 # replicate (63 - r) 0) =
        replicate 56 0 @ drop 56 (drop (64 * q) msg @ 0x80 # replicate (63 - r) 0)"
      using len by (subst put_bytes_at) simp_all
    have "sha_blocks (drop (64 * q) msg @ 0x80 # replicate ((63 - r) + 56) 0 @ l) (ctx_state ctx) =
        sha256_block (replicate 56 0 @ l) (sha256_block (drop (64 * q) msg @ 0x80 # replicate (63 - r) 0) (ctx_state ctx))"
      unfolding replicate_add using sha_blocks_append [of "drop (64 * q) msg @ 0x80 # replicate (63 - r) 0" "replicate 56 0 @ l" "ctx_state ctx"] len l
      by (simp add: sha_blocks_one)
    then show ?thesis
      unfolding sp r_def [symmetric] e using i False l len
      by (simp add: sha256_pad_def Let_def p z sha256_transform_def)
  qed
qed

lemma sha_final_spec:
  assumes "sha_inv msg ctx"
  shows "fst (sha256_final ctx) = sha256_spec msg"
proof -
  have b: "bitlen ctx + of_nat (datalen ctx * 8) = of_nat (8 * length msg)"
  proof -
    have e: "8 * (64 * (length msg div 64)) + length msg mod 64 * 8 = 8 * length msg"
      using mult_div_mod_eq [of 64 "length msg"] by linarith
    have "bitlen ctx = of_nat (8 * (64 * (length msg div 64)))" "datalen ctx = length msg mod 64"
      using assms unfolding sha_inv_def Let_def by auto
    then show ?thesis using e by (simp only: of_nat_add [symmetric])
  qed
  have l: "length (be_bytes64 w) = 8" for w by (simp add: be_bytes64_def)
  show ?thesis
    using sha_pad_blocks [OF assms l, of "of_nat (8 * length msg)"] b l
    by (simp add: sha256_final_def sha256_spec_def sha_padded_def Let_def sha256_transform_def put_bytes_at)
qed

text \<open>
  C21. Incremental hashing is SHA-256 of the whole message. However the message is cut into pieces below \<open>2 ^ 32\<close> bytes,
  starting a context, feeding the pieces and finishing gives the digest of the padded message block by block, whatever
  the buffer of the context held before.
\<close>

theorem sha256_incremental:
  assumes "length (ctx_data ctx) = 64" "list_all (\<lambda>d. length d < 2 ^ 32) pieces"
  shows "map_option (fst \<circ> sha256_final) (fold (\<lambda>d r. r \<bind> sha256_update d) pieces (Some (sha256_init ctx))) =
    Some (sha256_spec (concat pieces))"
proof -
  have "\<exists>ctx'. fold (\<lambda>d r. r \<bind> sha256_update d) pieces (Some ctx) = Some ctx' \<and> sha_inv (msg @ concat pieces) ctx'"
    if "sha_inv msg ctx" for msg ctx
    using that assms(2)
  proof (induction pieces arbitrary: msg ctx)
    case (Cons d ds)
    have "sha256_update d ctx = Some (fold sha256_byte d ctx)" using Cons.prems(2) by (simp add: sha256_update_fold)
    then show ?case using Cons.IH [OF sha_inv_fold [OF Cons.prems(1), of d]] Cons.prems(2) by simp
  qed simp
  from this [OF sha_inv_init [OF assms(1)]] sha_final_spec show ?thesis by fastforce
qed

theorem sha256_incremental_witness:
  "map_option (fst \<circ> sha256_final) (fold (\<lambda>d r. r \<bind> sha256_update d) [[97], [98, 99]]
     (Some (sha256_init \<lparr>ctx_data = replicate 64 7, datalen = 9, bitlen = 1, ctx_state = []\<rparr>))) =
   Some (sha256_spec [97, 98, 99])"
  using sha256_incremental [of "\<lparr>ctx_data = replicate 64 7, datalen = 9, bitlen = 1, ctx_state = []\<rparr>" "[[97], [98, 99]]"] by simp

text \<open>
  C38. \<open>sha256_update\<close> never returns on \<open>2 ^ 32\<close> bytes or more, because its index has 32 bits.
\<close>

theorem sha256_update_endless:
  assumes "2 ^ 32 \<le> length data"
  shows "sha256_update data ctx = None"
proof -
  have "sha256_update_loop f n i c = None" if "2 ^ 32 \<le> n" for f n i c
  proof -
    have "n < 2 ^ 32" if "sha256_update_loop f n i c = Some r" for r
      using that
    proof (rule sha256_update_loop.raw_induct [of "\<lambda>f n i c r. n < 2 ^ 32", rotated], goal_cases)
      case (1 g f n i c r)
      show ?case
      proof (cases "unat i < n")
        case True
        then show ?thesis using 1 by auto
      next
        case False
        then show ?thesis using unsigned_less [of i, where 'a = nat] by simp
      qed
    qed
    then show ?thesis using that by (cases "sha256_update_loop f n i c") auto
  qed
  then show ?thesis using assms by (simp add: sha256_update_def)
qed

theorem sha256_update_endless_witness:
  "sha256_update (replicate (2 ^ 32) 0) (sha256_init \<lparr>ctx_data = replicate 64 7, datalen = 9, bitlen = 1, ctx_state = []\<rparr>) = None"
  by (rule sha256_update_endless) simp

end
