(* ===== verification/Crypto.thy ===== *)
theory Crypto
  imports Sha256
begin

text \<open>
  \<open>kern_crypto.cpp\<close> and the buffers of \<open>kern_util.hpp\<close>. Sizes are 32-bit words and wrap as they do in the code; an outer
  \<open>None\<close> is a store outside the buffer it was meant for. The kernel's AES and its random numbers are parameters, and
  so is \<open>alloc\<close>, which says whether memory of a size can be had.
\<close>

section \<open>Buffers\<close>

definition buffer_max :: nat where "buffer_max = 1024 * 1024 * 1024"

definition buffer_available :: "(nat \<Rightarrow> bool) \<Rightarrow> nat \<Rightarrow> bool" where
  "buffer_available alloc sz = (sz \<le> buffer_max \<and> alloc sz)"

section \<open>Keys and ciphers\<close>

definition BlockSize :: nat where "BlockSize = 16"

text \<open>Key setup and CBC of \<open>libkern/crypto/aes.h\<close>; \<open>None\<close> is a result other than \<open>aes_good\<close>.\<close>

record ('e, 'd) aes =
  aes_encrypt_key128 :: "byte list \<Rightarrow> 'e option"
  aes_encrypt_cbc :: "byte list \<Rightarrow> byte list \<Rightarrow> nat \<Rightarrow> 'e \<Rightarrow> byte list option"
  aes_decrypt_key :: "byte list \<Rightarrow> nat \<Rightarrow> 'd option"
  aes_decrypt_cbc :: "byte list \<Rightarrow> byte list \<Rightarrow> nat \<Rightarrow> 'd \<Rightarrow> byte list option"

definition genUniqueKey :: "(nat \<Rightarrow> bool) \<Rightarrow> (nat \<Rightarrow> byte list) \<Rightarrow> u32 \<Rightarrow> byte list option" where
  "genUniqueKey alloc read_random sz =
     (if unat sz < BlockSize then None
      else if buffer_available alloc (unat sz) then Some (read_random (unat sz)) else None)"

text \<open>The key is \<open>None\<close> for a null pointer. The size is that of the source, in 32 bits.\<close>

definition encrypt_sizes :: "u32 \<Rightarrow> u32 \<times> u32 \<times> u32" where
  "encrypt_sizes sz =
     (let realSize = 4 + sz;
          padSize = realSize mod 16;
          padSize = (if padSize > 0 then 16 - padSize else padSize);
          encSize = realSize + padSize
      in (padSize, encSize, encSize + 16))"

definition encrypt :: "('e, 'd) aes \<Rightarrow> (nat \<Rightarrow> bool) \<Rightarrow> (nat \<Rightarrow> byte list) \<Rightarrow> byte list option \<Rightarrow> byte list
    \<Rightarrow> byte list option option" where
  "encrypt aes alloc read_random key src =
     (case key of
        None \<Rightarrow> Some None
      | Some k \<Rightarrow>
          if src = [] then Some None
          else
            (let (padSize, encSize, fullSize) = encrypt_sizes (of_nat (length src)) in
             if \<not> buffer_available alloc (unat encSize) then Some None
             else if unat encSize < 4 + length src + unat padSize then None
             else
               (let data = le_bytes 4 (of_nat (length src) :: u32) @ src @ replicate (unat padSize) 0 in
                if \<not> buffer_available alloc (unat fullSize) then Some None
                else
                  (let iv = read_random BlockSize in
                   Some (do {
                     ctx \<leftarrow> aes_encrypt_key128 aes k;
                     buf \<leftarrow> aes_encrypt_cbc aes data iv (unat encSize div BlockSize) ctx;
                     Some (iv @ buf)
                   })))))"

definition decrypt :: "('e, 'd) aes \<Rightarrow> (nat \<Rightarrow> bool) \<Rightarrow> byte list option \<Rightarrow> byte list \<Rightarrow> byte list option" where
  "decrypt aes alloc key src =
     (if length src < 32 \<or> length src mod BlockSize \<noteq> 0 then None
      else do {
        k \<leftarrow> key;
        let sz = length src - 16;
        if buffer_available alloc sz then do {
          ctx \<leftarrow> aes_decrypt_key aes k BlockSize;
          dec \<leftarrow> aes_decrypt_cbc aes (drop 16 src) (take 16 src) (sz div BlockSize) ctx;
          let dsize = unat (le_word (take 4 dec) :: u32);
          if sz - 4 \<ge> dsize then Some (take dsize (drop 4 dec)) else None
        } else None
      })"

text \<open>\<open>hash\<close> of at most \<open>2 ^ 32 - 1\<close> bytes; \<open>ctx\<close> is the context on the stack before it is set up.\<close>

definition Crypto_hash :: "(nat \<Rightarrow> bool) \<Rightarrow> SHA256_CTX \<Rightarrow> byte list \<Rightarrow> byte list option option" where
  "Crypto_hash alloc ctx src =
     (if src = [] \<or> \<not> buffer_available alloc 32 then Some None
      else map_option (\<lambda>c. Some (fst (sha256_final c))) (sha256_update src (sha256_init ctx)))"

section \<open>Codecs\<close>

text \<open>A stage that is applied or left out as a flag says.\<close>

definition stage :: "bool \<Rightarrow> ('a \<Rightarrow> 'a option option) \<Rightarrow> 'a \<Rightarrow> 'a option option" where
  "stage on f x = (if on then f x else Some (Some x))"

definition unstage :: "bool \<Rightarrow> ('a \<Rightarrow> 'a option) \<Rightarrow> 'a \<Rightarrow> 'a option" where
  "unstage on g x = (if on then g x else Some x)"

text \<open>
  What clients of a pair of operations rely on: decoding what was encoded gives it again, for the inputs in \<open>adm\<close>. Both
  may fail; encoding may also not return in a defined state, which is the outer \<open>None\<close>.
\<close>

locale codec =
  fixes adm :: "'a \<Rightarrow> bool" and enc :: "'a \<Rightarrow> 'a option option" and dec :: "'a \<Rightarrow> 'a option"
  assumes dec_enc: "adm x \<Longrightarrow> enc x = Some (Some y) \<Longrightarrow> dec y = Some x"
begin

lemma unstage_stage: "adm x \<Longrightarrow> stage on enc x = Some (Some y) \<Longrightarrow> unstage on dec y = Some x"
  by (auto simp: stage_def unstage_def dec_enc split: if_splits)

end

section \<open>Decryption undoes encryption\<close>

text \<open>
  What the code relies on of AES in CBC mode: whole blocks are encrypted to as many bytes, and decryption with the same key
  and initialisation vector succeeds and gives the blocks again.
\<close>

definition aes_cbc :: "('e, 'd) aes \<Rightarrow> bool" where
  "aes_cbc aes \<longleftrightarrow>
     (\<forall>k ctx iv data n buf. aes_encrypt_key128 aes k = Some ctx \<and> length iv = 16 \<and> length data = 16 * n \<and>
        aes_encrypt_cbc aes data iv n ctx = Some buf \<longrightarrow>
        length buf = 16 * n \<and>
        (\<exists>d. aes_decrypt_key aes k 16 = Some d \<and> aes_decrypt_cbc aes buf iv n d = Some data))"

lemma encrypt_sizes_nat:
  assumes "encrypt_sizes (of_nat n) = (padSize, encSize, fullSize)" "4 + n + unat padSize \<le> unat encSize" "n < 2 ^ 32"
    "unat encSize \<le> buffer_max"
  shows "unat encSize = 4 + n + unat padSize" "unat encSize mod 16 = 0" "unat fullSize = unat encSize + 16"
proof -
  define r pad where "r = (4 + of_nat n :: u32)" and "pad = (if r mod 16 > 0 then 16 - r mod 16 else r mod 16)"
  have s: "padSize = pad" "encSize = r + pad" "fullSize = encSize + 16"
    using assms(1) unfolding encrypt_sizes_def Let_def r_def [symmetric] pad_def [symmetric] by auto
  have m: "unat (r mod 16) = unat r mod 16" by (simp add: unat_mod)
  then have m16: "unat (r mod 16) < 16" by simp
  have p: "unat pad = (if unat r mod 16 = 0 then 0 else 16 - unat r mod 16)"
    unfolding pad_def using m m16 by (auto simp: unat_sub word_le_nat_alt word_less_nat_alt unat_eq_0 [symmetric] unat_gt_0)
  have r: "unat r = (4 + n) mod 2 ^ 32" unfolding r_def by (simp add: unat_word_ariths unat_of_nat mod_simps)
  have e: "unat encSize = (unat r + unat pad) mod 2 ^ 32" unfolding s by (simp add: unat_word_ariths)
  have nw: "4 + n < 2 ^ 32"
  proof (rule ccontr)
    assume "\<not> 4 + n < 2 ^ 32"
    then have "unat encSize \<ge> 2 ^ 32" using assms(2) by simp
    then show False using unsigned_less [of encSize, where 'a = nat] by simp
  qed
  then have rn: "unat r = 4 + n" using r by simp
  have le: "unat encSize \<le> unat r + unat pad" unfolding e by simp
  show 1: "unat encSize = 4 + n + unat padSize" using assms(2) le rn s(1) by simp
  show "unat encSize mod 16 = 0"
  proof (cases "unat r mod 16 = 0")
    case True
    then show ?thesis using 1 rn p s(1) by simp
  next
    case False
    have "(4 + n + (16 - (4 + n) mod 16)) mod 16 = 0" by presburger
    then show ?thesis using 1 rn p s(1) False by simp
  qed
  show "unat fullSize = unat encSize + 16" using assms(4) unfolding s(3) by (simp add: unat_word_ariths buffer_max_def)
qed

lemma encrypt_codec:
  assumes A: "aes_cbc aes" and R: "length (read_random 16) = 16"
  shows "codec (\<lambda>src. length src < 2 ^ 32) (encrypt aes alloc read_random key) (decrypt aes alloc key)"
proof
  fix src out
  assume k2: "length src < 2 ^ 32" and E: "encrypt aes alloc read_random key src = Some (Some out)"
  obtain padSize encSize fullSize where S: "encrypt_sizes (of_nat (length src)) = (padSize, encSize, fullSize)"
    by (cases "encrypt_sizes (of_nat (length src))") auto
  define data where "data = le_bytes 4 (of_nat (length src) :: u32) @ src @ replicate (unat padSize) 0"
  from E obtain k ctx buf where k: "key = Some k" and bc: "buffer_available alloc (unat encSize)"
    and fit: "4 + length src + unat padSize \<le> unat encSize" and c: "aes_encrypt_key128 aes k = Some ctx"
    "aes_encrypt_cbc aes data (read_random 16) (unat encSize div 16) ctx = Some buf" and out: "out = read_random 16 @ buf"
    unfolding encrypt_def S data_def BlockSize_def
    by (auto simp: Let_def not_less split: option.splits if_splits bind_splits)
  have n: "unat encSize = 4 + length src + unat padSize" "unat encSize mod 16 = 0"
    using encrypt_sizes_nat [OF S fit k2] bc by (simp_all add: buffer_available_def)
  have l: "length data = 16 * (unat encSize div 16)" using n mult_div_mod_eq [of 16 "unat encSize"] by (simp add: data_def)
  obtain d where d: "length buf = 16 * (unat encSize div 16)" "aes_decrypt_key aes k 16 = Some d"
    "aes_decrypt_cbc aes buf (read_random 16) (unat encSize div 16) d = Some data"
    using A c R l unfolding aes_cbc_def by blast
  have lb: "length buf = unat encSize" using d(1) l n(1) by (simp add: data_def)
  have ge: "unat encSize \<ge> 16" using n by presburger
  define e where "e = unat encSize"
  have io: "length out = 16 + e" "take 16 out = read_random 16" "drop 16 out = buf" "(16 + e) mod 16 = 0"
    using lb R n(2) out by (simp_all add: e_def)
  have u: "unat (le_word (take 4 data) :: u32) = length src" "take (length src) (drop 4 data) = src"
    using k2 by (simp_all add: data_def le_word_le_bytes unat_of_nat)
  have "length src \<le> e - 4" using n(1) by (simp add: e_def)
  then show "decrypt aes alloc key out = Some src"
    using ge bc k d(2,3) u unfolding decrypt_def io BlockSize_def e_def [symmetric]
    by (simp add: Let_def)
qed

text \<open>
  C12. Decryption undoes encryption. Over any AES whose CBC decryption undoes its CBC encryption, whatever \<open>encrypt\<close> returns
  for a source of less than \<open>2 ^ 32\<close> bytes, \<open>decrypt\<close> with the same key turns into exactly that source, the padding and
  the stored size included.
\<close>

theorem decrypt_encrypt:
  assumes "aes_cbc aes" "length (read_random 16) = 16" "length src < 2 ^ 32"
    "encrypt aes alloc read_random key src = Some (Some out)"
  shows "decrypt aes alloc key out = Some src"
  by (rule codec.dec_enc [OF encrypt_codec [where read_random = read_random, OF assms(1,2)] assms(3,4)])

lemma Crypto_hash_spec:
  assumes "src \<noteq> []" "length src < 2 ^ 32" "buffer_available alloc 32" "length (ctx_data ctx) = 64"
  shows "Crypto_hash alloc ctx src = Some (Some (sha256_spec src))"
  using assms sha_final_spec [OF sha_inv_fold [OF sha_inv_init [OF assms(4)]]]
  by (simp add: Crypto_hash_def sha256_update_fold)

text \<open>A cipher that adds the bytes of the key and the initialisation vector, for evaluation.\<close>

definition xor_cipher :: "(byte list, byte list) aes" where
  "xor_cipher =
     (let f = (\<lambda>data iv n k. Some (map (\<lambda>b. b XOR hd k XOR hd iv) data))
      in \<lparr>aes_encrypt_key128 = Some, aes_encrypt_cbc = f, aes_decrypt_key = (\<lambda>k _. Some k), aes_decrypt_cbc = f\<rparr>)"

lemma xor_cipher_ok: "aes_cbc xor_cipher"
  by (auto simp: aes_cbc_def xor_cipher_def Let_def o_def xor.assoc xor.left_commute xor.commute)

theorem decrypt_encrypt_witness:
  "\<exists>out. encrypt xor_cipher (\<lambda>_. True) (\<lambda>n. replicate n 9) (Some (replicate 16 5)) [1, 2, 3] = Some (Some out) \<and>
     decrypt xor_cipher (\<lambda>_. True) (Some (replicate 16 5)) out = Some [1, 2, 3]"
proof -
  have "\<exists>out. encrypt xor_cipher (\<lambda>_. True) (\<lambda>n. replicate n 9) (Some (replicate 16 5)) [1, 2, 3] = Some (Some out)"
    by (simp add: encrypt_def encrypt_sizes_def Let_def buffer_available_def buffer_max_def xor_cipher_def)
  then show ?thesis using decrypt_encrypt [OF xor_cipher_ok, of "\<lambda>n. replicate n 9" "[1, 2, 3]"] by auto
qed

end
