(* ===== verification/Lzss_Encode.thy ===== *)
theory Lzss_Encode
  imports Compression
begin

text \<open>
  The LZSS encoder of \<open>kern_compression.cpp\<close>. Its 256 search trees are arrays of children and parents over
  the positions of the ring buffer; \<open>NIL\<close> is no node, and the tree for byte \<open>c\<close> hangs on the right of
  \<open>RBSIZE + 1 + c\<close>. Walks along the trees are partial functions, and an index outside an array is \<open>None\<close>.
\<close>

section \<open>Arrays of a fixed size\<close>

definition arr_get :: "nat \<Rightarrow> (nat \<Rightarrow> 'a) \<Rightarrow> nat \<Rightarrow> 'a option" where
  "arr_get n a i = (if i < n then Some (a i) else None)"

definition arr_set :: "nat \<Rightarrow> (nat \<Rightarrow> 'a) \<Rightarrow> nat \<Rightarrow> 'a \<Rightarrow> (nat \<Rightarrow> 'a) option" where
  "arr_set n a i v = (if i < n then Some (a(i := v)) else None)"

lemma arr_in [simp]: "i < n \<Longrightarrow> arr_get n a i = Some (a i)" "i < n \<Longrightarrow> arr_set n a i v = Some (a(i := v))"
  by (simp_all add: arr_get_def arr_set_def)

definition NIL :: nat where "NIL = RBSIZE"

record encode_state =
  lchild :: "nat \<Rightarrow> nat"
  rchild :: "nat \<Rightarrow> nat"
  parent :: "nat \<Rightarrow> nat"
  text_buf :: "nat \<Rightarrow> byte"
  match_position :: nat
  match_length :: nat

text \<open>The arrays have \<open>RBSIZE + 1\<close> left children and parents, \<open>RBSIZE + 257\<close> right children and \<open>RBSIZE + UPLIM - 1\<close> bytes.\<close>

abbreviation lchild_at :: "encode_state \<Rightarrow> nat \<Rightarrow> nat option" where
  "lchild_at sp \<equiv> arr_get (RBSIZE + 1) (lchild sp)"

abbreviation rchild_at :: "encode_state \<Rightarrow> nat \<Rightarrow> nat option" where
  "rchild_at sp \<equiv> arr_get (RBSIZE + 257) (rchild sp)"

abbreviation parent_at :: "encode_state \<Rightarrow> nat \<Rightarrow> nat option" where
  "parent_at sp \<equiv> arr_get (RBSIZE + 1) (parent sp)"

abbreviation text_at :: "(nat \<Rightarrow> byte) \<Rightarrow> nat \<Rightarrow> byte option" where
  "text_at \<equiv> arr_get (RBSIZE + UPLIM - 1)"

definition set_lchild :: "nat \<Rightarrow> nat \<Rightarrow> encode_state \<Rightarrow> encode_state option" where
  "set_lchild i v sp = map_option (\<lambda>a. sp\<lparr>lchild := a\<rparr>) (arr_set (RBSIZE + 1) (lchild sp) i v)"

definition set_rchild :: "nat \<Rightarrow> nat \<Rightarrow> encode_state \<Rightarrow> encode_state option" where
  "set_rchild i v sp = map_option (\<lambda>a. sp\<lparr>rchild := a\<rparr>) (arr_set (RBSIZE + 257) (rchild sp) i v)"

definition set_parent :: "nat \<Rightarrow> nat \<Rightarrow> encode_state \<Rightarrow> encode_state option" where
  "set_parent i v sp = map_option (\<lambda>a. sp\<lparr>parent := a\<rparr>) (arr_set (RBSIZE + 1) (parent sp) i v)"

definition set_text :: "nat \<Rightarrow> byte \<Rightarrow> encode_state \<Rightarrow> encode_state option" where
  "set_text i v sp = map_option (\<lambda>a. sp\<lparr>text_buf := a\<rparr>) (arr_set (RBSIZE + UPLIM - 1) (text_buf sp) i v)"

definition init_state :: encode_state where
  "init_state =
     \<lparr>lchild = (\<lambda>_. 0), rchild = (\<lambda>i. if RBSIZE + 1 \<le> i \<and> i \<le> RBSIZE + 256 then NIL else 0),
      parent = (\<lambda>i. if i < RBSIZE then NIL else 0),
      text_buf = (\<lambda>i. if i < RBSIZE - UPLIM then 0x20 else 0), match_position = 0, match_length = 0\<rparr>"

section \<open>The trees\<close>

text \<open>The comparison with node \<open>p\<close>: where it stops, and the last difference.\<close>

primrec match_scan :: "(nat \<Rightarrow> byte) \<Rightarrow> nat \<Rightarrow> nat \<Rightarrow> nat \<Rightarrow> nat \<Rightarrow> (nat \<times> int) option" where
  "match_scan tb r p 0 i = Some (i, 0)"
| "match_scan tb r p (Suc n) i = do {
     key \<leftarrow> text_at tb (r + i);
     t \<leftarrow> text_at tb (p + i);
     let cmp = uint key - uint t;
     if cmp \<noteq> 0 then Some (i, cmp) else match_scan tb r p n (Suc i)
   }"

text \<open>The loop of \<open>insert_node\<close>; it gives the node that matches in full, if there is one.\<close>

partial_function (option) insert_loop :: "nat \<Rightarrow> int \<Rightarrow> nat \<Rightarrow> encode_state \<Rightarrow> (nat option \<times> encode_state) option" where
  "insert_loop r cmp p sp = do {
     next \<leftarrow> (if cmp \<ge> 0 then rchild_at sp p else lchild_at sp p);
     if next = NIL then do {
       sp \<leftarrow> (if cmp \<ge> 0 then set_rchild p r sp else set_lchild p r sp);
       sp \<leftarrow> set_parent r p sp;
       Some (None, sp)
     } else do {
       (i, cmp1) \<leftarrow> match_scan (text_buf sp) r next (UPLIM - 1) 1;
       if i > match_length sp then
         (let sp1 = sp\<lparr>match_position := next, match_length := i\<rparr> in
          if i \<ge> UPLIM then Some (Some next, sp1) else insert_loop r cmp1 next sp1)
       else insert_loop r cmp1 next sp
     }
   }"

declare insert_loop.simps [code]

text \<open>The last step of taking \<open>p\<close> out of its tree: \<open>q\<close> hangs where \<open>p\<close> hung.\<close>

definition relink :: "nat \<Rightarrow> nat \<Rightarrow> encode_state \<Rightarrow> encode_state option" where
  "relink p q sp = do {
     up \<leftarrow> parent_at sp p;
     c \<leftarrow> rchild_at sp up;
     sp \<leftarrow> (if c = p then set_rchild up q sp else set_lchild up q sp);
     set_parent p NIL sp
   }"

text \<open>The new node takes the place of the one that matched in full.\<close>

definition replace_node :: "nat \<Rightarrow> nat \<Rightarrow> encode_state \<Rightarrow> encode_state option" where
  "replace_node r p sp = do {
     up \<leftarrow> parent_at sp p;
     sp \<leftarrow> set_parent r up sp;
     lp \<leftarrow> lchild_at sp p;
     sp \<leftarrow> set_lchild r lp sp;
     rp \<leftarrow> rchild_at sp p;
     sp \<leftarrow> set_rchild r rp sp;
     lp \<leftarrow> lchild_at sp p;
     sp \<leftarrow> set_parent lp r sp;
     rp \<leftarrow> rchild_at sp p;
     sp \<leftarrow> set_parent rp r sp;
     relink p r sp
   }"

definition insert_node :: "nat \<Rightarrow> encode_state \<Rightarrow> encode_state option" where
  "insert_node r sp = do {
     key \<leftarrow> text_at (text_buf sp) r;
     sp \<leftarrow> set_lchild r NIL sp;
     sp \<leftarrow> set_rchild r NIL sp;
     (full, sp) \<leftarrow> insert_loop r 1 (RBSIZE + 1 + unat key) (sp\<lparr>match_length := 0\<rparr>);
     case full of None \<Rightarrow> Some sp | Some q \<Rightarrow> replace_node r q sp
   }"

partial_function (option) rightmost :: "nat \<Rightarrow> encode_state \<Rightarrow> nat option" where
  "rightmost q sp = do { c \<leftarrow> rchild_at sp q; if c \<noteq> NIL then rightmost c sp else Some q }"

declare rightmost.simps [code]

text \<open>The node that takes the place of \<open>p\<close>, and the trees with it below \<open>p\<close>.\<close>

definition successor :: "nat \<Rightarrow> encode_state \<Rightarrow> (nat \<times> encode_state) option" where
  "successor p sp = do {
     rp \<leftarrow> rchild_at sp p;
     lp \<leftarrow> lchild_at sp p;
     if rp = NIL then Some (lp, sp)
     else if lp = NIL then Some (rp, sp)
     else do {
       rlp \<leftarrow> rchild_at sp lp;
       (q, sp) \<leftarrow>
         (if rlp \<noteq> NIL then do {
            q \<leftarrow> rightmost lp sp;
            up \<leftarrow> parent_at sp q;
            lq \<leftarrow> lchild_at sp q;
            sp \<leftarrow> set_rchild up lq sp;
            sp \<leftarrow> set_parent lq up sp;
            sp \<leftarrow> set_lchild q lp sp;
            sp \<leftarrow> set_parent lp q sp;
            Some (q, sp)
          } else Some (lp, sp));
       rp \<leftarrow> rchild_at sp p;
       sp \<leftarrow> set_rchild q rp sp;
       sp \<leftarrow> set_parent rp q sp;
       Some (q, sp)
     }
   }"

definition delete_node :: "nat \<Rightarrow> encode_state \<Rightarrow> encode_state option" where
  "delete_node p sp = do {
     up \<leftarrow> parent_at sp p;
     if up = NIL then Some sp
     else do {
       (q, sp) \<leftarrow> successor p sp;
       up \<leftarrow> parent_at sp p;
       sp \<leftarrow> set_parent q up sp;
       relink p q sp
     }
   }"

section \<open>Encoding\<close>

text \<open>
  The encoder between two units: trees, source not read yet, output, the flags and units of the code buffer,
  the mask, the bytes left in the ring buffer and the two positions.
\<close>

record lzss_comp =
  lc_sp :: encode_state
  lc_src :: "byte list"
  lc_dst :: "byte list"
  lc_flags :: byte
  lc_units :: "byte list"
  lc_mask :: byte
  lc_len :: nat
  lc_r :: nat
  lc_s :: nat

text \<open>
  The unit for the longest match: its length, and the flags and bytes it adds to the code buffer. The length
  that the code stores back is reset by the next insertion before it is read again.
\<close>

definition code_unit :: "encode_state \<Rightarrow> nat \<Rightarrow> nat \<Rightarrow> byte \<Rightarrow> byte \<Rightarrow> byte list \<Rightarrow> (nat \<times> byte \<times> byte list) option" where
  "code_unit sp len r mk flags units =
     (let ml = (if match_length sp > len then len else match_length sp) in
      if ml \<le> THRESHOLD then map_option (\<lambda>c. (1, flags OR mk, units @ [c])) (text_at (text_buf sp) r)
      else Some (ml, flags, units @ [of_nat (match_position sp),
              (of_nat (match_position sp div 16) AND 0xF0) OR of_nat (ml - (THRESHOLD + 1))]))"

text \<open>Bytes that do not fit end the encoding without a result.\<close>

definition put_code :: "nat \<Rightarrow> byte \<Rightarrow> byte list \<Rightarrow> byte list \<Rightarrow> byte list option" where
  "put_code dstlen flags units dst =
     (if length dst + Suc (length units) \<le> dstlen then Some (dst @ flags # units) else None)"

definition next_pos :: "nat \<Rightarrow> nat" where
  "next_pos s = Suc s mod RBSIZE"

text \<open>The bytes read in place of those the unit stands for: how many were left to read at the end of the source.\<close>

primrec read_steps :: "nat \<Rightarrow> lzss_comp \<Rightarrow> (nat \<times> lzss_comp) option" where
  "read_steps 0 lc = Some (0, lc)"
| "read_steps (Suc n) lc =
     (case lc_src lc of
        [] \<Rightarrow> Some (Suc n, lc)
      | c # src \<Rightarrow> do {
          sp \<leftarrow> delete_node (lc_s lc) (lc_sp lc);
          sp \<leftarrow> set_text (lc_s lc) c sp;
          sp \<leftarrow> (if lc_s lc < UPLIM - 1 then set_text (lc_s lc + RBSIZE) c sp else Some sp);
          sp \<leftarrow> insert_node (next_pos (lc_r lc)) sp;
          read_steps n (lc\<lparr>lc_sp := sp, lc_src := src, lc_r := next_pos (lc_r lc), lc_s := next_pos (lc_s lc)\<rparr>)
        })"

primrec drain_steps :: "nat \<Rightarrow> lzss_comp \<Rightarrow> lzss_comp option" where
  "drain_steps 0 lc = Some lc"
| "drain_steps (Suc n) lc = do {
     sp \<leftarrow> delete_node (lc_s lc) (lc_sp lc);
     let r = next_pos (lc_r lc);
     let len = lc_len lc - 1;
     sp \<leftarrow> (if len \<noteq> 0 then insert_node r sp else Some sp);
     drain_steps n (lc\<lparr>lc_sp := sp, lc_len := len, lc_r := r, lc_s := next_pos (lc_s lc)\<rparr>)
   }"

text \<open>One round of the main loop. The inner option is \<open>None\<close> when the output is full.\<close>

definition compress_round :: "nat \<Rightarrow> lzss_comp \<Rightarrow> lzss_comp option option" where
  "compress_round dstlen lc = do {
     (ml, flags, units) \<leftarrow> code_unit (lc_sp lc) (lc_len lc) (lc_r lc) (lc_mask lc) (lc_flags lc) (lc_units lc);
     let mk = push_bit 1 (lc_mask lc);
     let sent = (if mk = 0 then map_option (\<lambda>dst. lc\<lparr>lc_dst := dst, lc_flags := 0, lc_units := [], lc_mask := 1\<rparr>)
                                  (put_code dstlen flags units (lc_dst lc))
                 else Some (lc\<lparr>lc_flags := flags, lc_units := units, lc_mask := mk\<rparr>));
     case sent of
       None \<Rightarrow> Some None
     | Some lc1 \<Rightarrow> do {
         (n, lc2) \<leftarrow> read_steps ml lc1;
         lc3 \<leftarrow> drain_steps n lc2;
         Some (Some lc3)
       }
   }"

partial_function (option) compress_loop :: "nat \<Rightarrow> lzss_comp \<Rightarrow> lzss_comp option option" where
  "compress_loop dstlen lc = do {
     res \<leftarrow> compress_round dstlen lc;
     case res of
       None \<Rightarrow> Some None
     | Some lc1 \<Rightarrow> if lc_len lc1 > 0 then compress_loop dstlen lc1 else Some (Some lc1)
   }"

declare compress_loop.simps [code]

primrec insert_strings :: "nat list \<Rightarrow> encode_state \<Rightarrow> encode_state option" where
  "insert_strings [] sp = Some sp"
| "insert_strings (r # rs) sp = insert_node r sp \<bind> insert_strings rs"

definition fill_buffer :: "byte list \<Rightarrow> encode_state \<Rightarrow> encode_state" where
  "fill_buffer bs sp =
     sp\<lparr>text_buf := fold (\<lambda>i tb. tb(RBSIZE - UPLIM + i := bs ! i)) [0..<length bs] (text_buf sp)\<rparr>"

text \<open>\<open>got\<close> says whether the encoding state could be allocated.\<close>

definition compress_lzss :: "bool \<Rightarrow> nat \<Rightarrow> byte list \<Rightarrow> byte list option option" where
  "compress_lzss got dstlen src =
     (let r = RBSIZE - UPLIM; first = take UPLIM src; len = length first in
      if \<not> got \<or> len = 0 then Some None
      else do {
        sp \<leftarrow> insert_strings (map (\<lambda>i. r - i) [1..<Suc UPLIM] @ [r]) (fill_buffer first init_state);
        res \<leftarrow> compress_loop dstlen \<lparr>lc_sp = sp, lc_src = drop UPLIM src, lc_dst = [], lc_flags = 0, lc_units = [],
                 lc_mask = 1, lc_len = len, lc_r = r, lc_s = 0\<rparr>;
        Some (case res of
                None \<Rightarrow> None
              | Some lc \<Rightarrow> if lc_units lc \<noteq> [] then put_code dstlen (lc_flags lc) (lc_units lc) (lc_dst lc)
                          else Some (lc_dst lc))
      })"

text \<open>
  \<open>Compression::compress\<close> into a buffer of \<open>dstlen\<close> bytes: the compressed bytes, whose number is the new \<open>dstlen\<close>.
\<close>

definition Compression_compress :: "bool \<Rightarrow> u32 \<Rightarrow> nat \<Rightarrow> byte list \<Rightarrow> byte list option option" where
  "Compression_compress got compression dstlen src =
     (if compression = ModeLZSS then compress_lzss got dstlen src else Some None)"

end
