(* ===== verification/Lzss_Trees.thy ===== *)
theory Lzss_Trees
  imports Lzss_Encode
begin

text \<open>
  The search trees of the LZSS encoder are well formed: insertion and deletion return on every well-formed forest and
  keep it so, with every index inside its array, and insertion reports a match with a live node. A rank that grows
  downwards gives termination.
\<close>

section \<open>Search trees in arrays\<close>

definition roots :: "nat set" where
  "roots = {RBSIZE + 1..RBSIZE + 256}"

text \<open>
  \<open>V\<close> are the nodes in the trees. Children and parents fit together, every node hangs on one side of its parent,
  the rank grows downwards, and all nodes of a tree have the colour of its root.
\<close>

definition trees :: "nat set \<Rightarrow> (nat \<Rightarrow> nat) \<Rightarrow> (nat \<Rightarrow> nat) \<Rightarrow> (nat \<Rightarrow> nat) \<Rightarrow> (nat \<Rightarrow> nat) \<Rightarrow> (nat \<Rightarrow> nat) \<Rightarrow> bool" where
  "trees V l r par rk col \<longleftrightarrow> V \<subseteq> {..<RBSIZE} \<and>
     (\<forall>x \<in> V \<union> roots. r x = NIL \<or> r x \<in> V \<and> par (r x) = x) \<and>
     (\<forall>x \<in> V. l x = NIL \<or> l x \<in> V \<and> par (l x) = x \<and> l x \<noteq> r x) \<and>
     (\<forall>y \<in> V. par y \<in> V \<union> roots \<and> (r (par y) = y \<or> par y \<in> V \<and> l (par y) = y)) \<and>
     (\<forall>y \<in> V. rk (par y) < (rk y :: nat)) \<and> (\<forall>y \<in> V. (col y :: nat) = col (par y))"

lemma NIL_not: "NIL \<notin> roots" "V \<subseteq> {..<RBSIZE} \<Longrightarrow> NIL \<notin> V" "V \<subseteq> {..<RBSIZE} \<Longrightarrow> x \<in> V \<Longrightarrow> x \<notin> roots"
  by (auto simp: NIL_def roots_def)

lemma treesD:
  assumes "trees V l r par rk col"
  shows "V \<subseteq> {..<RBSIZE}" and "x \<in> V \<union> roots \<Longrightarrow> r x \<noteq> NIL \<Longrightarrow> r x \<in> V \<and> par (r x) = x"
    and "x \<in> V \<Longrightarrow> l x \<noteq> NIL \<Longrightarrow> l x \<in> V \<and> par (l x) = x \<and> l x \<noteq> r x"
    and "y \<in> V \<Longrightarrow> par y \<in> V \<union> roots" and "y \<in> V \<Longrightarrow> r (par y) = y \<or> par y \<in> V \<and> l (par y) = y"
    and "y \<in> V \<Longrightarrow> rk (par y) < rk y" and "y \<in> V \<Longrightarrow> col y = col (par y)" and "NIL \<notin> V"
proof -
  note T = assms [unfolded trees_def]
  show "V \<subseteq> {..<RBSIZE}" using T by blast
  then show "NIL \<notin> V" by (rule NIL_not(2))
qed (use assms in \<open>unfold trees_def, blast+\<close>)

text \<open>A new node in a free place.\<close>

definition attached :: "nat set \<Rightarrow> (nat \<Rightarrow> nat) \<Rightarrow> (nat \<Rightarrow> nat) \<Rightarrow> (nat \<Rightarrow> nat) \<Rightarrow> bool \<Rightarrow> nat \<Rightarrow> nat
    \<Rightarrow> (nat \<Rightarrow> nat) \<Rightarrow> (nat \<Rightarrow> nat) \<Rightarrow> (nat \<Rightarrow> nat) \<Rightarrow> bool" where
  "attached V l r par right p n l' r' par' \<longleftrightarrow> n \<notin> V \<and> n < RBSIZE \<and> p \<in> V \<union> roots \<and>
     (if right then r p = NIL else l p = NIL \<and> p \<in> V) \<and> l' n = NIL \<and> r' n = NIL \<and> par' n = p \<and>
     (\<forall>x \<in> V. par' x = par x) \<and> (if right then r' p = n else l' p = n) \<and>
     (\<forall>x \<in> V. right \<or> x \<noteq> p \<longrightarrow> l' x = l x) \<and> (\<forall>x \<in> V \<union> roots. \<not> right \<or> x \<noteq> p \<longrightarrow> r' x = r x)"

lemma attachedD:
  assumes "attached V l r par right p n l' r' par'"
  shows "n \<notin> V" "n < RBSIZE" "p \<in> V \<union> roots" "if right then r p = NIL else l p = NIL \<and> p \<in> V"
    and "l' n = NIL" "r' n = NIL" "par' n = p" "x \<in> V \<Longrightarrow> par' x = par x" "if right then r' p = n else l' p = n"
    and "x \<in> V \<Longrightarrow> right \<or> x \<noteq> p \<Longrightarrow> l' x = l x" "x \<in> V \<union> roots \<Longrightarrow> \<not> right \<or> x \<noteq> p \<Longrightarrow> r' x = r x"
    and "n \<noteq> NIL" "n \<notin> roots"
  using assms unfolding attached_def by (blast | auto simp: NIL_def roots_def)+

lemma attached_right:
  assumes T: "trees V l r par rk col" and A: "attached V l r par right p n l' r' par'" and x: "x \<in> insert n V \<union> roots"
  shows "r' x = NIL \<or> r' x \<in> insert n V \<and> par' (r' x) = x"
proof (cases "x = n")
  case False
  note D = treesD [OF T] and new = attachedD [OF A]
  have xv: "x \<in> V \<union> roots" using x False by blast
  show ?thesis
  proof (cases "right \<and> x = p")
    case True
    then show ?thesis using new(7,9) by simp
  next
    case False
    then have "r' x = r x" using new(11) [OF xv] by blast
    then show ?thesis using D(2) [OF xv] new(8) [of "r x"] by auto
  qed
qed (simp add: attachedD(6) [OF A])

lemma attached_left:
  assumes T: "trees V l r par rk col" and A: "attached V l r par right p n l' r' par'" and x: "x \<in> insert n V"
  shows "l' x = NIL \<or> l' x \<in> insert n V \<and> par' (l' x) = x \<and> l' x \<noteq> r' x"
proof (cases "x = n")
  case False
  note D = treesD [OF T] and new = attachedD [OF A]
  have xv: "x \<in> V" using x False by blast
  show ?thesis
  proof (cases "\<not> right \<and> x = p")
    case True
    have "r' x = r x" by (rule new(11)) (use xv True in auto)
    then have "l' x = n" "r' x \<noteq> n" using new(9) True D(2) [of x] new(12) new(1) xv by auto
    then show ?thesis using True new(7) by simp
  next
    case False
    then have "l' x = l x" using new(10) [OF xv] by blast
    moreover have "r' x = r x \<or> r' x = n" using new(9) new(11) [of x] xv by (cases "right \<and> x = p") auto
    ultimately show ?thesis using D(3) [OF xv] new(8) [of "l x"] new(1) by auto
  qed
qed (simp add: attachedD(5) [OF A])

lemma attached_parent:
  assumes T: "trees V l r par rk col" and A: "attached V l r par right p n l' r' par'" and y: "y \<in> insert n V"
  shows "r' (par' y) = y \<or> par' y \<in> insert n V \<and> l' (par' y) = y"
proof (cases "y = n")
  case True
  then show ?thesis using attachedD(7,9,4,3) [OF A] by (auto split: if_splits)
next
  case False
  note D = treesD [OF T] and new = attachedD [OF A]
  have yv: "y \<in> V" and yn: "y \<noteq> NIL" using y False D(8) by blast+
  have "r' (par y) = y" if "r (par y) = y"
    using new(11) [OF D(4) [OF yv]] that new(4) yn by (cases "right \<and> par y = p") auto
  moreover have "l' (par y) = y" if "par y \<in> V" "l (par y) = y"
    using new(10) [of "par y"] that new(4) yn by (cases "\<not> right \<and> par y = p") auto
  ultimately show ?thesis using D(5) [OF yv] new(8) [OF yv] by auto
qed

lemma trees_attach:
  assumes T: "trees V l r par rk col" and n: "n \<notin> V" "n < RBSIZE" and p: "p \<in> V \<union> roots" and c: "col n = col p"
    and free: "if right then r p = NIL else l p = NIL \<and> p \<in> V"
    and new: "l' n = NIL" "r' n = NIL" "par' n = p" "\<And>x. x \<in> V \<Longrightarrow> par' x = par x"
      "if right then r' p = n else l' p = n"
      "\<And>x. x \<in> V \<Longrightarrow> right \<or> x \<noteq> p \<Longrightarrow> l' x = l x" "\<And>x. x \<in> V \<union> roots \<Longrightarrow> \<not> right \<or> x \<noteq> p \<Longrightarrow> r' x = r x"
  shows "trees (insert n V) l' r' par' (rk(n := Suc (rk p))) col"
proof -
  note D = treesD [OF T]
  have A: "attached V l r par right p n l' r' par'" unfolding attached_def using n p free new by blast
  have np: "n \<noteq> p" "n \<notin> roots" using n p attachedD(13) [OF A] by auto
  show ?thesis unfolding trees_def
  proof (intro conjI ballI)
    show "insert n V \<subseteq> {..<RBSIZE}" using D(1) n by auto
    fix y assume y: "y \<in> insert n V"
    show "par' y \<in> insert n V \<union> roots" using y p new(3) new(4) [of y] D(4) [of y] by auto
    show "(rk(n := Suc (rk p))) (par' y) < (rk(n := Suc (rk p))) y"
      using y new(3) new(4) [of y] np D(4,6) [of y] n by auto
    show "col y = col (par' y)" using y new(3) new(4) [of y] c D(7) [of y] by auto
  qed (use attached_right [OF T A] attached_left [OF T A] attached_parent [OF T A] in blast)+
qed

text \<open>The neighbours of the node that goes.\<close>

lemma trees_around:
  assumes T: "trees V l r par rk col" and p: "p \<in> V"
  shows "r p = NIL \<or> r p \<in> V - {p} \<and> par (r p) = p" "l p = NIL \<or> l p \<in> V - {p} \<and> par (l p) = p \<and> l p \<noteq> r p"
    and "x \<in> V \<Longrightarrow> x \<noteq> l p \<Longrightarrow> x \<noteq> r p \<Longrightarrow> par x \<noteq> p" and "x \<in> V \<Longrightarrow> x = l p \<or> x = r p \<Longrightarrow> par x = p"
    and "x = par p \<Longrightarrow> x \<in> V \<Longrightarrow> r x = p \<or> l x = p" and "p \<noteq> NIL" "p \<notin> roots" "par p \<noteq> p"
proof -
  note D = treesD [OF T]
  show pn: "p \<noteq> NIL" "p \<notin> roots" "par p \<noteq> p" using p D(1,8) D(6) [OF p] NIL_not(3) [OF D(1)] by auto
  show rp: "r p = NIL \<or> r p \<in> V - {p} \<and> par (r p) = p" using D(2) [of p] p pn(3) by auto
  show lp: "l p = NIL \<or> l p \<in> V - {p} \<and> par (l p) = p \<and> l p \<noteq> r p" using D(3) [of p] p pn(3) by auto
  show "x \<in> V \<Longrightarrow> x \<noteq> l p \<Longrightarrow> x \<noteq> r p \<Longrightarrow> par x \<noteq> p" using D(5) [of x] by auto
  show "x \<in> V \<Longrightarrow> x = l p \<or> x = r p \<Longrightarrow> par x = p" using lp rp D(8) by auto
  show "x = par p \<Longrightarrow> x \<in> V \<Longrightarrow> r x = p \<or> l x = p" using D(5) [OF p] by auto
qed

text \<open>A node with at most one child leaves; \<open>q\<close> is that child or \<open>NIL\<close>.\<close>

definition spliced :: "nat set \<Rightarrow> (nat \<Rightarrow> nat) \<Rightarrow> (nat \<Rightarrow> nat) \<Rightarrow> (nat \<Rightarrow> nat) \<Rightarrow> nat \<Rightarrow> nat
    \<Rightarrow> (nat \<Rightarrow> nat) \<Rightarrow> (nat \<Rightarrow> nat) \<Rightarrow> (nat \<Rightarrow> nat) \<Rightarrow> bool" where
  "spliced V l r par p q l' r' par' \<longleftrightarrow> p \<in> V \<and> (l p = NIL \<and> q = r p \<or> r p = NIL \<and> q = l p) \<and>
     (\<forall>x \<in> V - {p}. par' x = (if x = q then par p else par x)) \<and>
     (\<forall>x \<in> V - {p}. l' x = (if x = par p \<and> r x \<noteq> p then q else l x)) \<and>
     (\<forall>x \<in> (V - {p}) \<union> roots. r' x = (if x = par p \<and> r x = p then q else r x))"

lemma splicedD:
  assumes T: "trees V l r par rk col" and S: "spliced V l r par p q l' r' par'"
  shows "p \<in> V" and "x \<in> V - {p} \<Longrightarrow> par' x = (if x = q then par p else par x)"
    and "x \<in> V - {p} \<Longrightarrow> l' x = (if x = par p \<and> r x \<noteq> p then q else l x)"
    and "x \<in> V - {p} \<union> roots \<Longrightarrow> r' x = (if x = par p \<and> r x = p then q else r x)"
    and "q = NIL \<or> q \<in> V - {p} \<and> par q = p" and "x \<in> V \<Longrightarrow> x \<noteq> q \<Longrightarrow> par x \<noteq> p"
proof -
  show p: "p \<in> V" using S unfolding spliced_def by blast
  have q: "l p = NIL \<and> q = r p \<or> r p = NIL \<and> q = l p" using S unfolding spliced_def by blast
  then show "q = NIL \<or> q \<in> V - {p} \<and> par q = p" using trees_around(1,2) [OF T p] by auto
  show "x \<in> V \<Longrightarrow> x \<noteq> q \<Longrightarrow> par x \<noteq> p" using trees_around(3) [OF T p, of x] q treesD(8) [OF T] by (cases "x = NIL") auto
qed (use S in \<open>unfold spliced_def, blast+\<close>)

lemma spliced_right:
  assumes T: "trees V l r par rk col" and S: "spliced V l r par p q l' r' par'" and x: "x \<in> V - {p} \<union> roots"
  shows "r' x = NIL \<or> r' x \<in> V - {p} \<and> par' (r' x) = x"
proof (cases "x = par p \<and> r x = p")
  case True
  then show ?thesis using splicedD(4) [OF T S x] splicedD(2) [OF T S, of q] splicedD(5) [OF T S] by auto
next
  case False
  note D = treesD [OF T] and new = splicedD [OF T S]
  have "r x \<noteq> p" if "r x \<noteq> NIL" using D(2) [of x] x that False by auto
  moreover have "r x \<noteq> q" if "r x \<noteq> NIL" using D(2) [of x] x that new(5) trees_around(7) [OF T new(1)] by auto
  ultimately show ?thesis using new(4) [OF x] new(2) [of "r x"] False D(2) [of x] x by auto
qed

lemma spliced_left:
  assumes T: "trees V l r par rk col" and S: "spliced V l r par p q l' r' par'" and x: "x \<in> V - {p}"
  shows "l' x = NIL \<or> l' x \<in> V - {p} \<and> par' (l' x) = x \<and> l' x \<noteq> r' x"
proof -
  note D = treesD [OF T] and new = splicedD [OF T S]
  have xr: "x \<in> V - {p} \<union> roots" and xv: "x \<in> V" using x by auto
  show ?thesis
  proof (cases "x = par p \<and> r x \<noteq> p")
    case True
    then have "r x \<noteq> q \<or> q = NIL" using D(2) [of x] x new(5) trees_around(8) [OF T new(1)] by (cases "r x = NIL") auto
    then show ?thesis using True new(3) [OF x] new(4) [OF xr] new(2) [of q] new(5) by auto
  next
    case False
    then have lx: "l' x = l x" using new(3) [OF x] by auto
    show ?thesis
    proof (cases "l x = NIL")
      case ln: False
      have "l x \<noteq> q" using D(3) [OF xv ln] new(5) x ln by auto
      moreover have "l x \<noteq> p" using D(3) [OF xv ln] False by auto
      ultimately show ?thesis using lx new(2) [of "l x"] new(4) [OF xr] D(3) [OF xv ln] by auto
    qed (simp add: lx)
  qed
qed

lemma spliced_parent:
  assumes T: "trees V l r par rk col" and S: "spliced V l r par p q l' r' par'" and y: "y \<in> V - {p}"
  shows "par' y \<in> V - {p} \<union> roots" "r' (par' y) = y \<or> par' y \<in> V - {p} \<and> l' (par' y) = y"
proof -
  note D = treesD [OF T] and new = splicedD [OF T S] and A = trees_around [OF T splicedD(1) [OF T S]]
  have yv: "y \<in> V" using y by auto
  note ny = new(2) [OF y]
  show "par' y \<in> V - {p} \<union> roots" using ny new(6) [OF yv] D(4) [OF new(1)] D(4) [OF yv] A(8) by auto
  show "r' (par' y) = y \<or> par' y \<in> V - {p} \<and> l' (par' y) = y"
  proof (cases "y = q")
    case True
    then have e: "par' y = par p" using ny by auto
    then show ?thesis using new(3,4) [of "par p"] D(4,5) [OF new(1)] A(8) True by (cases "r (par p) = p") auto
  next
    case False
    then have e: "par' y = par y" "par y \<noteq> p" using ny new(6) [OF yv] by auto
    then show ?thesis using new(3,4) [of "par y"] D(4,5) [OF yv] y A(5) [of "par y"] by auto
  qed
qed

lemma trees_splice:
  assumes T: "trees V l r par rk col" and p: "p \<in> V"
    and q: "l p = NIL \<and> q = r p \<or> r p = NIL \<and> q = l p"
    and new: "\<And>x. x \<in> V - {p} \<Longrightarrow> par' x = (if x = q then par p else par x)"
      "\<And>x. x \<in> V - {p} \<Longrightarrow> l' x = (if x = par p \<and> r x \<noteq> p then q else l x)"
      "\<And>x. x \<in> (V - {p}) \<union> roots \<Longrightarrow> r' x = (if x = par p \<and> r x = p then q else r x)"
  shows "trees (V - {p}) l' r' par' rk col"
proof -
  note D = treesD [OF T]
  have S: "spliced V l r par p q l' r' par'" unfolding spliced_def using p q new by blast
  show ?thesis unfolding trees_def
  proof (intro conjI ballI)
    show "V - {p} \<subseteq> {..<RBSIZE}" using D(1) by auto
    fix y assume y: "y \<in> V - {p}"
    then have yv: "y \<in> V" by auto
    show "rk (par' y) < rk y"
      using new(1) [OF y] D(6) [OF yv] D(6) [OF p] splicedD(5) [OF T S] D(8) yv by (cases "y = q") auto
    show "col y = col (par' y)"
      using new(1) [OF y] D(7) [OF yv] D(7) [OF p] splicedD(5) [OF T S] D(8) yv by (cases "y = q") auto
  qed (use spliced_right [OF T S] spliced_left [OF T S] spliced_parent [OF T S] in blast)+
qed

text \<open>A new node takes the place of another.\<close>

definition replaced :: "nat set \<Rightarrow> (nat \<Rightarrow> nat) \<Rightarrow> (nat \<Rightarrow> nat) \<Rightarrow> (nat \<Rightarrow> nat) \<Rightarrow> nat \<Rightarrow> nat
    \<Rightarrow> (nat \<Rightarrow> nat) \<Rightarrow> (nat \<Rightarrow> nat) \<Rightarrow> (nat \<Rightarrow> nat) \<Rightarrow> bool" where
  "replaced V l r par p q l' r' par' \<longleftrightarrow> p \<in> V \<and> q \<notin> V \<and> q < RBSIZE \<and> l' q = l p \<and> r' q = r p \<and> par' q = par p \<and>
     (\<forall>x \<in> V - {p}. par' x = (if x = l p \<or> x = r p then q else par x)) \<and>
     (\<forall>x \<in> V - {p}. l' x = (if x = par p \<and> r x \<noteq> p then q else l x)) \<and>
     (\<forall>x \<in> (V - {p}) \<union> roots. r' x = (if x = par p \<and> r x = p then q else r x))"

lemma replacedD:
  assumes "replaced V l r par p q l' r' par'"
  shows "p \<in> V" "q \<notin> V" "q < RBSIZE" "l' q = l p" "r' q = r p" "par' q = par p"
    and "x \<in> V - {p} \<Longrightarrow> par' x = (if x = l p \<or> x = r p then q else par x)"
    and "x \<in> V - {p} \<Longrightarrow> l' x = (if x = par p \<and> r x \<noteq> p then q else l x)"
    and "x \<in> V - {p} \<union> roots \<Longrightarrow> r' x = (if x = par p \<and> r x = p then q else r x)"
    and "q \<noteq> NIL" "q \<notin> roots"
  using assms unfolding replaced_def by (blast | auto simp: NIL_def roots_def)+

lemma replaced_right:
  assumes T: "trees V l r par rk col" and R: "replaced V l r par p q l' r' par'" and x: "x \<in> insert q (V - {p}) \<union> roots"
  shows "r' x = NIL \<or> r' x \<in> insert q (V - {p}) \<and> par' (r' x) = x"
proof (cases "x = q")
  case True
  then show ?thesis using replacedD(5) [OF R] replacedD(7) [OF R, of "r p"] trees_around(1) [OF T replacedD(1) [OF R]] by auto
next
  case False
  note D = treesD [OF T] and new = replacedD [OF R] and A = trees_around [OF T replacedD(1) [OF R]]
  have xr: "x \<in> V - {p} \<union> roots" using x False by auto
  show ?thesis
  proof (cases "r x = p \<or> r x = NIL")
    case True
    then show ?thesis using new(6) new(9) [OF xr] D(2) [of x] xr A(6) by auto
  next
    case rx: False
    then have "r x \<in> V" "par (r x) = x" using D(2) [of x] xr by auto
    moreover from this have "r x \<noteq> l p" "r x \<noteq> r p" using A(4) [of "r x"] xr A(7) by auto
    ultimately show ?thesis using rx new(9) [OF xr] new(7) [of "r x"] by auto
  qed
qed

lemma replaced_left:
  assumes T: "trees V l r par rk col" and R: "replaced V l r par p q l' r' par'" and x: "x \<in> insert q (V - {p})"
  shows "l' x = NIL \<or> l' x \<in> insert q (V - {p}) \<and> par' (l' x) = x \<and> l' x \<noteq> r' x"
proof (cases "x = q")
  case True
  then show ?thesis using replacedD(4,5) [OF R] replacedD(7) [OF R, of "l p"] trees_around(2) [OF T replacedD(1) [OF R]] by auto
next
  case False
  note D = treesD [OF T] and new = replacedD [OF R] and A = trees_around [OF T replacedD(1) [OF R]]
  have xr: "x \<in> V - {p} \<union> roots" and xv: "x \<in> V - {p}" using x False by auto
  have nr: "r x \<noteq> q" using D(2) [of x] xr new(2,10) by auto
  show ?thesis
  proof (cases "l x = NIL \<or> l x = p")
    case True
    then have "l' x = NIL \<or> par p = x \<and> r x \<noteq> p" using new(8) [OF xv] D(3) [of x] xv A(6) A(5) [of x] by auto
    then show ?thesis using new(6) new(8) [OF xv] new(9) [OF xr] nr by auto
  next
    case lx: False
    then have l: "l x \<in> V" "par (l x) = x" "l x \<noteq> r x" using D(3) [of x] xv by auto
    from l have "l x \<noteq> l p" "l x \<noteq> r p" using A(4) [of "l x"] xv by auto
    then show ?thesis
      using l lx new(8) [OF xv] new(9) [OF xr] new(7) [of "l x"] A(5) [of x] xv new(2) by auto
  qed
qed

lemma replaced_parent:
  assumes T: "trees V l r par rk col" and R: "replaced V l r par p q l' r' par'" and y: "y \<in> insert q (V - {p})"
  shows "par' y \<in> insert q (V - {p}) \<union> roots" "r' (par' y) = y \<or> par' y \<in> insert q (V - {p}) \<and> l' (par' y) = y"
proof -
  note D = treesD [OF T] and new = replacedD [OF R] and A = trees_around [OF T replacedD(1) [OF R]]
  show "par' y \<in> insert q (V - {p}) \<union> roots"
    using y new(6) new(7) [of y] A(3) [of y] D(4) [OF new(1)] D(4) [of y] A(8)
    by (cases "y = q"; cases "y = l p \<or> y = r p") auto
  show "r' (par' y) = y \<or> par' y \<in> insert q (V - {p}) \<and> l' (par' y) = y"
  proof (cases "y = q")
    case True
    then show ?thesis using new(6) new(8,9) [of "par p"] D(4,5) [OF new(1)] A(8) by (cases "r (par p) = p") auto
  next
    case False
    then have yv: "y \<in> V" "y \<noteq> p" using y by auto
    show ?thesis
    proof (cases "y = l p \<or> y = r p")
      case True
      then show ?thesis using new(4,5) new(7) [of y] yv by auto
    next
      case k: False
      then have "par' y = par y" "par y \<noteq> p" using new(7) [of y] A(3) [of y] yv by auto
      then show ?thesis using new(8,9) [of "par y"] D(4,5) [OF yv(1)] yv A(5) [of "par y"] by auto
    qed
  qed
qed

lemma trees_replace:
  assumes T: "trees V l r par rk col" and p: "p \<in> V" and q: "q \<notin> V" "q < RBSIZE" "col q = col p"
    and new: "l' q = l p" "r' q = r p" "par' q = par p"
      "\<And>x. x \<in> V - {p} \<Longrightarrow> par' x = (if x = l p \<or> x = r p then q else par x)"
      "\<And>x. x \<in> V - {p} \<Longrightarrow> l' x = (if x = par p \<and> r x \<noteq> p then q else l x)"
      "\<And>x. x \<in> (V - {p}) \<union> roots \<Longrightarrow> r' x = (if x = par p \<and> r x = p then q else r x)"
  shows "trees (insert q (V - {p})) l' r' par' (rk(q := rk p)) col"
proof -
  note D = treesD [OF T]
  have R: "replaced V l r par p q l' r' par'" unfolding replaced_def using p q(1,2) new by blast
  show ?thesis unfolding trees_def
  proof (intro conjI ballI)
    show "insert q (V - {p}) \<subseteq> {..<RBSIZE}" using D(1) q by auto
    fix y assume y: "y \<in> insert q (V - {p})"
    have "par y \<noteq> q" if "y \<in> V" using D(4) [OF that] q replacedD(11) [OF R] by auto
    then show "(rk(q := rk p)) (par' y) < (rk(q := rk p)) y"
      using y new(3) new(4) [of y] D(6) [OF p] D(6) [of y] trees_around(4) [OF T p, of y] D(4) [OF p] q replacedD(11) [OF R]
      by (cases "y = q"; cases "y = l p \<or> y = r p") auto
    show "col y = col (par' y)"
      using y new(3) new(4) [of y] D(7) [OF p] D(7) [of y] trees_around(4) [OF T p, of y] q
      by (cases "y = q"; cases "y = l p \<or> y = r p") auto
  qed (use replaced_right [OF T R] replaced_left [OF T R] replaced_parent [OF T R] in blast)+
qed

section \<open>The trees of the encoder\<close>

definition colour :: "(nat \<Rightarrow> byte) \<Rightarrow> nat \<Rightarrow> nat" where
  "colour tb x = (if x < RBSIZE then unat (tb x) else x - (RBSIZE + 1))"

definition forest :: "nat set \<Rightarrow> encode_state \<Rightarrow> bool" where
  "forest V sp \<longleftrightarrow> (\<exists>rk. trees V (lchild sp) (rchild sp) (parent sp) rk (colour (text_buf sp))) \<and>
     (\<forall>x < RBSIZE. x \<notin> V \<longrightarrow> parent sp x = NIL)"

lemma forest_node_iff:
  assumes "forest V sp" "x < RBSIZE"
  shows "parent sp x = NIL \<longleftrightarrow> x \<notin> V"
proof
  obtain rk where T: "trees V (lchild sp) (rchild sp) (parent sp) rk (colour (text_buf sp))"
    using assms(1) unfolding forest_def by blast
  show "x \<notin> V" if "parent sp x = NIL"
    using treesD(4) [OF T, of x] treesD(8) [OF T] NIL_not(1) that by auto
qed (use assms in \<open>auto simp: forest_def\<close>)

lemma forest_init: "forest {} (fill_buffer bs init_state)"
  unfolding forest_def trees_def fill_buffer_def init_state_def roots_def by simp

lemma forest_finite: "forest V sp \<Longrightarrow> finite V \<and> V \<subseteq> {..<RBSIZE}"
  unfolding forest_def trees_def using finite_subset by blast

text \<open>The text may change where no node is.\<close>

lemma forest_text:
  assumes "forest V sp" "\<And>x. x \<in> V \<Longrightarrow> tb x = text_buf sp x"
  shows "forest V (sp\<lparr>text_buf := tb\<rparr>)"
proof -
  obtain rk where T: "trees V (lchild sp) (rchild sp) (parent sp) rk (colour (text_buf sp))"
    using assms(1) unfolding forest_def by blast
  note D = treesD [OF T]
  have "colour tb x = colour (text_buf sp) x" if "x \<in> V \<union> roots" for x
    using that assms(2) by (auto simp: colour_def roots_def)
  then have "colour tb y = colour tb (parent sp y)" if "y \<in> V" for y
    using D(4) [OF that] D(7) [OF that] that by auto
  then have "trees V (lchild sp) (rchild sp) (parent sp) rk (colour tb)"
    using T unfolding trees_def by blast
  then show ?thesis using assms(1) unfolding forest_def by auto
qed

text \<open>The match found last: a node, and as many equal bytes as its length.\<close>

definition matched :: "nat set \<Rightarrow> nat \<Rightarrow> encode_state \<Rightarrow> bool" where
  "matched V r sp \<longleftrightarrow> match_length sp \<le> UPLIM \<and>
     (match_length sp \<noteq> 0 \<longrightarrow> match_position sp \<in> V \<and>
        (\<forall>i < match_length sp. text_buf sp (r + i) = text_buf sp (match_position sp + i)))"

lemma set_in [simp]:
  "i < RBSIZE + 1 \<Longrightarrow> set_lchild i v sp = Some (sp\<lparr>lchild := (lchild sp)(i := v)\<rparr>)"
  "i < RBSIZE + 257 \<Longrightarrow> set_rchild i v sp = Some (sp\<lparr>rchild := (rchild sp)(i := v)\<rparr>)"
  "i < RBSIZE + 1 \<Longrightarrow> set_parent i v sp = Some (sp\<lparr>parent := (parent sp)(i := v)\<rparr>)"
  "i < RBSIZE + UPLIM - 1 \<Longrightarrow> set_text i c sp = Some (sp\<lparr>text_buf := (text_buf sp)(i := c)\<rparr>)"
  by (simp_all add: set_lchild_def set_rchild_def set_parent_def set_text_def)

lemma trees_range:
  assumes "trees V l r par rk col"
  shows "x \<in> V \<Longrightarrow> x < RBSIZE" "x \<in> V \<union> roots \<Longrightarrow> x < RBSIZE + 257"
    and "x \<in> V \<Longrightarrow> l x < RBSIZE + 1" "x \<in> V \<union> roots \<Longrightarrow> r x < RBSIZE + 1" "x \<in> V \<Longrightarrow> par x < RBSIZE + 257"
    and "x \<in> V \<Longrightarrow> r (par x) = x \<or> par x < RBSIZE + 1"
proof -
  note D = treesD [OF assms]
  show v: "x \<in> V \<Longrightarrow> x < RBSIZE" for x using D(1) by auto
  show w: "x \<in> V \<union> roots \<Longrightarrow> x < RBSIZE + 257" for x using v [of x] by (auto simp: roots_def)
  show "x \<in> V \<Longrightarrow> l x < RBSIZE + 1" using D(3) [of x] v [of "l x"] by (cases "l x = NIL") (auto simp: NIL_def)
  show "x \<in> V \<union> roots \<Longrightarrow> r x < RBSIZE + 1" using D(2) [of x] v [of "r x"] by (cases "r x = NIL") (auto simp: NIL_def)
  show "x \<in> V \<Longrightarrow> par x < RBSIZE + 257" using D(4) w by blast
  show "x \<in> V \<Longrightarrow> r (par x) = x \<or> par x < RBSIZE + 1" using D(5) [of x] v [of "par x"] by auto
qed

lemma match_scan_returns:
  "i + n \<le> UPLIM \<Longrightarrow> r < RBSIZE \<Longrightarrow> p < RBSIZE \<Longrightarrow> \<exists>res. match_scan tb r p n i = Some res"
  by (induction n arbitrary: i) (auto simp: Let_def)

lemma match_scan_equal:
  assumes "match_scan tb r p n i = Some (j, cmp)"
  shows "i \<le> j \<and> j \<le> i + n \<and> (\<forall>k. i \<le> k \<and> k < j \<longrightarrow> tb (r + k) = tb (p + k)) \<and> (j < i + n \<longrightarrow> cmp \<noteq> 0)"
  using assms
proof (induction n arbitrary: i)
  case (Suc n)
  show ?case
  proof (cases "tb (r + i) = tb (p + i)")
    case True
    then have "match_scan tb r p n (Suc i) = Some (j, cmp)" using Suc.prems by (auto simp: arr_get_def split: bind_splits if_splits)
    note IH = Suc.IH [OF this]
    have "tb (r + k) = tb (p + k)" if "i \<le> k" "k < j" for k
      using IH that True by (cases "k = i") auto
    then show ?thesis using IH by auto
  next
    case False
    then have "uint (tb (r + i)) - uint (tb (p + i)) \<noteq> 0" by (auto dest: unsigned_word_eqI)
    then show ?thesis using Suc.prems by (auto simp: arr_get_def split: bind_splits if_splits)
  qed
qed auto

lemma smaller_below:
  assumes "finite V" "y \<in> V" "rk p < (rk y :: nat)"
  shows "card {z \<in> V. rk y < rk z} < card {z \<in> V. rk p < rk z}"
  using assms by (intro psubset_card_mono) auto

text \<open>Where a walk for a new node ends: in a free place, or at a node that matches in full.\<close>

definition links :: "encode_state \<Rightarrow> (nat \<Rightarrow> nat) \<times> (nat \<Rightarrow> nat) \<times> (nat \<Rightarrow> nat) \<times> (nat \<Rightarrow> byte)" where
  "links sp = (lchild sp, rchild sp, parent sp, text_buf sp)"

lemma forest_links: "links sp' = links sp \<Longrightarrow> forest V sp' = forest V sp"
  by (simp add: links_def forest_def)

lemma insert_loop_ok:
  assumes T: "trees V (lchild sp) (rchild sp) (parent sp) rk (colour (text_buf sp))" and V: "finite V"
    and r: "r \<notin> V" "r < RBSIZE" "lchild sp r = NIL" "rchild sp r = NIL"
    and "p \<in> V \<union> roots" "cmp \<ge> 0 \<or> p \<in> V" "colour (text_buf sp) p = unat (text_buf sp r)" "matched V r sp"
    and "match_length sp < UPLIM"
  shows "\<exists>full sp' rk'. insert_loop r cmp p sp = Some (full, sp') \<and> matched V r sp' \<and> text_buf sp' = text_buf sp \<and>
    (case full of
       None \<Rightarrow> trees (insert r V) (lchild sp') (rchild sp') (parent sp') rk' (colour (text_buf sp)) \<and>
               (\<forall>x. x \<noteq> r \<longrightarrow> parent sp' x = parent sp x) \<and> match_length sp' < UPLIM
     | Some q \<Rightarrow> q \<in> V \<and> links sp' = links sp \<and> text_buf sp q = text_buf sp r \<and>
               match_length sp' = UPLIM \<and> match_position sp' = q)"
  using assms
proof (induction "card {z \<in> V. rk p < rk z}" arbitrary: cmp p sp rule: less_induct)
  case less
  note T = less.prems(1) and D = treesD [OF less.prems(1)]
  define nd where "nd = (if cmp \<ge> 0 then rchild sp p else lchild sp p)"
  have rg: "p < RBSIZE + 257" "cmp \<ge> 0 \<or> p < RBSIZE + 1" "r < RBSIZE + 1"
    using trees_range(1,2) [OF T, of p] less.prems(4,7,8) by auto
  have eq: "insert_loop r cmp p sp =
    (if nd = NIL then Some (None, if cmp \<ge> 0 then sp\<lparr>rchild := (rchild sp)(p := r), parent := (parent sp)(r := p)\<rparr>
                    else sp\<lparr>lchild := (lchild sp)(p := r), parent := (parent sp)(r := p)\<rparr>)
      else do {
        (i, cmp1) \<leftarrow> match_scan (text_buf sp) r nd (UPLIM - 1) 1;
        if i > match_length sp then
          (let sp1 = sp\<lparr>match_position := nd, match_length := i\<rparr> in
           if i \<ge> UPLIM then Some (Some nd, sp1) else insert_loop r cmp1 nd sp1)
        else insert_loop r cmp1 nd sp })"
    unfolding nd_def using rg by (subst insert_loop.simps) auto
  show ?case
  proof (cases "nd = NIL")
    case True
    have rp: "r \<noteq> p" using less.prems(3,4,7) NIL_not by (auto simp: roots_def)
    have c: "colour (text_buf sp) r = colour (text_buf sp) p" using less.prems(4,9) by (simp add: colour_def)
    let ?sp = "if cmp \<ge> 0 then sp\<lparr>rchild := (rchild sp)(p := r), parent := (parent sp)(r := p)\<rparr>
                    else sp\<lparr>lchild := (lchild sp)(p := r), parent := (parent sp)(r := p)\<rparr>"
    have "trees (insert r V) (lchild ?sp) (rchild ?sp) (parent ?sp) (rk(r := Suc (rk p))) (colour (text_buf sp))"
      by (rule trees_attach [OF T less.prems(3,4,7) c, of "cmp \<ge> 0"])
        (use less.prems(3,5,6,8) rp True nd_def in \<open>auto split: if_splits\<close>)
    moreover have "matched V r ?sp" using less.prems(10) by (simp add: matched_def)
    moreover have "text_buf ?sp = text_buf sp" "\<forall>x. x \<noteq> r \<longrightarrow> parent ?sp x = parent sp x" "match_length ?sp < UPLIM"
      using less.prems(11) by auto
    ultimately show ?thesis unfolding eq using True by (intro exI [of _ None] exI [of _ ?sp] exI) auto
  next
    case False
    have nx: "nd \<in> V" "parent sp nd = p"
      using False less.prems(7,8) D(2) [of p] D(3) [of p] by (auto simp: nd_def split: if_splits)
    have rk: "rk p < rk nd" using D(6) [OF nx(1)] nx(2) by simp
    have cn: "colour (text_buf sp) nd = unat (text_buf sp r)" using D(7) [OF nx(1)] nx(2) less.prems(9) by simp
    then have tn: "text_buf sp nd = text_buf sp r" using nx(1) D(1) by (auto simp: colour_def unsigned_word_eqI)
    obtain i cmp1 where ms: "match_scan (text_buf sp) r nd (UPLIM - 1) 1 = Some (i, cmp1)"
      using match_scan_returns [of 1 "UPLIM - 1" r nd "text_buf sp"] trees_range(1) [OF T nx(1)] less.prems(4) by (auto simp: UPLIM_def)
    note S = match_scan_equal [OF ms]
    define sp1 where "sp1 = (if i > match_length sp then sp\<lparr>match_position := nd, match_length := i\<rparr> else sp)"
    have tie: "text_buf sp (r + k) = text_buf sp (nd + k)" if "k < i" for k
      using S tn that by (cases k) auto
    have m1: "matched V r sp1" using less.prems(10) S nx(1) tie by (auto simp: matched_def sp1_def UPLIM_def)
    have l1: "lchild sp1 = lchild sp" "rchild sp1 = rchild sp" "parent sp1 = parent sp" "text_buf sp1 = text_buf sp"
      "links sp1 = links sp" by (auto simp: sp1_def links_def)
    show ?thesis
    proof (cases "i > match_length sp \<and> i \<ge> UPLIM")
      case True
      then have "insert_loop r cmp p sp = Some (Some nd, sp1)" unfolding eq using False ms by (simp add: sp1_def)
      moreover have "match_length sp1 = UPLIM" "match_position sp1 = nd" using True S by (auto simp: sp1_def UPLIM_def)
      ultimately show ?thesis using m1 l1 nx(1) tn by (intro exI [of _ "Some nd"] exI [of _ sp1]) auto
    next
      case go: False
      then have e: "insert_loop r cmp p sp = insert_loop r cmp1 nd sp1"
        unfolding eq using False ms by (auto simp: sp1_def)
      have ml: "match_length sp1 < UPLIM" using go less.prems(11) by (auto simp: sp1_def)
      have "\<exists>full sp' rk'. insert_loop r cmp1 nd sp1 = Some (full, sp') \<and> matched V r sp' \<and> text_buf sp' = text_buf sp1 \<and>
        (case full of
           None \<Rightarrow> trees (insert r V) (lchild sp') (rchild sp') (parent sp') rk' (colour (text_buf sp1)) \<and>
                   (\<forall>x. x \<noteq> r \<longrightarrow> parent sp' x = parent sp1 x) \<and> match_length sp' < UPLIM
         | Some q \<Rightarrow> q \<in> V \<and> links sp' = links sp1 \<and> text_buf sp1 q = text_buf sp1 r \<and>
                   match_length sp' = UPLIM \<and> match_position sp' = q)"
        by (rule less.hyps [OF smaller_below]) (use less.prems(1-6) rk nx(1) m1 cn ml in \<open>simp_all add: l1\<close>)
      then show ?thesis unfolding e l1 .
    qed
  qed
qed

lemma trees_cong:
  assumes "trees V l r par rk col"
    and "\<And>x. x \<in> V \<Longrightarrow> l' x = l x" "\<And>x. x \<in> V \<union> roots \<Longrightarrow> r' x = r x" "\<And>x. x \<in> V \<Longrightarrow> par' x = par x"
  shows "trees V l' r' par' rk col"
proof -
  note D = treesD [OF assms(1)]
  have "r' (par' y) = y \<or> par' y \<in> V \<and> l' (par' y) = y" if "y \<in> V" for y
    using D(4,5) [OF that] assms(2,3) [of "par y"] assms(4) [OF that] by auto
  moreover have "r' x = NIL \<or> r' x \<in> V \<and> par' (r' x) = x" if "x \<in> V \<union> roots" for x
    using D(2) [OF that] assms(3) [OF that] assms(4) [of "r x"] by auto
  moreover have "l' x = NIL \<or> l' x \<in> V \<and> par' (l' x) = x \<and> l' x \<noteq> r' x" if "x \<in> V" for x
    using D(3) [OF that] assms(2,3) [of x] assms(4) [of "l x"] that by auto
  moreover have "par' y \<in> V \<union> roots \<and> rk (par' y) < rk y \<and> col y = col (par' y)" if "y \<in> V" for y
    using D(4,6,7) [OF that] assms(4) [OF that] by simp
  ultimately show ?thesis using D(1) unfolding trees_def by blast
qed

text \<open>What taking out a node \<open>p\<close> ends with.\<close>

definition delete_tail :: "nat \<Rightarrow> nat \<Rightarrow> encode_state \<Rightarrow> encode_state" where
  "delete_tail p q sp =
     sp\<lparr>parent := (parent sp)(q := parent sp p, p := NIL),
        rchild := (if rchild sp (parent sp p) = p then (rchild sp)(parent sp p := q) else rchild sp),
        lchild := (if rchild sp (parent sp p) = p then lchild sp else (lchild sp)(parent sp p := q))\<rparr>"

lemma replace_node_links:
  assumes ne: "p \<noteq> r" "lchild sp p \<noteq> r" "lchild sp p \<noteq> p" "rchild sp p \<noteq> p" "parent sp p \<noteq> r"
    and rg: "p < RBSIZE + 1" "r < RBSIZE + 1" "lchild sp p < RBSIZE + 1" "rchild sp p < RBSIZE + 1" "parent sp p < RBSIZE + 257"
      "rchild sp (parent sp p) = p \<or> parent sp p < RBSIZE + 1"
  shows "replace_node r p sp = Some (sp\<lparr>
      parent := (parent sp)(r := parent sp p, lchild sp p := r, rchild sp p := r, p := NIL),
      rchild := (if rchild sp (parent sp p) = p then (rchild sp)(r := rchild sp p, parent sp p := r) else (rchild sp)(r := rchild sp p)),
      lchild := (if rchild sp (parent sp p) = p then (lchild sp)(r := lchild sp p) else (lchild sp)(r := lchild sp p, parent sp p := r))\<rparr>)"
proof -
  have "replace_node r p sp = relink p r (sp\<lparr>lchild := (lchild sp)(r := lchild sp p), rchild := (rchild sp)(r := rchild sp p),
      parent := (parent sp)(r := parent sp p, lchild sp p := r, rchild sp p := r)\<rparr>)"
    unfolding replace_node_def using ne rg by simp
  then show ?thesis using ne rg by (auto simp: relink_def)
qed

lemma replace_node_forest:
  assumes F: "forest V sp" and p: "p \<in> V" and r: "r \<notin> V" "r < RBSIZE" "text_buf sp p = text_buf sp r"
  shows "\<exists>sp'. replace_node r p sp = Some sp' \<and> forest (insert r (V - {p})) sp' \<and> text_buf sp' = text_buf sp \<and>
    match_position sp' = match_position sp \<and> match_length sp' = match_length sp"
proof -
  obtain rk where T: "trees V (lchild sp) (rchild sp) (parent sp) rk (colour (text_buf sp))"
    using F unfolding forest_def by blast
  note D = treesD [OF T]
  have pl: "p < RBSIZE" "p \<noteq> r" "r \<noteq> NIL" "p \<noteq> NIL" using p r D(1) by (auto simp: NIL_def)
  have rp: "rchild sp p = NIL \<or> rchild sp p \<in> V \<and> parent sp (rchild sp p) = p" using D(2) [of p] p by blast
  have lp: "lchild sp p = NIL \<or> lchild sp p \<in> V \<and> parent sp (lchild sp p) = p" using D(3) [OF p] by blast
  have ne: "lchild sp p \<noteq> r" "rchild sp p \<noteq> r" "lchild sp p \<noteq> p" "rchild sp p \<noteq> p" "parent sp p \<noteq> r"
    using rp lp r(1) pl D(6) [OF p] D(4) [OF p] r(2) by (auto simp: roots_def)
  have "p < RBSIZE + 1" "r < RBSIZE + 1" "p \<in> V \<union> roots" using pl r p by auto
  note links = replace_node_links [OF pl(2) ne(1,3,4,5) this(1,2) trees_range(3) [OF T p] trees_range(4) [OF T this(3)]
    trees_range(5) [OF T p] trees_range(6) [OF T p]]
  define sp' where "sp' = the (replace_node r p sp)"
  have par: "parent sp' = (parent sp)(r := parent sp p, lchild sp p := r, rchild sp p := r, p := NIL)"
    and rc: "rchild sp' = (if rchild sp (parent sp p) = p then (rchild sp)(r := rchild sp p, parent sp p := r)
      else (rchild sp)(r := rchild sp p))"
    and lc: "lchild sp' = (if rchild sp (parent sp p) = p then (lchild sp)(r := lchild sp p)
      else (lchild sp)(r := lchild sp p, parent sp p := r))"
    and same: "replace_node r p sp = Some sp'" "text_buf sp' = text_buf sp" "match_position sp' = match_position sp"
      "match_length sp' = match_length sp"
    unfolding sp'_def links by simp_all
  have c: "colour (text_buf sp) r = colour (text_buf sp) p" using pl r by (simp add: colour_def)
  have rr: "r \<notin> roots" using r by (auto simp: roots_def)
  have "trees (insert r (V - {p})) (lchild sp') (rchild sp') (parent sp') (rk(r := rk p)) (colour (text_buf sp))"
  proof (rule trees_replace [OF T p r(1,2) c])
    show "lchild sp' r = lchild sp p" "rchild sp' r = rchild sp p" "parent sp' r = parent sp p"
      using ne pl by (simp_all add: par rc lc)
    show "parent sp' x = (if x = lchild sp p \<or> x = rchild sp p then r else parent sp x)" if "x \<in> V - {p}" for x
      using that r(1) by (auto simp: par)
    show "lchild sp' x = (if x = parent sp p \<and> rchild sp x \<noteq> p then r else lchild sp x)" if "x \<in> V - {p}" for x
      using that r(1) by (auto simp: lc)
    show "rchild sp' x = (if x = parent sp p \<and> rchild sp x = p then r else rchild sp x)" if "x \<in> V - {p} \<union> roots" for x
      using that r(1) rr by (auto simp: rc)
  qed
  moreover have "parent sp' x = NIL" if "x < RBSIZE" "x \<notin> insert r (V - {p})" for x
  proof (cases "x = p")
    case False
    then have "x \<noteq> r" "x \<notin> V" using that by auto
    moreover have "x \<noteq> lchild sp p" "x \<noteq> rchild sp p"
      using D(2,3) [of p] p \<open>x \<notin> V\<close> that(1) by (auto simp: NIL_def)
    ultimately show ?thesis using F that by (simp add: par forest_def)
  qed (simp add: par)
  ultimately show ?thesis using same unfolding forest_def by auto
qed

text \<open>A new node joins the trees; a node that matches in full, which is the match that is reported, leaves them.\<close>

theorem insert_node_ok:
  assumes F: "forest V sp" and r: "r \<notin> V" "r < RBSIZE"
  shows "\<exists>sp'. insert_node r sp = Some sp' \<and>
    forest (if match_length sp' = UPLIM then insert r V - {match_position sp'} else insert r V) sp' \<and>
    text_buf sp' = text_buf sp \<and> matched V r sp'"
proof -
  let ?p = "RBSIZE + 1 + unat (text_buf sp r)"
  define sp0 where "sp0 = sp\<lparr>lchild := (lchild sp)(r := NIL), rchild := (rchild sp)(r := NIL), match_length := 0\<rparr>"
  obtain rk where T: "trees V (lchild sp) (rchild sp) (parent sp) rk (colour (text_buf sp))"
    using F unfolding forest_def by blast
  have rr: "r \<notin> roots" using r by (auto simp: roots_def)
  have T0: "trees V (lchild sp0) (rchild sp0) (parent sp0) rk (colour (text_buf sp0))"
    unfolding sp0_def by (simp, rule trees_cong [OF T]) (use r rr in auto)
  have b: "unat (text_buf sp r) < 256" using unsigned_less [of "text_buf sp r"] by simp
  have "\<exists>full sp1 rk'. insert_loop r 1 ?p sp0 = Some (full, sp1) \<and> matched V r sp1 \<and> text_buf sp1 = text_buf sp0 \<and>
    (case full of
       None \<Rightarrow> trees (insert r V) (lchild sp1) (rchild sp1) (parent sp1) rk' (colour (text_buf sp0)) \<and>
               (\<forall>x. x \<noteq> r \<longrightarrow> parent sp1 x = parent sp0 x) \<and> match_length sp1 < UPLIM
     | Some q \<Rightarrow> q \<in> V \<and> links sp1 = links sp0 \<and> text_buf sp0 q = text_buf sp0 r \<and>
               match_length sp1 = UPLIM \<and> match_position sp1 = q)"
    by (rule insert_loop_ok [OF T0])
      (use r b forest_finite [OF F] in \<open>auto simp: sp0_def roots_def colour_def matched_def UPLIM_def\<close>)
  then obtain full sp1 rk' where L: "insert_loop r 1 ?p sp0 = Some (full, sp1)" "matched V r sp1" "text_buf sp1 = text_buf sp"
    and C: "case full of
       None \<Rightarrow> trees (insert r V) (lchild sp1) (rchild sp1) (parent sp1) rk' (colour (text_buf sp0)) \<and>
               (\<forall>x. x \<noteq> r \<longrightarrow> parent sp1 x = parent sp0 x) \<and> match_length sp1 < UPLIM
     | Some q \<Rightarrow> q \<in> V \<and> links sp1 = links sp0 \<and> text_buf sp0 q = text_buf sp0 r \<and>
               match_length sp1 = UPLIM \<and> match_position sp1 = q"
    by (auto simp: sp0_def)
  have e: "insert_node r sp = (case full of None \<Rightarrow> Some sp1 | Some q \<Rightarrow> replace_node r q sp1)"
    unfolding insert_node_def using L(1) r(2) by (simp add: sp0_def UPLIM_def)
  show ?thesis
  proof (cases full)
    case None
    have "forest (insert r V) sp1"
      using C None F L(3) unfolding forest_def by (auto simp: sp0_def)
    then show ?thesis unfolding e using None L C by auto
  next
    case (Some q)
    have q: "q \<in> V" "links sp1 = links sp0" "text_buf sp q = text_buf sp r" "match_length sp1 = UPLIM" "match_position sp1 = q"
      using C Some by (auto simp: sp0_def)
    have "forest V sp0" using T0 F unfolding forest_def by (auto simp: sp0_def)
    then have "forest V sp1" using forest_links [OF q(2)] by simp
    then obtain sp2 where R: "replace_node r q sp1 = Some sp2" "forest (insert r (V - {q})) sp2" "text_buf sp2 = text_buf sp1"
      "match_position sp2 = match_position sp1" "match_length sp2 = match_length sp1"
      using replace_node_forest [of V sp1 q r] q r L by auto
    have "insert r (V - {q}) = insert r V - {q}" using q(1) r(1) by auto
    moreover have "matched V r sp2" using L(2) R by (simp add: matched_def)
    ultimately show ?thesis unfolding e using Some L R q by (intro exI [of _ sp2]) auto
  qed
qed

corollary insert_node_within:
  assumes "forest V sp" "r \<notin> V" "r < RBSIZE"
  shows "\<exists>sp' V'. insert_node r sp = Some sp' \<and> forest V' sp' \<and> V' \<subseteq> insert r V \<and> text_buf sp' = text_buf sp \<and> matched V r sp'"
proof -
  obtain sp' where "insert_node r sp = Some sp'" "text_buf sp' = text_buf sp" "matched V r sp'"
    "forest (if match_length sp' = UPLIM then insert r V - {match_position sp'} else insert r V) sp'"
    using insert_node_ok [OF assms] by blast
  moreover have "(if match_length sp' = UPLIM then insert r V - {match_position sp'} else insert r V) \<subseteq> insert r V" by auto
  ultimately show ?thesis by blast
qed

lemma rightmost_ok:
  assumes T: "trees V (lchild sp) (rchild sp) (parent sp) rk col" and V: "finite V" and a: "a \<in> V"
  shows "\<exists>q. rightmost a sp = Some q \<and> q \<in> V \<and> rchild sp q = NIL \<and> rk a \<le> rk q \<and> col q = col a \<and>
    (q = a \<or> rchild sp (parent sp q) = q \<and> rk a \<le> rk (parent sp q))"
  using a
proof (induction "card {z \<in> V. rk a < rk z}" arbitrary: a rule: less_induct)
  case less
  note D = treesD [OF T]
  show ?case
  proof (cases "rchild sp a = NIL")
    case True
    then show ?thesis using less.prems trees_range(1) [OF T less.prems] by (subst rightmost.simps) auto
  next
    case False
    define b where "b = rchild sp a"
    have b: "b \<in> V" "parent sp b = a" using D(2) [of a] less.prems False by (auto simp: b_def)
    have rk: "rk a < rk b" "col b = col a" using D(6,7) [OF b(1)] b(2) by auto
    obtain q where "rightmost b sp = Some q" "q \<in> V" "rchild sp q = NIL" "rk b \<le> rk q" "col q = col b"
      "q = b \<or> rchild sp (parent sp q) = q \<and> rk b \<le> rk (parent sp q)"
      using less.hyps [OF smaller_below [OF V b(1) rk(1)] b(1)] by auto
    moreover have "rightmost a sp = rightmost b sp"
      using trees_range(1) [OF T less.prems] by (subst rightmost.simps) (simp add: False b_def)
    ultimately show ?thesis using rk b by (intro exI [of _ q]) (auto simp: b_def)
  qed
qed

text \<open>A node \<open>q\<close> below \<open>p\<close> with no right child takes the place of \<open>p\<close>.\<close>

lemma trees_promote:
  assumes T: "trees V l r par rk col" and p: "p \<in> V" and q: "q \<in> V" "q \<noteq> p" "r q = NIL" "col q = col p"
    and new: "l' q = (if par q = p \<and> r p \<noteq> q then l q else l p)" "r' q = (if r p = q then NIL else r p)" "par' q = par p"
      "rk p < rk q"
      "\<And>x. x \<in> V - {p, q} \<Longrightarrow> par' x = (if x = l p \<or> x = r p then q else if x = l q then if par q = p then q else par q else par x)"
      "\<And>x. x \<in> V - {p, q} \<Longrightarrow> l' x = (if x = par p \<and> r x \<noteq> p then q else if x = par q \<and> r x \<noteq> q then l q else l x)"
      "\<And>x. x \<in> (V - {p, q}) \<union> roots \<Longrightarrow> r' x = (if x = par p \<and> r x = p then q else if x = par q \<and> r x = q then l q else r x)"
    and side: "r p \<noteq> q"
  shows "\<exists>rk'. trees (V - {p}) l' r' par' rk' col"
proof -
  note D = treesD [OF T]
  define l1 where "l1 x = (if x = par q \<and> r x \<noteq> q then l q else l x)" for x
  define r1 where "r1 x = (if x = par q \<and> r x = q then l q else r x)" for x
  define par1 where "par1 x = (if x = l q then par q else par x)" for x
  have T1: "trees (V - {q}) l1 r1 par1 rk col"
    by (rule trees_splice [OF T q(1), of "l q"]) (use q in \<open>auto simp: l1_def r1_def par1_def\<close>)
  have pq: "p \<in> V - {q}" "q \<notin> V - {q}" "q < RBSIZE" "p \<noteq> NIL" "q \<noteq> NIL" "p \<notin> roots" "q \<notin> roots"
    using p q D(1,8) NIL_not(3) [OF D(1)] by auto
  have lq: "l q \<noteq> p" "par p \<noteq> q"
    using D(3) [OF q(1)] D(6) [OF p] new(4) pq by auto
  have "trees (insert q (V - {q} - {p})) l' r' par' (rk(q := rk p)) col"
  proof (rule trees_replace [OF T1 pq(1,2,3) q(4)])
    show "l' q = l1 p" "r' q = r1 p" "par' q = par1 p"
      using new(1-3) lq side by (auto simp: l1_def r1_def par1_def)
    fix x
    have e: "l1 p = (if par q = p then l q else l p)" "r1 p = r p" using side by (auto simp: l1_def r1_def)
    show "par' x = (if x = l1 p \<or> x = r1 p then q else par1 x)" if x: "x \<in> V - {q} - {p}"
    proof -
      have "x \<noteq> NIL" using x D(8) by auto
      then have k: "x = l q \<Longrightarrow> par x = q" "x = l p \<Longrightarrow> par x = p" "x = r p \<Longrightarrow> par x = p"
        using D(3) [OF q(1)] D(3) [OF p] D(2) [of p] p by auto
      have lp: "par q = p \<Longrightarrow> x \<noteq> l p" using D(5) [OF q(1)] side x by auto
      have "par' x = (if x = l p \<or> x = r p then q else if x = l q then if par q = p then q else par q else par x)"
        using new(5) [of x] x by simp
      then show ?thesis unfolding e par1_def using k lp q(2) by (cases "x = l q"; cases "par q = p") simp_all
    qed
    show "l' x = (if x = par1 p \<and> r1 x \<noteq> p then q else l1 x)" if x: "x \<in> V - {q} - {p}"
    proof -
      have "l' x = (if x = par p \<and> r x \<noteq> p then q else l1 x)" unfolding l1_def by (rule new(6)) (use x in auto)
      moreover have "r1 x = p \<longleftrightarrow> r x = p" using lq q(2) by (auto simp: r1_def)
      ultimately show ?thesis using lq(1) by (simp add: par1_def)
    qed
    show "r' x = (if x = par1 p \<and> r1 x = p then q else r1 x)" if x: "x \<in> V - {q} - {p} \<union> roots"
    proof -
      have "x \<in> V - {p, q} \<union> roots" using x by auto
      then have "r' x = (if x = par p \<and> r x = p then q else r1 x)" unfolding r1_def by (rule new(7))
      moreover have "r1 x = p \<longleftrightarrow> r x = p" using lq q(2) by (auto simp: r1_def)
      ultimately show ?thesis using lq(1) by (simp add: par1_def)
    qed
  qed
  moreover have "insert q (V - {q} - {p}) = V - {p}" using q by auto
  ultimately show ?thesis by auto
qed

lemma successor_two:
  assumes T: "trees V (lchild sp) (rchild sp) (parent sp) rk col" and V: "finite V" and p: "p \<in> V"
    and kids: "rchild sp p \<noteq> NIL" "lchild sp p \<noteq> NIL"
  shows "\<exists>q. q \<in> V \<and> q \<noteq> p \<and> rchild sp q = NIL \<and> col q = col p \<and> rk p < rk q \<and> rchild sp p \<noteq> q \<and>
    (q = lchild sp p \<and> successor p sp = Some (q, sp\<lparr>rchild := (rchild sp)(q := rchild sp p),
          parent := (parent sp)(rchild sp p := q)\<rparr>) \<or>
     rchild sp (parent sp q) = q \<and> rk p < rk (parent sp q) \<and>
        successor p sp = Some (q, sp\<lparr>rchild := (rchild sp)(parent sp q := lchild sp q, q := rchild sp p),
          lchild := (lchild sp)(q := lchild sp p),
          parent := (parent sp)(lchild sp q := parent sp q, lchild sp p := q, rchild sp p := q)\<rparr>))"
proof -
  note D = treesD [OF T]
  define a where "a = lchild sp p"
  have a: "a \<in> V" "parent sp a = p" "a \<noteq> rchild sp p" using D(3) [OF p kids(2)] by (auto simp: a_def)
  have b: "rchild sp p \<in> V" "parent sp (rchild sp p) = p" using D(2) [of p] p kids by auto
  have ra: "rk p < rk a" "col a = col p" using D(6,7) [OF a(1)] a(2) by auto
  have rg: "p < RBSIZE" "a < RBSIZE" "rchild sp p < RBSIZE" using trees_range(1) [OF T] p a(1) b(1) by auto
  show ?thesis
  proof (cases "rchild sp a = NIL")
    case True
    moreover have "a \<noteq> p" using ra by auto
    ultimately have "successor p sp = Some (a, sp\<lparr>rchild := (rchild sp)(a := rchild sp p),
          parent := (parent sp)(rchild sp p := a)\<rparr>)"
      unfolding successor_def using kids rg by (simp add: a_def)
    then show ?thesis using a ra True \<open>a \<noteq> p\<close> by (intro exI [of _ a]) (simp add: a_def [symmetric])
  next
    case False
    obtain q where q: "rightmost a sp = Some q" "q \<in> V" "rchild sp q = NIL" "rk a \<le> rk q" "col q = col a"
      "q = a \<or> rchild sp (parent sp q) = q \<and> rk a \<le> rk (parent sp q)"
      using rightmost_ok [OF T V a(1)] by auto
    have qa: "rchild sp (parent sp q) = q" "rk a \<le> rk (parent sp q)" using q False by auto
    have ne: "q \<noteq> p" "parent sp q \<noteq> p" "parent sp q \<noteq> q" using q(4) qa(2) ra D(6) [OF q(2)] by auto
    have rq: "q < RBSIZE" "parent sp q < RBSIZE + 257" "lchild sp q < RBSIZE + 1" using trees_range(1,3,5) [OF T q(2)] by auto
    have "rchild sp p \<noteq> q" using qa(2) ra b(2) by auto
    moreover have "successor p sp = Some (q, sp\<lparr>rchild := (rchild sp)(parent sp q := lchild sp q, q := rchild sp p),
          lchild := (lchild sp)(q := lchild sp p),
          parent := (parent sp)(lchild sp q := parent sp q, lchild sp p := q, rchild sp p := q)\<rparr>)"
      unfolding successor_def using kids False q(1) ne rg rq by (simp add: a_def)
    ultimately show ?thesis using q qa ra ne by (intro exI [of _ q]) simp
  qed
qed

lemma delete_node_tail:
  assumes "parent sp p \<noteq> NIL" "successor p sp = Some (q, sp2)" "q \<noteq> p" "p < RBSIZE" "q < RBSIZE + 1"
    and "parent sp2 p < RBSIZE + 257" "rchild sp2 (parent sp2 p) = p \<or> parent sp2 p < RBSIZE + 1"
  shows "delete_node p sp = Some (delete_tail p q sp2)"
  unfolding delete_node_def delete_tail_def relink_def using assms by auto

lemma delete_one:
  assumes T: "trees V (lchild sp) (rchild sp) (parent sp) rk col" and p: "p \<in> V"
    and q: "lchild sp p = NIL \<and> q = rchild sp p \<or> rchild sp p = NIL \<and> q = lchild sp p"
  shows "trees (V - {p}) (lchild (delete_tail p q sp)) (rchild (delete_tail p q sp)) (parent (delete_tail p q sp)) rk col"
  by (rule trees_splice [OF T p q]) (auto simp: delete_tail_def)

lemma delete_two:
  assumes T: "trees V (lchild sp) (rchild sp) (parent sp) rk col" and V: "finite V" and p: "p \<in> V"
    and kids: "rchild sp p \<noteq> NIL" "lchild sp p \<noteq> NIL"
  shows "\<exists>q sp2 rk'. successor p sp = Some (q, sp2) \<and> q \<noteq> p \<and> (q \<in> V \<or> q = NIL) \<and> text_buf sp2 = text_buf sp \<and>
    parent sp2 p = parent sp p \<and> rchild sp2 (parent sp p) = rchild sp (parent sp p) \<and>
    (\<forall>x. x \<notin> V \<and> x \<noteq> NIL \<longrightarrow> parent sp2 x = parent sp x) \<and>
    trees (V - {p}) (lchild (delete_tail p q sp2)) (rchild (delete_tail p q sp2)) (parent (delete_tail p q sp2)) rk' col"
proof -
  note D = treesD [OF T]
  let ?l = "lchild sp" and ?r = "rchild sp" and ?par = "parent sp"
  obtain q where q: "q \<in> V" "q \<noteq> p" "?r q = NIL" "col q = col p" "rk p < rk q" "?r p \<noteq> q"
    and C: "q = ?l p \<and> successor p sp = Some (q, sp\<lparr>rchild := ?r(q := ?r p), parent := ?par(?r p := q)\<rparr>) \<or>
     ?r (?par q) = q \<and> rk p < rk (?par q) \<and>
        successor p sp = Some (q, sp\<lparr>rchild := ?r(?par q := ?l q, q := ?r p), lchild := ?l(q := ?l p),
          parent := ?par(?l q := ?par q, ?l p := q, ?r p := q)\<rparr>)"
    using successor_two [OF assms] by blast
  have k: "?l p \<in> V" "?par (?l p) = p" "?r p \<in> V" "?par (?r p) = p" "?l p \<noteq> ?r p"
    using D(3) [OF p kids(2)] D(2) [of p] p kids(1) by auto
  have lq: "?l q = NIL \<or> ?l q \<in> V \<and> ?par (?l q) = q" using D(3) [OF q(1)] by blast
  have up: "rk (?par p) < rk p" "?par p \<noteq> p" "?par p \<noteq> q" "?l p \<noteq> p" "?r p \<noteq> p" "?l q \<noteq> p" "?l q \<noteq> q"
    using D(6) [OF p] q(5) D(6) [OF k(1)] D(6) [OF k(3)] k lq p q(1) D(6) [of "?l q"] D(8) by auto
  have pq: "p \<noteq> NIL" "q \<noteq> NIL" "p \<notin> roots" "q \<notin> roots" using p q(1) D(1,8) NIL_not(3) [OF D(1)] by auto
  show ?thesis
    using C
  proof (elim disjE conjE)
    assume A: "q = ?l p" and S: "successor p sp = Some (q, sp\<lparr>rchild := ?r(q := ?r p), parent := ?par(?r p := q)\<rparr>)"
    let ?sp2 = "sp\<lparr>rchild := ?r(q := ?r p), parent := ?par(?r p := q)\<rparr>"
    have pq': "?par q = p" using A k by simp
    have "\<exists>rk'. trees (V - {p}) (lchild (delete_tail p q ?sp2)) (rchild (delete_tail p q ?sp2))
        (parent (delete_tail p q ?sp2)) rk' col"
    proof (rule trees_promote [OF T p q(1-4) _ _ _ q(5) _ _ _ q(6)])
      fix x
      show "parent (delete_tail p q ?sp2) x = (if x = ?l p \<or> x = ?r p then q else
          if x = ?l q then if ?par q = p then q else ?par q else ?par x)" if x: "x \<in> V - {p, q}"
        using x lq up(5) A pq' D(8) by (auto simp: delete_tail_def)
      show "lchild (delete_tail p q ?sp2) x = (if x = ?par p \<and> ?r x \<noteq> p then q
          else if x = ?par q \<and> ?r x \<noteq> q then ?l q else ?l x)" if x: "x \<in> V - {p, q}"
        using x up(3,5) by (auto simp: delete_tail_def pq')
      show "rchild (delete_tail p q ?sp2) x = (if x = ?par p \<and> ?r x = p then q
          else if x = ?par q \<and> ?r x = q then ?l q else ?r x)" if x: "x \<in> V - {p, q} \<union> roots"
        using x up(3,5) pq(3,4) by (auto simp: delete_tail_def pq')
    qed (use q(2,6) up(3,5) in \<open>simp_all add: delete_tail_def pq'\<close>)
    moreover have "parent ?sp2 p = ?par p" "rchild ?sp2 (?par p) = ?r (?par p)" using up(3,5) by simp_all
    ultimately show ?thesis using S q(1,2) k(3) D(8) by (intro exI [of _ q] exI [of _ ?sp2]) auto
  next
    assume B: "?r (?par q) = q" "rk p < rk (?par q)"
      and S: "successor p sp = Some (q, sp\<lparr>rchild := ?r(?par q := ?l q, q := ?r p), lchild := ?l(q := ?l p),
          parent := ?par(?l q := ?par q, ?l p := q, ?r p := q)\<rparr>)"
    let ?sp2 = "sp\<lparr>rchild := ?r(?par q := ?l q, q := ?r p), lchild := ?l(q := ?l p),
          parent := ?par(?l q := ?par q, ?l p := q, ?r p := q)\<rparr>"
    have ne: "?par q \<noteq> p" "?par q \<noteq> ?par p" "?par q \<noteq> q" using B(2) up(1) D(6) [OF q(1)] by auto
    have "\<exists>rk'. trees (V - {p}) (lchild (delete_tail p q ?sp2)) (rchild (delete_tail p q ?sp2))
        (parent (delete_tail p q ?sp2)) rk' col"
    proof (rule trees_promote [OF T p q(1-4) _ _ _ q(5) _ _ _ q(6)])
      fix x
      show "parent (delete_tail p q ?sp2) x = (if x = ?l p \<or> x = ?r p then q else
          if x = ?l q then if ?par q = p then q else ?par q else ?par x)" if x: "x \<in> V - {p, q}"
        using x ne by (simp add: delete_tail_def)
    qed (use q(2,6) up B ne pq in \<open>auto simp: delete_tail_def\<close>)
    moreover have "parent ?sp2 p = ?par p" "rchild ?sp2 (?par p) = ?r (?par p)" using up ne by simp_all
    ultimately show ?thesis using S q k lq by (intro exI [of _ q] exI [of _ ?sp2]) auto
  qed
qed

lemma delete_tail_same [simp]: "text_buf (delete_tail p q sp) = text_buf sp"
  by (simp add: delete_tail_def)

lemma delete_tail_parent:
  "x \<noteq> p \<Longrightarrow> x \<noteq> q \<Longrightarrow> parent (delete_tail p q sp) x = parent sp x" "parent (delete_tail p q sp) p = NIL"
  by (simp_all add: delete_tail_def)

theorem delete_node_ok:
  assumes F: "forest V sp" and p: "p < RBSIZE"
  shows "\<exists>sp'. delete_node p sp = Some sp' \<and> forest (V - {p}) sp' \<and> text_buf sp' = text_buf sp"
proof (cases "p \<in> V")
  case False
  then show ?thesis using F p by (auto simp: delete_node_def forest_def)
next
  case True
  obtain rk where T: "trees V (lchild sp) (rchild sp) (parent sp) rk (colour (text_buf sp))"
    and out: "\<And>x. x < RBSIZE \<Longrightarrow> x \<notin> V \<Longrightarrow> parent sp x = NIL"
    using F unfolding forest_def by blast
  note D = treesD [OF T]
  have pn: "parent sp p \<noteq> NIL" "p \<noteq> NIL" using forest_node_iff [OF F p] True D(8) by auto
  have "\<exists>q sp2 rk'. successor p sp = Some (q, sp2) \<and> q \<noteq> p \<and> (q \<in> V \<or> q = NIL) \<and> text_buf sp2 = text_buf sp \<and>
    parent sp2 p = parent sp p \<and> rchild sp2 (parent sp p) = rchild sp (parent sp p) \<and>
    (\<forall>x. x \<notin> V \<and> x \<noteq> NIL \<longrightarrow> parent sp2 x = parent sp x) \<and>
    trees (V - {p}) (lchild (delete_tail p q sp2)) (rchild (delete_tail p q sp2)) (parent (delete_tail p q sp2)) rk'
      (colour (text_buf sp))"
  proof (cases "rchild sp p = NIL \<or> lchild sp p = NIL")
    case one: True
    define q where "q = (if rchild sp p = NIL then lchild sp p else rchild sp p)"
    have q: "lchild sp p = NIL \<and> q = rchild sp p \<or> rchild sp p = NIL \<and> q = lchild sp p"
      "successor p sp = Some (q, sp)" using one p by (auto simp: q_def successor_def)
    have "q = NIL \<or> q \<in> V \<and> parent sp q = p" using D(2) [of p] D(3) [OF True] True by (auto simp: q_def)
    moreover from this have "q \<noteq> p" using D(6) [OF True] pn(2) by auto
    ultimately show ?thesis
      using q(2) delete_one [OF T True q(1)] by (intro exI [of _ q] exI [of _ sp] exI [of _ rk] conjI) blast+
  next
    case False
    then show ?thesis using forest_finite [OF F] by (intro delete_two [OF T _ True]) auto
  qed
  then obtain q sp2 rk' where S: "successor p sp = Some (q, sp2)" "q \<noteq> p" "q \<in> V \<or> q = NIL" "text_buf sp2 = text_buf sp"
    "\<forall>x. x \<notin> V \<and> x \<noteq> NIL \<longrightarrow> parent sp2 x = parent sp x" "parent sp2 p = parent sp p"
    "rchild sp2 (parent sp p) = rchild sp (parent sp p)"
    and T2: "trees (V - {p}) (lchild (delete_tail p q sp2)) (rchild (delete_tail p q sp2)) (parent (delete_tail p q sp2)) rk'
      (colour (text_buf sp))" by (elim exE conjE) (rule that)
  have "parent (delete_tail p q sp2) x = NIL" if "x < RBSIZE" "x \<notin> V - {p}" for x
  proof (cases "x = p")
    case False
    have "x \<noteq> q" "x \<noteq> NIL" using that False S(3) by (auto simp: NIL_def)
    then show ?thesis using delete_tail_parent(1) [OF False] S(5) out [of x] that False by simp
  qed (simp add: delete_tail_parent)
  then have "forest (V - {p}) (delete_tail p q sp2)" using T2 S(4) unfolding forest_def by auto
  moreover have "delete_node p sp = Some (delete_tail p q sp2)"
  proof (rule delete_node_tail [OF pn(1) S(1,2) p])
    show "q < RBSIZE + 1" using S(3) trees_range(1) [OF T, of q] by (auto simp: NIL_def)
  qed (use trees_range(5,6) [OF T True] S(6,7) in auto)
  ultimately show ?thesis using S(4) by auto
qed

end
