(* ===== verification/Lzss_Format.thy ===== *)
theory Lzss_Format
  imports Lzss_Trees
begin

text \<open>
  The format of LZSS streams. A token is a byte or a reference into the ring buffer; \<open>pack\<close> writes tokens the way
  the encoder does, and the decoder turns the packed tokens that cover a source into that source.
\<close>

section \<open>Tokens\<close>

text \<open>
  What a unit of code means: a byte, or a position of the ring buffer and a length. \<open>pack\<close> is the format of
  the compressed stream: a byte with eight flags before every eight units.
\<close>

datatype token = Lit byte | Ref nat nat

fun is_lit :: "token \<Rightarrow> bool" where
  "is_lit (Lit _) = True"
| "is_lit (Ref _ _) = False"

fun width :: "token \<Rightarrow> nat" where
  "width (Lit _) = 1"
| "width (Ref _ l) = l"

definition ref_low :: "nat \<Rightarrow> nat \<Rightarrow> byte" where
  "ref_low pos l = (of_nat (pos div 16) AND 0xF0) OR of_nat (l - (THRESHOLD + 1))"

fun token_bytes :: "token \<Rightarrow> byte list" where
  "token_bytes (Lit c) = [c]"
| "token_bytes (Ref pos l) = [of_nat pos, ref_low pos l]"

definition flag_byte :: "token list \<Rightarrow> byte" where
  "flag_byte us = horner_sum of_bool 2 (map is_lit us)"

function pack :: "token list \<Rightarrow> byte list" where
  "pack us = (if us = [] then [] else flag_byte (take 8 us) # concat (map token_bytes (take 8 us)) @ pack (drop 8 us))"
  by pat_completeness auto
termination by (relation "measure length") auto

declare pack.simps [simp del]

lemma bit_flag_byte: "bit (flag_byte us) i \<longleftrightarrow> i < 8 \<and> i < length us \<and> is_lit (us ! i)"
  unfolding flag_byte_def by (auto simp: bit_horner_sum_bit_word_iff)

lemma flag_byte_snoc:
  assumes "length us < 8"
  shows "flag_byte (us @ [u]) = (if is_lit u then flag_byte us OR push_bit (length us) 1 else flag_byte us)"
proof (rule bit_word_eqI)
  fix i assume "i < LENGTH(8)"
  then show "bit (flag_byte (us @ [u])) i = bit (if is_lit u then flag_byte us OR push_bit (length us) 1 else flag_byte us) i"
    using assms by (auto simp: bit_flag_byte bit_or_iff bit_exp_iff nth_append less_Suc_eq)
qed

lemma pack_append: "8 dvd length us \<Longrightarrow> pack (us @ vs) = pack us @ pack vs"
proof (induction us rule: pack.induct)
  case (1 us)
  show ?case
  proof (cases "us = []")
    case True
    then show ?thesis by (simp add: pack.simps [of "[]"])
  next
    case False
    then have l: "8 \<le> length us" "8 dvd length (drop 8 us)" using 1(2) by (auto simp: dvd_imp_le)
    then show ?thesis using 1(1) False by (subst (1 2) pack.simps) simp
  qed
qed

lemma ref_bytes:
  assumes "pos < RBSIZE" "THRESHOLD < l" "l \<le> UPLIM"
  shows "match_pos (of_nat pos) (ref_low pos l) = pos" and "match_len (ref_low pos l) = l"
proof -
  define k where "k = l - (THRESHOLD + 1)"
  have k: "k < 16" "l = k + 3" using assms by (auto simp: k_def THRESHOLD_def UPLIM_def)
  have p: "pos < 4096" using assms by (simp add: RBSIZE_def)
  have F0: "bit (0xF0 :: byte) i \<longleftrightarrow> 4 \<le> i" if "i < 8" for i
    using that by (auto simp: less_Suc_eq numeral_eq_Suc bit_Suc)
  have kb: "i < 4" if "bit k i" for i
  proof (rule ccontr)
    assume "\<not> i < 4"
    then have "(2::nat) ^ 4 \<le> 2 ^ i" by (intro power_increasing) auto
    then have "k div 2 ^ i = 0" using k(1) by simp
    then show False using that by (simp add: bit_iff_odd)
  qed
  have dis: "push_bit 4 (drop_bit 8 pos) + k = push_bit 4 (drop_bit 8 pos) OR k"
    by (rule disjunctive_add) (auto simp: bit_push_bit_iff dest: kb)
  have q: "pos div 16 = drop_bit 4 pos" by (simp add: drop_bit_eq_div)
  have j: "ref_low pos l = of_nat (push_bit 4 (drop_bit 8 pos) + k)"
  proof (rule bit_word_eqI)
    fix i assume "i < LENGTH(8)"
    then show "bit (ref_low pos l) i = bit (of_nat (push_bit 4 (drop_bit 8 pos) + k) :: byte) i"
      using F0 [of i] kb [of i] unfolding dis ref_low_def k_def [symmetric] q
      by (auto simp: bit_or_iff bit_and_iff bit_of_nat_iff bit_push_bit_iff bit_drop_bit_eq add.commute)
  qed
  have "pos div 256 \<le> 15" using p by linarith
  then have "push_bit 4 (drop_bit 8 pos) + k < 256" using k by (simp add: push_bit_eq_mult drop_bit_eq_div)
  then have uj: "unat (ref_low pos l) = 16 * (pos div 256) + k"
    unfolding j unat_of_nat by (simp add: push_bit_eq_mult drop_bit_eq_div)
  have "unat (of_nat pos :: byte) = pos mod 256" by (simp add: unat_of_nat take_bit_eq_mod)
  then show "match_pos (of_nat pos) (ref_low pos l) = pos" "match_len (ref_low pos l) = l"
    unfolding match_pos_def match_len_def uj using k by (simp_all add: THRESHOLD_def)
qed

section \<open>The decoder on tokens\<close>

fun run_token :: "nat \<Rightarrow> token \<Rightarrow> lzss \<Rightarrow> lzss" where
  "run_token dstlen (Lit c) st = lzss_put c st"
| "run_token dstlen (Ref pos l) st = lzss_copy dstlen pos l st"

abbreviation flag_word :: "byte \<Rightarrow> u32" where
  "flag_word c \<equiv> ucast c OR 0xFF00"

definition token_ok :: "token \<Rightarrow> bool" where
  "token_ok u = (case u of Lit _ \<Rightarrow> True | Ref pos l \<Rightarrow> pos < RBSIZE \<and> THRESHOLD < l \<and> l \<le> UPLIM)"

lemma bit_FF00: "i < 16 \<Longrightarrow> bit (0xFF00 :: u32) i \<longleftrightarrow> 8 \<le> i"
  by (auto simp: less_Suc_eq numeral_eq_Suc bit_Suc)

lemma flag_word_bit:
  assumes "i < 8"
  shows "drop_bit i (flag_word c) AND 1 \<noteq> 0 \<longleftrightarrow> bit c i"
proof -
  have "drop_bit i (flag_word c) AND 1 \<noteq> 0 \<longleftrightarrow> bit (flag_word c) i"
    unfolding bit_iff_odd_drop_bit by (simp only: and_one_eq odd_iff_mod_2_eq_one) auto
  then show ?thesis using bit_FF00 [of i] assms by (simp add: bit_or_iff bit_ucast_iff)
qed

lemma flag_word_more: "i < 8 \<Longrightarrow> drop_bit i (flag_word c) AND 0x100 \<noteq> 0"
proof -
  assume i: "i < 8"
  have "bit (drop_bit i (flag_word c) AND 0x100) 8"
    using i bit_FF00 [of "i + 8"] by (simp add: bit_and_iff bit_drop_bit_eq bit_or_iff add.commute)
  then show ?thesis by auto
qed

lemma flag_word_end: "drop_bit 8 (flag_word c) AND 0x100 = 0"
proof (rule bit_word_eqI)
  fix i assume i: "i < LENGTH(32)"
  have "\<not> bit (0xFF00 :: u32) 16" by (simp add: bit_numeral_rec)
  moreover have "\<not> bit c 16" by (auto dest: bit_imp_le_length)
  moreover have "bit (0x100 :: u32) i \<longleftrightarrow> i = 8" using i bit_exp_iff [of 8 i, where 'a = "32 word"] by auto
  ultimately show "bit (drop_bit 8 (flag_word c) AND 0x100) i = bit 0 i"
    by (auto simp: bit_and_iff bit_drop_bit_eq bit_or_iff bit_ucast_iff)
qed

lemma lzss_flags_more: "k < 7 \<Longrightarrow> lzss_flags (drop_bit k (flag_word c)) src = Some (drop_bit (Suc k) (flag_word c), src)"
  using flag_word_more [of "Suc k" c] by (simp add: lzss_flags_def Let_def del: bit_or_iff)

lemma lzss_flags_new:
  "drop_bit 1 fl AND 0x100 = 0 \<Longrightarrow> lzss_flags fl (c # s) = Some (drop_bit 0 (flag_word c), s)"
  "drop_bit 1 fl AND 0x100 = 0 \<Longrightarrow> lzss_flags fl [] = None"
  by (simp_all add: lzss_flags_def Let_def)

lemma loop_token:
  assumes "lzss_flags fl src = Some (drop_bit k (flag_word c), token_bytes u @ rest)" "k < 8" "bit c k = is_lit u"
    "token_ok u" "is_lit u \<longrightarrow> length (lz_out st) < dstlen"
  shows "lzss_loop dstlen fl src st = lzss_loop dstlen (drop_bit k (flag_word c)) rest (run_token dstlen u st)"
proof (cases u)
  case (Lit x)
  then show ?thesis
    using assms flag_word_bit [OF assms(2), of c] by (subst lzss_loop.simps) (simp del: drop_bit_or)
next
  case (Ref pos l)
  have "match_pos (of_nat pos) (ref_low pos l) = pos" "match_len (ref_low pos l) = l"
    using ref_bytes [of pos l] assms(4) Ref by (auto simp: token_ok_def)
  then show ?thesis
    using assms Ref flag_word_bit [OF assms(2), of c] by (subst lzss_loop.simps) (simp del: drop_bit_or)
qed

section \<open>What the tokens stand for\<close>

definition lead :: nat where "lead = RBSIZE - UPLIM"

text \<open>The source after the blanks that the ring buffer starts with.\<close>

definition padded :: "byte list \<Rightarrow> byte list" where
  "padded src = replicate (lead) 0x20 @ src"

text \<open>A token is right after \<open>n\<close> bytes of the source.\<close>

definition token_at :: "byte list \<Rightarrow> nat \<Rightarrow> token \<Rightarrow> bool" where
  "token_at src n u \<longleftrightarrow> n + width u \<le> length src \<and>
     (case u of
        Lit c \<Rightarrow> src ! n = c
      | Ref pos l \<Rightarrow> THRESHOLD < l \<and> l \<le> UPLIM \<and>
          (\<exists>a. n \<le> a \<and> a < lead + n \<and> pos = a mod RBSIZE \<and>
             (\<forall>i < l. padded src ! (a + i) = src ! (n + i))))"

fun covers :: "byte list \<Rightarrow> nat \<Rightarrow> token list \<Rightarrow> nat \<Rightarrow> bool" where
  "covers src n [] m \<longleftrightarrow> n = m"
| "covers src n (u # us) m \<longleftrightarrow> token_at src n u \<and> covers src (n + width u) us m"

definition dec_inv :: "byte list \<Rightarrow> nat \<Rightarrow> lzss \<Rightarrow> bool" where
  "dec_inv src n st \<longleftrightarrow> n \<le> length src \<and> lz_out st = take n src \<and> lz_r st = (lead + n) mod RBSIZE \<and>
     (\<forall>a. n \<le> a \<and> a < lead + n \<longrightarrow> lz_text st (a mod RBSIZE) = padded src ! a)"

lemma token_at_ok: "token_at src n u \<Longrightarrow> token_ok u"
  by (auto simp: token_at_def token_ok_def RBSIZE_def split: token.splits)

lemma padded_nth: "padded src ! (lead + i) = src ! i"
  by (simp add: padded_def nth_append)

lemma same_mod_close:
  assumes "a mod N = b mod N" "a \<le> b" "b < a + (N :: nat)"
  shows "a = b"
  by (metis assms add_diff_cancel_left' diff_is_0_eq' le_Suc_ex less_add_eq_less mod_eq_dvd_iff_nat mod_less nat_add_left_cancel_less mod_eq_0_iff_dvd dvd_imp_mod_0 le_add1 add.right_neutral)

lemma dec_put:
  assumes "dec_inv src n st" "n < length src" "c = src ! n"
  shows "dec_inv src (Suc n) (lzss_put c st)"
proof -
  have "((lz_text st)(lz_r st := c)) (a mod RBSIZE) = padded src ! a" if a: "Suc n \<le> a" "a < lead + Suc n" for a
  proof (cases "a = lead + n")
    case True
    then show ?thesis using assms padded_nth by (simp add: dec_inv_def)
  next
    case False
    then have l: "n \<le> a" "a < lead + n" using a by auto
    have "a mod RBSIZE \<noteq> (lead + n) mod RBSIZE"
      using same_mod_close [of a RBSIZE "lead + n"] l by (auto simp: lead_def RBSIZE_def UPLIM_def)
    then show ?thesis using assms(1) l by (simp add: dec_inv_def)
  qed
  then show ?thesis
    using assms unfolding dec_inv_def lzss_put_def by (simp add: take_Suc_conv_app_nth mod_Suc_eq del: fun_upd_apply)
qed

lemma dec_copy:
  assumes "dec_inv src n st" "n + l \<le> length src" "length src \<le> dstlen" "n \<le> a" "a < lead + n"
    "pos mod RBSIZE = a mod RBSIZE" "\<And>i. i < l \<Longrightarrow> padded src ! (a + i) = src ! (n + i)"
  shows "dec_inv src (n + l) (lzss_copy dstlen pos l st)"
  using assms
proof (induction l arbitrary: n a pos st)
  case (Suc l)
  have out: "length (lz_out st) < dstlen" using Suc.prems(1-3) by (auto simp: dec_inv_def)
  have c: "lz_text st (pos mod RBSIZE) = src ! n"
    using Suc.prems(1,4-6) Suc.prems(7) [of 0] by (simp add: dec_inv_def)
  have d: "dec_inv src (Suc n) (lzss_put (lz_text st (pos mod RBSIZE)) st)"
    by (rule dec_put) (use Suc.prems c in auto)
  have "dec_inv src (Suc n + l) (lzss_copy dstlen (Suc pos) l (lzss_put (lz_text st (pos mod RBSIZE)) st))"
    by (rule Suc.IH [OF d, of "Suc a"])
      (use Suc.prems(2-6) Suc.prems(7) [of "Suc i" for i] in \<open>auto intro: mod_Suc_eq [symmetric] simp: mod_Suc\<close>)
  then show ?case using out by simp
qed simp

lemma dec_token:
  assumes "dec_inv src n st" "token_at src n u" "length src \<le> dstlen"
  shows "dec_inv src (n + width u) (run_token dstlen u st)"
proof (cases u)
  case (Lit c)
  then show ?thesis using dec_put [OF assms(1), of c] assms(2) by (simp add: token_at_def)
next
  case (Ref pos l)
  then obtain a where a: "n \<le> a" "a < lead + n" "pos = a mod RBSIZE" "\<And>i. i < l \<Longrightarrow> padded src ! (a + i) = src ! (n + i)"
    and l: "n + l \<le> length src" using assms(2) by (auto simp: token_at_def)
  have "dec_inv src (n + l) (lzss_copy dstlen pos l st)"
    by (rule dec_copy [OF assms(1) l assms(3) a(1,2) _ a(4)]) (simp add: a(3))
  then show ?thesis using Ref by simp
qed

lemma covers_append: "covers src n (us @ vs) m \<longleftrightarrow> (\<exists>k. covers src n us k \<and> covers src k vs m)"
  by (induction us arbitrary: n) auto

lemma covers_dec:
  assumes "covers src n us m" "dec_inv src n st" "length src \<le> dstlen"
  shows "dec_inv src m (fold (run_token dstlen) us st)"
  using assms by (induction us arbitrary: n st) (auto intro: dec_token)

text \<open>The decoder on the rest of a group, and on whole streams.\<close>

lemma loop_tokens:
  assumes "covers src n us m" "dec_inv src n st" "length src \<le> dstlen" "k + length us < 8"
    "\<And>i. i < length us \<Longrightarrow> bit c (k + Suc i) = is_lit (us ! i)"
  shows "lzss_loop dstlen (drop_bit k (flag_word c)) (concat (map token_bytes us) @ rest) st =
    lzss_loop dstlen (drop_bit (k + length us) (flag_word c)) rest (fold (run_token dstlen) us st)"
  using assms
proof (induction us arbitrary: n st k)
  case (Cons u us)
  have at: "token_at src n u" "covers src (n + width u) us m" using Cons.prems(1) by auto
  have "length (lz_out st) < dstlen" if "is_lit u"
    using at(1) Cons.prems(2,3) that by (cases u) (auto simp: token_at_def dec_inv_def)
  then have "lzss_loop dstlen (drop_bit k (flag_word c)) (concat (map token_bytes (u # us)) @ rest) st =
      lzss_loop dstlen (drop_bit (Suc k) (flag_word c)) (concat (map token_bytes us) @ rest) (run_token dstlen u st)"
    using Cons.prems(4) Cons.prems(5) [of 0] lzss_flags_more [of k c] token_at_ok [OF at(1)]
    by (intro loop_token) auto
  also have "\<dots> = lzss_loop dstlen (drop_bit (Suc k + length us) (flag_word c)) rest
      (fold (run_token dstlen) us (run_token dstlen u st))"
    using Cons.prems(4) Cons.prems(5) [of "Suc i" for i]
    by (intro Cons.IH [OF at(2) dec_token [OF Cons.prems(2) at(1) Cons.prems(3)] Cons.prems(3)]) auto
  finally show ?case by simp
qed simp

lemma loop_group:
  assumes "covers src n us m" "dec_inv src n st" "length src \<le> dstlen" "us \<noteq> []" "length us \<le> 8"
    "drop_bit 1 fl AND 0x100 = 0"
  shows "lzss_loop dstlen fl (flag_byte us # concat (map token_bytes us) @ rest) st =
    lzss_loop dstlen (drop_bit (length us - 1) (flag_word (flag_byte us))) rest (fold (run_token dstlen) us st)"
proof -
  obtain u vs where us: "us = u # vs" using assms(4) by (cases us) auto
  define c where "c = flag_byte us"
  have bits: "i < length us \<Longrightarrow> bit c i = is_lit (us ! i)" for i using assms(5) by (simp add: c_def bit_flag_byte)
  have at: "token_at src n u" "covers src (n + width u) vs m" using assms(1) us by auto
  have lit: "is_lit u \<longrightarrow> length (lz_out st) < dstlen"
    using at(1) assms(2,3) by (cases u) (auto simp: token_at_def dec_inv_def)
  have "lzss_loop dstlen fl (c # concat (map token_bytes us) @ rest) st =
      lzss_loop dstlen (drop_bit 0 (flag_word c)) (concat (map token_bytes vs) @ rest) (run_token dstlen u st)"
    by (rule loop_token) (use lzss_flags_new(1) [OF assms(6)] us bits [of 0] lit token_at_ok [OF at(1)] in auto)
  also have "\<dots> = lzss_loop dstlen (drop_bit (0 + length vs) (flag_word c)) rest
      (fold (run_token dstlen) vs (run_token dstlen u st))"
    using assms(5) us bits [of "Suc i" for i]
    by (intro loop_tokens [OF at(2) dec_token [OF assms(2) at(1) assms(3)] assms(3)]) auto
  finally show ?thesis by (simp add: c_def us)
qed

lemma loop_end: "k < 8 \<Longrightarrow> \<not> bit c (Suc k) \<Longrightarrow> lzss_loop dstlen (drop_bit k (flag_word c)) [] st = lz_out st"
proof -
  assume k: "k < 8" "\<not> bit c (Suc k)"
  show ?thesis
  proof (cases "k = 7")
    case True
    have "drop_bit 1 (drop_bit k (flag_word c)) AND 0x100 = 0" using flag_word_end [of c] True by simp
    then show ?thesis using lzss_flags_new(2) [of "drop_bit k (flag_word c)"] by (subst lzss_loop.simps) simp
  next
    case False
    then show ?thesis using k flag_word_bit [of "Suc k" c] lzss_flags_more [of k c "[]"]
      by (subst lzss_loop.simps) (simp del: drop_bit_or)
  qed
qed

lemma loop_pack:
  assumes "covers src n us (length src)" "dec_inv src n st" "length src \<le> dstlen" "drop_bit 1 fl AND 0x100 = 0"
  shows "lzss_loop dstlen fl (pack us) st = src"
  using assms
proof (induction us arbitrary: n st fl rule: pack.induct)
  case (1 us)
  show ?case
  proof (cases "us = []")
    case True
    then show ?thesis using 1(2-5) lzss_flags_new(2) [of fl]
      by (subst lzss_loop.simps) (simp add: pack.simps [of "[]"] dec_inv_def)
  next
    case False
    define g where "g = take 8 us"
    obtain m where m: "covers src n g m" "covers src m (drop 8 us) (length src)"
      using 1(2) covers_append [of src n g "drop 8 us"] by (auto simp: g_def)
    note D = covers_dec [OF m(1) 1(3,4)]
    have g: "g \<noteq> []" "length g \<le> 8" using False by (auto simp: g_def)
    have e: "lzss_loop dstlen fl (pack us) st = lzss_loop dstlen (drop_bit (length g - 1) (flag_word (flag_byte g)))
        (pack (drop 8 us)) (fold (run_token dstlen) g st)"
      unfolding pack.simps [of us] using False loop_group [OF m(1) 1(3,4) g 1(5)] by (simp add: g_def)
    show ?thesis
    proof (cases "length us \<le> 8")
      case True
      have "lzss_loop dstlen (drop_bit (length g - 1) (flag_word (flag_byte g))) [] (fold (run_token dstlen) g st) =
          lz_out (fold (run_token dstlen) g st)"
        by (rule loop_end) (use g in \<open>auto simp: bit_flag_byte\<close>)
      then show ?thesis unfolding e using True m(2) D by (simp add: pack.simps [of "[]"] dec_inv_def)
    next
      case more: False
      have "drop_bit 1 (drop_bit (length g - 1) (flag_word (flag_byte g))) AND 0x100 = 0"
        using flag_word_end [of "flag_byte g"] more by (simp add: g_def del: drop_bit_or)
      then show ?thesis unfolding e using 1(1) [OF False m(2) D 1(4)] by simp
    qed
  qed
qed

theorem decompress_pack:
  assumes "covers src 0 us (length src)" "length src \<le> dstlen"
  shows "decompress_lzss junk dstlen (pack us) = src"
  unfolding decompress_lzss_def
proof (rule loop_pack [OF assms(1) _ assms(2)])
  show "dec_inv src 0 (lzss_init junk)"
    by (auto simp: dec_inv_def lzss_init_def padded_def lead_def nth_append RBSIZE_def UPLIM_def)
qed simp

end
