(* ===== verification/Lzss_Roundtrip.thy ===== *)
theory Lzss_Roundtrip
  imports Lzss_Format
begin

text \<open>
  The LZSS encoder writes packed tokens that cover its source, so that encoding and decoding are inverse. The
  invariant ties the ring buffer, the search trees and the code buffer to the number of bytes encoded.
\<close>

section \<open>The encoder\<close>

definition window :: "nat \<Rightarrow> nat \<Rightarrow> nat set" where
  "window a b = (\<lambda>x. x mod RBSIZE) ` {a..<b}"

text \<open>The ring buffer holds the source from position \<open>n\<close> on; its first bytes are repeated behind its end.\<close>

definition text_ok :: "byte list \<Rightarrow> nat \<Rightarrow> (nat \<Rightarrow> byte) \<Rightarrow> bool" where
  "text_ok src n tb \<longleftrightarrow>
     (\<forall>a. n \<le> a \<and> a < n + RBSIZE \<and> a < length (padded src) \<longrightarrow> tb (a mod RBSIZE) = padded src ! a \<and>
        (RBSIZE \<le> a \<and> a mod RBSIZE < UPLIM - 1 \<longrightarrow> tb (a mod RBSIZE + RBSIZE) = padded src ! a))"

definition enc_inv :: "byte list \<Rightarrow> nat \<Rightarrow> lzss_comp \<Rightarrow> bool" where
  "enc_inv src n lc \<longleftrightarrow> n \<le> length src \<and> lc_len lc = min UPLIM (length src - n) \<and> lc_src lc = drop (n + UPLIM) src \<and>
     lc_r lc = (lead + n) mod RBSIZE \<and> lc_s lc = n mod RBSIZE \<and> text_ok src n (text_buf (lc_sp lc)) \<and>
     (\<exists>V. forest V (lc_sp lc) \<and> V \<subseteq> window n (lead + n + 1)) \<and>
     (lc_len lc \<noteq> 0 \<longrightarrow> (\<exists>V. matched V (lc_r lc) (lc_sp lc) \<and> V \<subseteq> window n (lead + n)))"

lemma lead_sizes: "lead = 4078" "lead + UPLIM = RBSIZE" "RBSIZE = 4096" "UPLIM = 18"
  by (simp_all add: lead_def RBSIZE_def UPLIM_def)

lemma length_padded: "length (padded src) = lead + length src"
  by (simp add: padded_def)

lemma window_mono: "a \<le> a' \<Longrightarrow> b' \<le> b \<Longrightarrow> window a' b' \<subseteq> window a b"
  by (auto simp: window_def)

lemma window_less: "x \<in> window a b \<Longrightarrow> x < RBSIZE"
  by (auto simp: window_def RBSIZE_def)

lemma window_fresh:
  assumes "b < a + RBSIZE"
  shows "b mod RBSIZE \<notin> window a b"
proof
  assume "b mod RBSIZE \<in> window a b"
  then obtain x where x: "b mod RBSIZE = x mod RBSIZE" "a \<le> x" "x < b" by (auto simp: window_def)
  then have "x = b" using assms by (intro same_mod_close [of x RBSIZE b]) auto
  then show False using x by simp
qed

lemma window_drop_first: "window a b - {a mod RBSIZE} \<subseteq> window (Suc a) b"
proof
  fix y assume "y \<in> window a b - {a mod RBSIZE}"
  then obtain x where x: "y = x mod RBSIZE" "a \<le> x" "x < b" "x \<noteq> a" unfolding window_def by fastforce
  then show "y \<in> window (Suc a) b" unfolding window_def by auto
qed

lemma text_okD:
  assumes "text_ok src n tb" "n \<le> a" "a < n + RBSIZE" "a < length (padded src)"
  shows "tb (a mod RBSIZE) = padded src ! a"
    and "RBSIZE \<le> a \<Longrightarrow> a mod RBSIZE < UPLIM - 1 \<Longrightarrow> tb (a mod RBSIZE + RBSIZE) = padded src ! a"
  using assms unfolding text_ok_def by blast+

lemma text_read:
  assumes "text_ok src n tb" "n \<le> a" "a + i < n + RBSIZE" "a + i < length (padded src)" "i < UPLIM"
  shows "tb (a mod RBSIZE + i) = padded src ! (a + i)"
proof (cases "a mod RBSIZE + i < RBSIZE")
  case True
  then have "(a + i) mod RBSIZE = a mod RBSIZE + i" using mod_add_left_eq [of a RBSIZE i] by simp
  then show ?thesis using text_okD(1) [OF assms(1) _ assms(3,4)] assms(2) by simp
next
  case False
  have b: "a mod 4096 < 4096" "i < 18" "4096 \<le> a mod 4096 + i" "a mod 4096 \<le> a"
    using assms(5) False by (auto simp: lead_sizes)
  then have e: "(a mod 4096 + i) mod 4096 = a mod 4096 + i - 4096" by (subst mod_if) simp
  then have "(a + i) mod 4096 = a mod 4096 + i - 4096" using mod_add_left_eq [of a 4096 i] by simp
  then have m: "(a + i) mod RBSIZE + RBSIZE = a mod RBSIZE + i" "(a + i) mod RBSIZE < UPLIM - 1" "RBSIZE \<le> a + i"
    unfolding lead_sizes using b by linarith+
  then show ?thesis using text_okD(2) [OF assms(1) _ assms(3,4) m(3,2)] assms(2) by simp
qed

lemma text_step:
  assumes T: "text_ok src n tb" and c: "n + UPLIM < length src" "c = src ! (n + UPLIM)"
    and tb': "tb' = (if n mod RBSIZE < UPLIM - 1 then (tb(n mod RBSIZE := c))(n mod RBSIZE + RBSIZE := c)
                     else tb(n mod RBSIZE := c))"
  shows "text_ok src (Suc n) tb'"
  unfolding text_ok_def
proof (intro allI impI)
  fix a assume a: "Suc n \<le> a \<and> a < Suc n + RBSIZE \<and> a < length (padded src)"
  have lt: "n mod RBSIZE < RBSIZE" "a mod RBSIZE < RBSIZE" by (simp_all add: RBSIZE_def)
  show "tb' (a mod RBSIZE) = padded src ! a \<and>
    (RBSIZE \<le> a \<and> a mod RBSIZE < UPLIM - 1 \<longrightarrow> tb' (a mod RBSIZE + RBSIZE) = padded src ! a)"
  proof (cases "a = n + RBSIZE")
    case True
    have "padded src ! a = c" using padded_nth [of src "n + UPLIM"] c True by (simp add: lead_sizes add.commute)
    then show ?thesis using True lt by (auto simp: tb')
  next
    case False
    then have r: "n \<le> a" "a < n + RBSIZE" using a by auto
    then have ne: "a mod RBSIZE \<noteq> n mod RBSIZE" using same_mod_close [of n RBSIZE a] a by auto
    have "a mod RBSIZE \<noteq> n mod RBSIZE + RBSIZE" "a mod RBSIZE + RBSIZE \<noteq> n mod RBSIZE" using lt by linarith+
    then have "tb' (a mod RBSIZE) = tb (a mod RBSIZE)" "tb' (a mod RBSIZE + RBSIZE) = tb (a mod RBSIZE + RBSIZE)"
      using ne by (simp_all add: tb')
    then show ?thesis using text_okD [OF T r] a by simp
  qed
qed

lemma next_pos_mod: "next_pos (a mod RBSIZE) = Suc a mod RBSIZE"
  by (simp add: next_pos_def mod_Suc_eq)

lemma enc_inv_forest:
  assumes "enc_inv src n lc"
  obtains V where "forest V (lc_sp lc)" "V \<subseteq> window n (lead + n + 1)"
  using assms unfolding enc_inv_def by blast

lemma delete_oldest:
  assumes "enc_inv src n lc"
  shows "\<exists>sp V. delete_node (lc_s lc) (lc_sp lc) = Some sp \<and> forest V sp \<and> V \<subseteq> window (Suc n) (lead + n + 1) \<and>
    text_buf sp = text_buf (lc_sp lc) \<and> lc_s lc \<notin> V"
proof -
  obtain V where V: "forest V (lc_sp lc)" "V \<subseteq> window n (lead + n + 1)" using assms by (rule enc_inv_forest)
  have s: "lc_s lc = n mod RBSIZE" using assms by (simp add: enc_inv_def)
  have "lc_s lc < RBSIZE" by (simp add: s RBSIZE_def)
  from delete_node_ok [OF V(1) this] obtain sp where
    D: "delete_node (lc_s lc) (lc_sp lc) = Some sp" "forest (V - {lc_s lc}) sp" "text_buf sp = text_buf (lc_sp lc)" by blast
  have "V - {lc_s lc} \<subseteq> window (Suc n) (lead + n + 1)" using V(2) window_drop_first [of n "lead + n + 1"] s by auto
  then show ?thesis using D by blast
qed

lemma insert_next:
  assumes "forest V sp" "V \<subseteq> window (Suc n) (lead + n + 1)"
  shows "\<exists>sp' V'. insert_node ((lead + Suc n) mod RBSIZE) sp = Some sp' \<and> forest V' sp' \<and>
    V' \<subseteq> window (Suc n) (lead + Suc n + 1) \<and> text_buf sp' = text_buf sp \<and> matched V ((lead + Suc n) mod RBSIZE) sp'"
proof -
  let ?r = "(lead + Suc n) mod RBSIZE"
  have "?r \<notin> window (Suc n) (lead + Suc n)" by (rule window_fresh) (simp add: lead_sizes)
  then have r: "?r \<notin> V" "?r < RBSIZE" using assms(2) by (auto simp: RBSIZE_def)
  have "?r \<in> window (Suc n) (lead + Suc n + 1)" unfolding window_def by (intro image_eqI [of _ _ "lead + Suc n"]) auto
  moreover have "V \<subseteq> window (Suc n) (lead + Suc n + 1)" using assms(2) window_mono [of "Suc n" "Suc n" "lead + n + 1" "lead + Suc n + 1"] by auto
  ultimately show ?thesis using insert_node_within [OF assms(1) r] by blast
qed

lemma read_step_inv:
  assumes I: "enc_inv src n lc" and src: "lc_src lc = c # rest"
  shows "\<exists>sp0 sp1 sp2 sp. delete_node (lc_s lc) (lc_sp lc) = Some sp0 \<and>
    set_text (lc_s lc) c sp0 = Some sp1 \<and>
    (if lc_s lc < UPLIM - 1 then set_text (lc_s lc + RBSIZE) c sp1 else Some sp1) = Some sp2 \<and>
    insert_node (next_pos (lc_r lc)) sp2 = Some sp \<and>
    enc_inv src (Suc n) (lc\<lparr>lc_sp := sp, lc_src := rest, lc_r := next_pos (lc_r lc), lc_s := next_pos (lc_s lc)\<rparr>)"
proof -
  have i: "lc_len lc = min UPLIM (length src - n)" "lc_src lc = drop (n + UPLIM) src" "lc_r lc = (lead + n) mod RBSIZE"
    "lc_s lc = n mod RBSIZE" "text_ok src n (text_buf (lc_sp lc))" using I by (auto simp: enc_inv_def)
  have len: "n + UPLIM < length src" using src i(2) by (metis drop_all linorder_not_le list.distinct(1))
  have c: "c = src ! (n + UPLIM)" "rest = drop (Suc n + UPLIM) src"
    using src i(2) Cons_nth_drop_Suc [OF len] by auto
  obtain sp0 V where D: "delete_node (lc_s lc) (lc_sp lc) = Some sp0" "forest V sp0" "V \<subseteq> window (Suc n) (lead + n + 1)"
    "text_buf sp0 = text_buf (lc_sp lc)" "lc_s lc \<notin> V" using delete_oldest [OF I] by blast
  define tb where "tb = (if n mod RBSIZE < UPLIM - 1 then ((text_buf sp0)(n mod RBSIZE := c))(n mod RBSIZE + RBSIZE := c)
                     else (text_buf sp0)(n mod RBSIZE := c))"
  have s: "lc_s lc < RBSIZE" by (simp add: i(4) RBSIZE_def)
  define sp1 where "sp1 = sp0\<lparr>text_buf := (text_buf sp0)(lc_s lc := c)\<rparr>"
  have e: "set_text (lc_s lc) c sp0 = Some sp1"
    "(if lc_s lc < UPLIM - 1 then set_text (lc_s lc + RBSIZE) c sp1 else Some sp1) = Some (sp0\<lparr>text_buf := tb\<rparr>)"
    using s by (simp_all add: tb_def i(4) sp1_def UPLIM_def)
  have F: "forest V (sp0\<lparr>text_buf := tb\<rparr>)"
    by (rule forest_text [OF D(2)]) (use D(5) forest_finite [OF D(2)] i(4) in \<open>auto simp: tb_def\<close>)
  have T: "text_ok src (Suc n) tb" by (rule text_step [OF i(5) len c(1)]) (simp add: tb_def D(4))
  have r: "next_pos (lc_r lc) = (lead + Suc n) mod RBSIZE" using next_pos_mod [of "lead + n"] i(3) by simp
  obtain sp V' where N: "insert_node (next_pos (lc_r lc)) (sp0\<lparr>text_buf := tb\<rparr>) = Some sp" "forest V' sp"
    "V' \<subseteq> window (Suc n) (lead + Suc n + 1)" "text_buf sp = tb" "matched V ((lead + Suc n) mod RBSIZE) sp"
    using insert_next [OF F D(3)] r by auto
  have "enc_inv src (Suc n) (lc\<lparr>lc_sp := sp, lc_src := rest, lc_r := next_pos (lc_r lc), lc_s := next_pos (lc_s lc)\<rparr>)"
    unfolding enc_inv_def using len i(1,4) c(2) r next_pos_mod [of n] T N D(3) by auto
  then show ?thesis using D(1) N(1) e by blast
qed

lemma drain_step_inv:
  assumes I: "enc_inv src n lc" and src: "lc_src lc = []" "lc_len lc \<noteq> 0"
  shows "\<exists>sp0 sp. delete_node (lc_s lc) (lc_sp lc) = Some sp0 \<and>
    (if lc_len lc - 1 \<noteq> 0 then insert_node (next_pos (lc_r lc)) sp0 else Some sp0) = Some sp \<and>
    enc_inv src (Suc n) (lc\<lparr>lc_sp := sp, lc_len := lc_len lc - 1, lc_r := next_pos (lc_r lc), lc_s := next_pos (lc_s lc)\<rparr>)"
proof -
  have i: "lc_len lc = min UPLIM (length src - n)" "lc_src lc = drop (n + UPLIM) src" "lc_r lc = (lead + n) mod RBSIZE"
    "lc_s lc = n mod RBSIZE" "text_ok src n (text_buf (lc_sp lc))" using I by (auto simp: enc_inv_def)
  have len: "length src \<le> n + UPLIM" "n < length src" using src i(1,2) by auto
  obtain sp0 V where D: "delete_node (lc_s lc) (lc_sp lc) = Some sp0" "forest V sp0" "V \<subseteq> window (Suc n) (lead + n + 1)"
    "text_buf sp0 = text_buf (lc_sp lc)" using delete_oldest [OF I] by blast
  have T: "text_ok src (Suc n) (text_buf sp0)"
    unfolding text_ok_def D(4) using text_okD [OF i(5)] len(1) by (auto simp: length_padded lead_sizes)
  have r: "next_pos (lc_r lc) = (lead + Suc n) mod RBSIZE" using next_pos_mod [of "lead + n"] i(3) by simp
  have w: "V \<subseteq> window (Suc n) (lead + Suc n + 1)" using D(3) window_mono [of "Suc n" "Suc n" "lead + n + 1" "lead + Suc n + 1"] by auto
  show ?thesis
  proof (cases "lc_len lc - 1 = 0")
    case True
    have "enc_inv src (Suc n) (lc\<lparr>lc_sp := sp0, lc_len := lc_len lc - 1, lc_r := next_pos (lc_r lc), lc_s := next_pos (lc_s lc)\<rparr>)"
      unfolding enc_inv_def using len i(1,2,4) src(1) r next_pos_mod [of n] T True D(2) w by auto
    then show ?thesis using D(1) True by simp
  next
    case False
    obtain sp V' where N: "insert_node (next_pos (lc_r lc)) sp0 = Some sp" "forest V' sp"
      "V' \<subseteq> window (Suc n) (lead + Suc n + 1)" "text_buf sp = text_buf sp0" "matched V ((lead + Suc n) mod RBSIZE) sp"
      using insert_next [OF D(2,3)] r by auto
    have "enc_inv src (Suc n) (lc\<lparr>lc_sp := sp, lc_len := lc_len lc - 1, lc_r := next_pos (lc_r lc), lc_s := next_pos (lc_s lc)\<rparr>)"
      unfolding enc_inv_def using len i(1,2,4) src(1) r next_pos_mod [of n] T N D(3) by auto
    then show ?thesis using D(1) N(1) False by auto
  qed
qed

definition outs :: "lzss_comp \<Rightarrow> byte list \<times> byte \<times> byte list \<times> byte" where
  "outs lc = (lc_dst lc, lc_flags lc, lc_units lc, lc_mask lc)"

lemma read_steps_inv:
  assumes "enc_inv src n lc"
  shows "\<exists>j lc'. read_steps k lc = Some (j, lc') \<and> j \<le> k \<and> enc_inv src (n + (k - j)) lc' \<and> (j \<noteq> 0 \<longrightarrow> lc_src lc' = []) \<and>
    outs lc' = outs lc"
  using assms
proof (induction k arbitrary: n lc)
  case (Suc k)
  show ?case
  proof (cases "lc_src lc")
    case Nil
    then show ?thesis using Suc.prems by auto
  next
    case (Cons c rest)
    from read_step_inv [OF Suc.prems Cons] obtain sp0 sp1 sp2 sp where S: "delete_node (lc_s lc) (lc_sp lc) = Some sp0"
      "set_text (lc_s lc) c sp0 = Some sp1"
      "(if lc_s lc < UPLIM - 1 then set_text (lc_s lc + RBSIZE) c sp1 else Some sp1) = Some sp2"
      "insert_node (next_pos (lc_r lc)) sp2 = Some sp"
      and I: "enc_inv src (Suc n) (lc\<lparr>lc_sp := sp, lc_src := rest, lc_r := next_pos (lc_r lc), lc_s := next_pos (lc_s lc)\<rparr>)"
      by blast
    let ?lc = "lc\<lparr>lc_sp := sp, lc_src := rest, lc_r := next_pos (lc_r lc), lc_s := next_pos (lc_s lc)\<rparr>"
    have e: "read_steps (Suc k) lc = read_steps k ?lc" using S Cons by simp
    obtain j lc' where J: "read_steps k ?lc = Some (j, lc')" "j \<le> k" "enc_inv src (Suc n + (k - j)) lc'"
      "j \<noteq> 0 \<longrightarrow> lc_src lc' = []" "outs lc' = outs ?lc" using Suc.IH [OF I] by blast
    have "Suc n + (k - j) = n + (Suc k - j)" using J(2) by simp
    then show ?thesis using e J by (auto simp: outs_def)
  qed
qed auto

lemma drain_steps_inv:
  assumes "enc_inv src n lc" "k = 0 \<or> lc_src lc = []" "n + k \<le> length src"
  shows "\<exists>lc'. drain_steps k lc = Some lc' \<and> enc_inv src (n + k) lc' \<and> outs lc' = outs lc"
  using assms
proof (induction k arbitrary: n lc)
  case (Suc k)
  have src: "lc_src lc = []" "lc_len lc \<noteq> 0" using Suc.prems by (auto simp: enc_inv_def UPLIM_def)
  from drain_step_inv [OF Suc.prems(1) src] obtain sp0 sp where S: "delete_node (lc_s lc) (lc_sp lc) = Some sp0"
    "(if lc_len lc - 1 \<noteq> 0 then insert_node (next_pos (lc_r lc)) sp0 else Some sp0) = Some sp"
    and I: "enc_inv src (Suc n) (lc\<lparr>lc_sp := sp, lc_len := lc_len lc - 1, lc_r := next_pos (lc_r lc), lc_s := next_pos (lc_s lc)\<rparr>)"
    by blast
  let ?lc = "lc\<lparr>lc_sp := sp, lc_len := lc_len lc - 1, lc_r := next_pos (lc_r lc), lc_s := next_pos (lc_s lc)\<rparr>"
  have e: "drain_steps (Suc k) lc = drain_steps k ?lc" using S by (auto simp: Let_def split: if_splits)
  have "\<exists>lc'. drain_steps k ?lc = Some lc' \<and> enc_inv src (Suc n + k) lc' \<and> outs lc' = outs ?lc"
    by (rule Suc.IH [OF I]) (use src Suc.prems(3) in auto)
  then show ?case unfolding e by (auto simp: outs_def)
qed auto

text \<open>The unit that the code sends is a right token.\<close>

lemma code_unit_token:
  assumes I: "enc_inv src n lc" and n: "n < length src"
  shows "\<exists>u. token_at src n u \<and> code_unit (lc_sp lc) (lc_len lc) (lc_r lc) mk flags units =
    Some (width u, if is_lit u then flags OR mk else flags, units @ token_bytes u)"
proof -
  let ?sp = "lc_sp lc"
  define ml where "ml = (if match_length ?sp > lc_len lc then lc_len lc else match_length ?sp)"
  have i: "lc_len lc = min UPLIM (length src - n)" "lc_r lc = (lead + n) mod RBSIZE" "text_ok src n (text_buf ?sp)"
    using I by (auto simp: enc_inv_def)
  then have "lc_len lc \<noteq> 0" using n by (simp add: UPLIM_def)
  then obtain V where M: "matched V (lc_r lc) ?sp" "V \<subseteq> window n (lead + n)" using I by (auto simp: enc_inv_def)
  have here: "text_buf ?sp (lc_r lc + k) = src ! (n + k)" if "k < lc_len lc" for k
  proof -
    have "text_buf ?sp (lc_r lc + k) = padded src ! (lead + n + k)"
      unfolding i(2) by (rule text_read [OF i(3)]) (use that i(1) in \<open>auto simp: length_padded lead_sizes\<close>)
    then show ?thesis using padded_nth [of src "n + k"] by (simp add: add.assoc)
  qed
  show ?thesis
  proof (cases "ml \<le> THRESHOLD")
    case True
    have "token_at src n (Lit (text_buf ?sp (lc_r lc)))" using here [of 0] \<open>lc_len lc \<noteq> 0\<close> n by (simp add: token_at_def)
    moreover have "lc_r lc < RBSIZE + UPLIM - 1" using mod_less_divisor [of RBSIZE "lead + n"] by (simp add: i(2) lead_sizes)
    ultimately show ?thesis using True unfolding code_unit_def ml_def [symmetric]
      by (intro exI [of _ "Lit (text_buf ?sp (lc_r lc))"]) simp
  next
    case False
    then have "match_length ?sp \<noteq> 0" by (auto simp: ml_def split: if_splits)
    then have mp: "match_position ?sp \<in> V"
      "\<And>k. k < match_length ?sp \<Longrightarrow> text_buf ?sp (lc_r lc + k) = text_buf ?sp (match_position ?sp + k)"
      using M(1) by (auto simp: matched_def)
    then obtain a where a: "match_position ?sp = a mod RBSIZE" "n \<le> a" "a < lead + n" using M(2) by (auto simp: window_def)
    have ml: "ml \<le> match_length ?sp" "ml \<le> lc_len lc" "ml \<le> UPLIM" "n + ml \<le> length src"
      using i(1) n by (auto simp: ml_def)
    have "padded src ! (a + k) = src ! (n + k)" if k: "k < ml" for k
    proof -
      have "text_buf ?sp (match_position ?sp + k) = padded src ! (a + k)"
        unfolding a(1) by (rule text_read [OF i(3) a(2)]) (use k a(3) ml i(1) in \<open>auto simp: length_padded lead_sizes\<close>)
      then show ?thesis using mp(2) [of k] here [of k] k ml by auto
    qed
    then have "token_at src n (Ref (match_position ?sp) ml)" using False a ml by (auto simp: token_at_def)
    then show ?thesis using False unfolding code_unit_def ml_def [symmetric]
      by (intro exI [of _ "Ref (match_position ?sp) ml"]) (simp add: ref_low_def)
  qed
qed

text \<open>Groups sent and the tokens of the group in the code buffer.\<close>

definition out_inv :: "nat \<Rightarrow> token list \<Rightarrow> token list \<Rightarrow> lzss_comp \<Rightarrow> bool" where
  "out_inv dstlen us ps lc \<longleftrightarrow> 8 dvd length us \<and> length ps < 8 \<and> length (pack us) \<le> dstlen \<and>
     outs lc = (pack us, flag_byte ps, concat (map token_bytes ps), push_bit (length ps) 1)"

lemma pack_group: "us \<noteq> [] \<Longrightarrow> length us \<le> 8 \<Longrightarrow> pack us = flag_byte us # concat (map token_bytes us)"
  by (simp add: pack.simps [of us] pack.simps [of "[]"])

lemma mask_end:
  assumes "k < 8"
  shows "push_bit 1 (push_bit k (1 :: byte)) = 0 \<longleftrightarrow> k = 7"
proof -
  have "push_bit 1 (push_bit k (1 :: byte)) = push_bit (Suc k) 1" by simp
  moreover have "push_bit (Suc k) (1 :: byte) \<noteq> 0 \<longleftrightarrow> Suc k < 8"
    using possible_bit_word [where 'a = 8, of "Suc k", unfolded possible_bit_def] by (simp only: push_bit_eq_mult mult_1_left) simp
  ultimately show ?thesis using assms by (auto simp: mult.commute)
qed

lemma enc_inv_cong:
  "lc_sp lc' = lc_sp lc \<Longrightarrow> lc_src lc' = lc_src lc \<Longrightarrow> lc_len lc' = lc_len lc \<Longrightarrow> lc_r lc' = lc_r lc \<Longrightarrow> lc_s lc' = lc_s lc \<Longrightarrow>
     enc_inv src n lc' = enc_inv src n lc"
  by (simp only: enc_inv_def)

lemma advance_inv:
  assumes "enc_inv src n lc1" "n + w \<le> length src"
  shows "\<exists>lc'. do { (n, lc2) \<leftarrow> read_steps w lc1; lc3 \<leftarrow> drain_steps n lc2; Some (Some lc3) } = Some (Some lc') \<and>
      enc_inv src (n + w) lc' \<and> outs lc' = outs lc1"
proof -
  obtain j lc2 where A: "read_steps w lc1 = Some (j, lc2)" "j \<le> w" "enc_inv src (n + (w - j)) lc2"
    "j \<noteq> 0 \<longrightarrow> lc_src lc2 = []" "outs lc2 = outs lc1" using read_steps_inv [OF assms(1)] by blast
  then obtain lc3 where "drain_steps j lc2 = Some lc3" "enc_inv src (n + (w - j) + j) lc3" "outs lc3 = outs lc2"
    using drain_steps_inv [OF A(3), of j] assms(2) by auto
  then show ?thesis using A by simp
qed

lemma compress_round_inv:
  assumes I: "enc_inv src n lc" and n: "n < length src" and O: "out_inv dstlen us ps lc"
  shows "\<exists>u. token_at src n u \<and>
    (compress_round dstlen lc = Some None \<and> dstlen < length (pack (us @ ps @ [u])) \<or>
     (\<exists>lc' us' ps'. compress_round dstlen lc = Some (Some lc') \<and> enc_inv src (n + width u) lc' \<and>
        out_inv dstlen us' ps' lc' \<and> us' @ ps' = us @ ps @ [u]))"
proof -
  have o: "8 dvd length us" "length ps < 8" "length (pack us) \<le> dstlen" "lc_dst lc = pack us" "lc_flags lc = flag_byte ps"
    "lc_units lc = concat (map token_bytes ps)" "lc_mask lc = push_bit (length ps) 1"
    using O by (auto simp: out_inv_def outs_def)
  obtain u where u: "token_at src n u" "code_unit (lc_sp lc) (lc_len lc) (lc_r lc) (lc_mask lc) (lc_flags lc) (lc_units lc) =
      Some (width u, if is_lit u then lc_flags lc OR lc_mask lc else lc_flags lc, lc_units lc @ token_bytes u)"
    using code_unit_token [OF I n] by blast
  have f: "(if is_lit u then lc_flags lc OR lc_mask lc else lc_flags lc) = flag_byte (ps @ [u])"
    using flag_byte_snoc [OF o(2)] o(5,7) by simp
  have b: "lc_units lc @ token_bytes u = concat (map token_bytes (ps @ [u]))" using o(6) by simp
  have pk: "pack (us @ ps @ [u]) = pack us @ flag_byte (ps @ [u]) # concat (map token_bytes (ps @ [u]))"
    using pack_append [OF o(1)] pack_group [of "ps @ [u]"] o(2) by simp
  define sent where "sent = (if push_bit 1 (lc_mask lc) = 0 then
      map_option (\<lambda>dst. lc\<lparr>lc_dst := dst, lc_flags := 0, lc_units := [], lc_mask := 1\<rparr>)
        (put_code dstlen (flag_byte (ps @ [u])) (concat (map token_bytes (ps @ [u]))) (lc_dst lc))
    else Some (lc\<lparr>lc_flags := flag_byte (ps @ [u]), lc_units := concat (map token_bytes (ps @ [u])),
      lc_mask := push_bit 1 (lc_mask lc)\<rparr>))"
  have R: "compress_round dstlen lc = (case sent of None \<Rightarrow> Some None
     | Some lc1 \<Rightarrow> do { (n, lc2) \<leftarrow> read_steps (width u) lc1; lc3 \<leftarrow> drain_steps n lc2; Some (Some lc3) })"
    unfolding compress_round_def u(2) f b sent_def by (simp only: Let_def prod.case bind.bind_lunit)
  have S: "sent = None \<and> dstlen < length (pack (us @ ps @ [u])) \<or>
    (\<exists>lc1 us' ps'. sent = Some lc1 \<and> enc_inv src n lc1 \<and> out_inv dstlen us' ps' lc1 \<and> us' @ ps' = us @ ps @ [u])"
  proof (cases "length ps = 7")
    case True
    then have m: "push_bit 1 (lc_mask lc) = 0" using mask_end [OF o(2)] o(7) by simp
    show ?thesis
    proof (cases "length (pack (us @ ps @ [u])) \<le> dstlen")
      case fits: True
      let ?lc = "lc\<lparr>lc_dst := pack (us @ ps @ [u]), lc_flags := 0, lc_units := [], lc_mask := 1\<rparr>"
      have "sent = Some ?lc" using m fits pk o(4) by (simp add: sent_def put_code_def)
      moreover have "enc_inv src n ?lc" using I by (subst enc_inv_cong [of _ lc]) simp_all
      moreover have "out_inv dstlen (us @ ps @ [u]) [] ?lc"
        using o(1) True fits by (simp add: out_inv_def outs_def flag_byte_def)
      ultimately show ?thesis by (intro disjI2 exI [of _ ?lc] exI [of _ "us @ ps @ [u]"] exI [of _ "[]"]) simp
    next
      case False
      then show ?thesis using m pk o(4) by (simp add: sent_def put_code_def)
    qed
  next
    case False
    let ?lc = "lc\<lparr>lc_flags := flag_byte (ps @ [u]), lc_units := concat (map token_bytes (ps @ [u])), lc_mask := push_bit 1 (lc_mask lc)\<rparr>"
    have "sent = Some ?lc" using False mask_end [OF o(2)] o(7) by (simp add: sent_def)
    moreover have "enc_inv src n ?lc" using I by (subst enc_inv_cong [of _ lc]) simp_all
    moreover have "out_inv dstlen us (ps @ [u]) ?lc" using o False by (simp add: out_inv_def outs_def)
    ultimately show ?thesis by (intro disjI2 exI [of _ ?lc] exI [of _ us] exI [of _ "ps @ [u]"]) simp
  qed
  have "n + width u \<le> length src" using u(1) by (simp add: token_at_def)
  note A = advance_inv [OF _ this]
  show ?thesis using S u(1) A unfolding R out_inv_def by (elim disjE exE conjE) fastforce+
qed

section \<open>The size of the output\<close>

lemma pack_length: "length (pack us) = length (concat (map token_bytes us)) + (length us + 7) div 8"
proof (induction us rule: pack.induct)
  case (1 us)
  show ?case
  proof (cases "us = []")
    case False
    have "length (concat (map token_bytes us)) =
        length (concat (map token_bytes (take 8 us))) + length (concat (map token_bytes (drop 8 us)))"
      by (metis append_take_drop_id concat_append length_append map_append)
    moreover have "(length us + 7) div 8 = Suc ((length us - 8 + 7) div 8)"
      using False by (cases us) (auto simp: div_if)
    ultimately show ?thesis using 1 False by (simp add: pack.simps [of us])
  qed (simp add: pack.simps [of "[]"])
qed

lemma token_size: "token_at src n u \<Longrightarrow> length (token_bytes u) \<le> width u \<and> 1 \<le> width u"
  by (cases u) (auto simp: token_at_def THRESHOLD_def)

lemma covers_size:
  "covers src n us m \<Longrightarrow> n + length us \<le> m \<and> n + length (concat (map token_bytes us)) \<le> m"
proof (induction us arbitrary: n)
  case (Cons u us)
  then have "token_at src n u" "covers src (n + width u) us m" by simp_all
  from token_size [OF this(1)] Cons.IH [OF this(2)] show ?case by simp
qed auto

lemma covers_le: "covers src n us m \<Longrightarrow> n \<le> length src \<Longrightarrow> m \<le> length src"
  by (induction us arbitrary: n) (auto simp: token_at_def)

definition lzss_bound :: "nat \<Rightarrow> nat" where
  "lzss_bound n = n + (n + 7) div 8"

lemma pack_bound: "covers src 0 us m \<Longrightarrow> length (pack us) \<le> lzss_bound (length src)"
proof -
  assume C: "covers src 0 us m"
  have "length us \<le> length src" "length (concat (map token_bytes us)) \<le> length src"
    using covers_size [OF C] covers_le [OF C] by auto
  then show ?thesis unfolding pack_length lzss_bound_def by (intro add_mono div_le_mono) auto
qed

section \<open>The whole encoder\<close>

lemma compress_loop_inv:
  assumes "enc_inv src n lc" "n < length src" "out_inv dstlen us ps lc" "covers src 0 (us @ ps) n"
  shows "\<exists>res. compress_loop dstlen lc = Some res \<and>
    (case res of
       None \<Rightarrow> dstlen < lzss_bound (length src)
     | Some lc' \<Rightarrow> \<exists>us' ps'. out_inv dstlen us' ps' lc' \<and> covers src 0 (us' @ ps') (length src))"
  using assms
proof (induction "length src - n" arbitrary: n lc us ps rule: less_induct)
  case less
  obtain u where u: "token_at src n u" and R: "compress_round dstlen lc = Some None \<and> dstlen < length (pack (us @ ps @ [u])) \<or>
     (\<exists>lc' us' ps'. compress_round dstlen lc = Some (Some lc') \<and> enc_inv src (n + width u) lc' \<and>
        out_inv dstlen us' ps' lc' \<and> us' @ ps' = us @ ps @ [u])"
    using compress_round_inv [OF less.prems(1-3)] by blast
  have C: "covers src 0 (us @ ps @ [u]) (n + width u)"
    using less.prems(4) u covers_append [of src 0 "us @ ps" "[u]"] by auto
  show ?case
    using R
  proof (elim disjE exE conjE)
    assume "compress_round dstlen lc = Some None" "dstlen < length (pack (us @ ps @ [u]))"
    then show ?thesis using pack_bound [OF C] by (subst compress_loop.simps) simp
  next
    fix lc' us' ps'
    assume lc': "compress_round dstlen lc = Some (Some lc')" "enc_inv src (n + width u) lc'" "out_inv dstlen us' ps' lc'"
      "us' @ ps' = us @ ps @ [u]"
    have len: "lc_len lc' > 0 \<longleftrightarrow> n + width u < length src" "n + width u \<le> length src"
      using lc'(2) by (auto simp: enc_inv_def UPLIM_def)
    have C': "covers src 0 (us' @ ps') (n + width u)" using C lc'(4) by simp
    show ?thesis
    proof (cases "n + width u < length src")
      case True
      have "length src - (n + width u) < length src - n" using token_size [OF u] less.prems(2) by linarith
      from less.hyps [OF this lc'(2) True lc'(3) C'] show ?thesis
        using lc'(1) len True by (subst compress_loop.simps) simp
    next
      case False
      then have "compress_loop dstlen lc = Some (Some lc')" using lc'(1) len by (subst compress_loop.simps) simp
      then show ?thesis using lc'(3) C' False len(2) by auto
    qed
  qed
qed

lemma insert_strings_ok:
  assumes "forest V sp" "distinct rs" "set rs \<inter> V = {}" "set rs \<subseteq> {..<RBSIZE}"
  shows "\<exists>sp' V'. insert_strings rs sp = Some sp' \<and> forest V' sp' \<and> V' \<subseteq> V \<union> set rs \<and> text_buf sp' = text_buf sp"
  using assms
proof (induction rs arbitrary: V sp)
  case (Cons r rs)
  obtain sp1 V1 where S: "insert_node r sp = Some sp1" "forest V1 sp1" "V1 \<subseteq> insert r V" "text_buf sp1 = text_buf sp"
    using insert_node_within [OF Cons.prems(1), of r] Cons.prems by auto
  then have "set rs \<inter> V1 = {}" using Cons.prems by auto
  then obtain sp2 V2 where "insert_strings rs sp1 = Some sp2" "forest V2 sp2" "V2 \<subseteq> V1 \<union> set rs" "text_buf sp2 = text_buf sp1"
    using Cons.IH [OF S(2)] Cons.prems by auto
  then show ?case using S by (intro exI [of _ sp2] exI [of _ V2]) auto
qed auto

lemma insert_strings_append:
  "insert_strings (rs @ ss) sp = insert_strings rs sp \<bind> insert_strings ss"
  by (induction rs arbitrary: sp) (simp_all split: bind_split)

lemma fill_text:
  assumes "length bs \<le> UPLIM"
  shows "text_buf (fill_buffer bs sp) a = (if lead \<le> a \<and> a < lead + length bs then bs ! (a - lead) else text_buf sp a)"
proof -
  have "fold (\<lambda>i tb. tb(lead + i := bs ! i)) [0..<k] tb a = (if lead \<le> a \<and> a < lead + k then bs ! (a - lead) else tb a)" for k tb
    by (induction k) auto
  then show ?thesis unfolding fill_buffer_def lead_def by simp
qed

lemma start_inv:
  assumes "src \<noteq> []"
  shows "\<exists>sp. insert_strings (map (\<lambda>i. lead - i) [1..<Suc UPLIM] @ [lead]) (fill_buffer (take UPLIM src) init_state) = Some sp \<and>
    enc_inv src 0 \<lparr>lc_sp = sp, lc_src = drop UPLIM src, lc_dst = [], lc_flags = 0, lc_units = [],
       lc_mask = 1, lc_len = length (take UPLIM src), lc_r = lead, lc_s = 0\<rparr>"
proof -
  let ?sp = "fill_buffer (take UPLIM src) init_state" and ?rs = "map (\<lambda>i. lead - i) [1..<Suc UPLIM]"
  have d: "distinct ?rs" by (auto simp: distinct_map inj_on_def lead_sizes)
  have rs: "set ?rs \<subseteq> window 0 lead"
  proof
    fix x assume "x \<in> set ?rs"
    then have "x < lead" "x mod RBSIZE = x" by (auto simp: lead_sizes)
    then show "x \<in> window 0 lead" unfolding window_def by (intro image_eqI [of _ _ x]) auto
  qed
  have lt: "set ?rs \<subseteq> {..<RBSIZE}" using rs window_less by blast
  obtain sp1 V1 where A: "insert_strings ?rs ?sp = Some sp1" "forest V1 sp1" "V1 \<subseteq> set ?rs" "text_buf sp1 = text_buf ?sp"
    using insert_strings_ok [OF forest_init [of "take UPLIM src"] d Int_empty_right lt] unfolding Un_empty_left by blast
  have V1: "V1 \<subseteq> window 0 lead" using A(3) rs by blast
  have lr: "lead = lead mod RBSIZE" "lead < RBSIZE" by (simp_all add: lead_sizes)
  have "lead \<notin> V1" using window_fresh [of lead 0] V1 lr by auto
  then obtain sp2 V2 where B: "insert_node lead sp1 = Some sp2" "forest V2 sp2" "V2 \<subseteq> insert lead V1" "text_buf sp2 = text_buf sp1"
    "matched V1 lead sp2" using insert_node_within [OF A(2) _ lr(2)] by blast
  have "lead \<in> window 0 (lead + 1)" unfolding window_def by (rule image_eqI [of _ _ lead]) (use lr in auto)
  then have V2: "V2 \<subseteq> window 0 (lead + 0 + 1)" using B(3) V1 window_mono [of 0 0 lead "lead + 1"] by auto
  have T: "text_ok src 0 (text_buf sp2)"
    unfolding text_ok_def B(4) A(4)
    by (auto simp: fill_text length_padded lead_sizes padded_def nth_append init_state_def)
  have "enc_inv src 0 \<lparr>lc_sp = sp2, lc_src = drop UPLIM src, lc_dst = [], lc_flags = 0, lc_units = [],
       lc_mask = 1, lc_len = length (take UPLIM src), lc_r = lead, lc_s = 0\<rparr>"
    unfolding enc_inv_def using T B(2,5) V1 V2 lr by auto
  then show ?thesis using A(1) B(1) by (auto simp: insert_strings_append)
qed

theorem compress_lzss_pack:
  assumes "src \<noteq> []"
  shows "\<exists>res. compress_lzss True dstlen src = Some res \<and>
    (case res of
       None \<Rightarrow> dstlen < lzss_bound (length src)
     | Some out \<Rightarrow> \<exists>us. out = pack us \<and> covers src 0 us (length src) \<and> length out \<le> dstlen)"
proof -
  obtain sp where S: "insert_strings (map (\<lambda>i. lead - i) [1..<Suc UPLIM] @ [lead]) (fill_buffer (take UPLIM src) init_state) = Some sp"
    and I: "enc_inv src 0 \<lparr>lc_sp = sp, lc_src = drop UPLIM src, lc_dst = [], lc_flags = 0, lc_units = [],
       lc_mask = 1, lc_len = length (take UPLIM src), lc_r = lead, lc_s = 0\<rparr>" (is "enc_inv src 0 ?lc")
    using start_inv [OF assms] by blast
  have "out_inv dstlen [] [] ?lc" by (simp add: out_inv_def outs_def flag_byte_def pack.simps [of "[]"])
  then obtain res where R: "compress_loop dstlen ?lc = Some res" "case res of
       None \<Rightarrow> dstlen < lzss_bound (length src)
     | Some lc' \<Rightarrow> \<exists>us' ps'. out_inv dstlen us' ps' lc' \<and> covers src 0 (us' @ ps') (length src)"
    using compress_loop_inv [OF I] assms by fastforce
  define fin where "fin lc = (if lc_units lc \<noteq> [] then put_code dstlen (lc_flags lc) (lc_units lc) (lc_dst lc) else Some (lc_dst lc))" for lc :: lzss_comp
  have e: "compress_lzss True dstlen src = Some (case res of None \<Rightarrow> None | Some lc \<Rightarrow> fin lc)"
    unfolding compress_lzss_def lead_def [symmetric] Let_def fin_def using S R(1) assms by (cases src) (simp_all add: UPLIM_def)
  show ?thesis
  proof (cases res)
    case None
    then show ?thesis using e R(2) by simp
  next
    case (Some lc)
    then obtain us ps where O: "out_inv dstlen us ps lc" and C: "covers src 0 (us @ ps) (length src)" using R(2) by auto
    have o: "8 dvd length us" "length ps < 8" "length (pack us) \<le> dstlen" "lc_dst lc = pack us" "lc_flags lc = flag_byte ps"
      "lc_units lc = concat (map token_bytes ps)" using O by (auto simp: out_inv_def outs_def)
    have ps: "concat (map token_bytes ps) = [] \<longleftrightarrow> ps = []" by (cases ps; cases "hd ps") auto
    have "fin lc = (if length (pack (us @ ps)) \<le> dstlen then Some (pack (us @ ps)) else None)"
      using o ps pack_append [OF o(1), of ps] pack_group [of ps]
      by (auto simp: fin_def put_code_def pack.simps [of "[]"])
    then show ?thesis using e Some C pack_bound [OF C] by auto
  qed
qed

text \<open>
  C6. The LZSS encoder and decoder are inverse. On a source that is not empty the encoder returns; it fails only
  when the output buffer is smaller than the source with a byte for every eight, and otherwise the output fits and
  \<open>decompress\<close> gives exactly the source again.
\<close>

theorem compress_roundtrip:
  assumes "src \<noteq> []"
  shows "\<exists>res. Compression_compress True ModeLZSS dstlen src = Some res \<and>
    (res = None \<longrightarrow> dstlen < length src + (length src + 7) div 8) \<and>
    (\<forall>out. res = Some out \<longrightarrow> length out \<le> dstlen \<and>
       decompressInternal zlib junk ModeLZSS (length src) out True = Some src)"
proof -
  obtain res where R: "compress_lzss True dstlen src = Some res" "case res of
       None \<Rightarrow> dstlen < lzss_bound (length src)
     | Some out \<Rightarrow> \<exists>us. out = pack us \<and> covers src 0 us (length src) \<and> length out \<le> dstlen"
    using compress_lzss_pack [OF assms] by blast
  then show ?thesis using decompress_pack
    by (intro exI [of _ res]) (auto simp: Compression_compress_def decompressInternal_def Let_def lzss_bound_def)
qed

theorem compress_roundtrip_witness:
  "\<exists>out. Compression_compress True ModeLZSS 12 (replicate 9 7) = Some (Some out) \<and>
     decompressInternal (\<lambda>_ _. []) (\<lambda>_. 0) ModeLZSS 9 out True = Some (replicate 9 7)"
  using compress_roundtrip [of "replicate 9 7" 12 "\<lambda>_ _. []" "\<lambda>_. 0"] by auto

text \<open>
  C26. The search trees of the encoder stay well formed, and no index leaves its array. On every well-formed forest
  \<open>delete_node\<close> takes exactly the given position out. \<open>insert_node\<close> of a position outside puts exactly this position in;
  only when a match of the full length is reported, the position that matches leaves in exchange. The match that is
  reported is a node of the forest whose next \<open>match_length\<close> bytes are those at the new position.
\<close>

theorem lzss_trees_invariant:
  assumes "forest V sp" "r < RBSIZE"
  shows "(\<exists>sp'. delete_node r sp = Some sp' \<and> forest (V - {r}) sp' \<and> text_buf sp' = text_buf sp) \<and>
    (r \<in> V \<or> (\<exists>sp'. insert_node r sp = Some sp' \<and>
       forest (if match_length sp' = UPLIM then insert r V - {match_position sp'} else insert r V) sp' \<and>
       text_buf sp' = text_buf sp \<and> matched V r sp'))"
  using delete_node_ok [OF assms] insert_node_ok [OF assms(1) _ assms(2)] by blast

theorem lzss_trees_invariant_witness:
  "\<exists>sp'. insert_node 7 (fill_buffer [] init_state) = Some sp' \<and> forest {7} sp'"
  using lzss_trees_invariant [OF forest_init, of 7 "[]"] by (auto simp: RBSIZE_def UPLIM_def matched_def split: if_splits)

end
