(* ===== verification/Nv_Storage.thy ===== *)
theory Nv_Storage
  imports Crypto Lzss_Roundtrip
begin

text \<open>
  \<open>kern_nvram.cpp\<close>: values in the properties of the \<open>/options\<close> node, with a header, compression, encryption and a
  checksum as the options ask for. What the kernel does is a parameter of every operation: allocation, random numbers, AES,
  the checksum, and whether the node takes a value. An outer \<open>None\<close> is a store outside a buffer or an access through
  a null pointer.
\<close>

section \<open>State\<close>

datatype property = OSData "byte list" | OtherObject

text \<open>
  The node of the registry: whether it is an \<open>IODTNVRAM\<close>, its properties, the properties it had at each call of its
  \<open>sync\<close> (the last one first), whether it says that this is safe, and its references. What \<open>sync\<close> does is code of the
  kernel and not modelled.
\<close>

record nventry =
  nv_is_dtnvram :: bool
  nv_props :: "string \<Rightarrow> property option"
  nv_syncs :: "(string \<Rightarrow> property option) list"
  nv_safe :: bool
  nv_refs :: nat

record nvstorage =
  nv_options :: "nventry option"
  dtEntry :: bool

record ('e, 'd) nvenv =
  env_alloc :: "nat \<Rightarrow> bool"
  env_random :: "nat \<Rightarrow> byte list"
  env_aes :: "('e, 'd) aes"
  env_crc32 :: "byte list \<Rightarrow> u32"
  env_accepts :: "string \<Rightarrow> byte list \<Rightarrow> bool"
  env_junk :: "nat \<Rightarrow> byte"

definition OptRaw :: byte where "OptRaw = 1"
definition OptCompressed :: byte where "OptCompressed = 2"
definition OptEncrypted :: byte where "OptEncrypted = 4"
definition OptChecksum :: byte where "OptChecksum = 8"
definition OptSensitive :: byte where "OptSensitive = 16"

definition HeaderMagic :: u16 where "HeaderMagic = 0xC717"
definition HeaderMaxVer :: byte where "HeaderMaxVer = 1"

abbreviation opt_set :: "byte \<Rightarrow> byte \<Rightarrow> bool" where
  "opt_set opts o1 \<equiv> opts AND o1 \<noteq> 0"

text \<open>The packed header: magic, version, options.\<close>

definition nv_header :: "byte \<Rightarrow> byte list" where
  "nv_header opts = le_bytes 2 HeaderMagic @ [HeaderMaxVer, opts]"

section \<open>Connection\<close>

definition NVStorage_init :: "nvstorage \<Rightarrow> bool \<times> nvstorage" where
  "NVStorage_init st =
     (case nv_options st of
        None \<Rightarrow> (False, st\<lparr>dtEntry := False\<rparr>)
      | Some e \<Rightarrow>
          (let e1 = e\<lparr>nv_refs := nv_refs e + 1\<rparr> in
           if \<not> nv_is_dtnvram e1
           then (False, st\<lparr>nv_options := Some (e1\<lparr>nv_refs := nv_refs e1 - 1\<rparr>), dtEntry := False\<rparr>)
           else (True, st\<lparr>nv_options := Some e1, dtEntry := True\<rparr>)))"

definition NVStorage_deinit :: "nvstorage \<Rightarrow> nvstorage" where
  "NVStorage_deinit st =
     (if dtEntry st
      then st\<lparr>nv_options := map_option (\<lambda>e. e\<lparr>nv_refs := nv_refs e - 1\<rparr>) (nv_options st), dtEntry := False\<rparr>
      else st)"

text \<open>The node behind \<open>dtEntry\<close>.\<close>

definition nv_node :: "nvstorage \<Rightarrow> nventry option" where
  "nv_node st = (if dtEntry st then nv_options st else None)"

definition nv_data :: "string \<Rightarrow> nventry \<Rightarrow> byte list option" where
  "nv_data key e = (case nv_props e key of Some (OSData bs) \<Rightarrow> Some bs | _ \<Rightarrow> None)"

section \<open>Compression of values\<close>

text \<open>
  The size of the source goes in front. The encoder is told that the whole buffer of \<open>size + 1024\<close> bytes is behind the
  size, so it may run four bytes past its end; when it gives up because the output is full, it has filled all it was told of.
\<close>

definition sizeof_encode_state :: nat where "sizeof_encode_state = 54312"

definition nv_compress :: "('e, 'd) nvenv \<Rightarrow> byte list \<Rightarrow> byte list option option" where
  "nv_compress env src =
     (let dstSize = unat (of_nat (length src) + 1024 :: u32); got = buffer_available (env_alloc env) sizeof_encode_state in
      if \<not> buffer_available (env_alloc env) dstSize then Some None
      else if dstSize < 4 then None
      else
        (case Compression_compress got ModeLZSS dstSize src of
           None \<Rightarrow> None
         | Some None \<Rightarrow> if got \<and> src \<noteq> [] then None else Some None
         | Some (Some out) \<Rightarrow>
             if 4 + length out \<le> dstSize then Some (Some (le_bytes 4 (of_nat (length src) :: u32) @ out)) else None))"

text \<open>The other compressions are not used here.\<close>

definition nv_decompress :: "('e, 'd) nvenv \<Rightarrow> byte list \<Rightarrow> byte list option" where
  "nv_decompress env src =
     (if length src \<le> 4 then None
      else
        (let dstSize = unat (le_word (take 4 src) :: u32) in
         if buffer_available (env_alloc env) dstSize
         then decompressInternal (\<lambda>_ _. []) (env_junk env) ModeLZSS dstSize (drop 4 src) True
         else None))"

section \<open>Reading and writing\<close>

definition checksum_ok :: "('e, 'd) nvenv \<Rightarrow> byte list \<Rightarrow> bool" where
  "checksum_ok env bs = (le_word (drop (length bs - 4) bs) = env_crc32 env (take (length bs - 4) bs))"

definition nv_payload :: "('e, 'd) nvenv \<Rightarrow> byte \<Rightarrow> byte list option \<Rightarrow> byte list \<Rightarrow> byte list option" where
  "nv_payload env opts enckey bs =
     (if length bs < 4 then None
      else
        (let hopts = bs ! 3; payload = drop 4 bs in
         if le_word (take 2 bs) \<noteq> HeaderMagic \<or> bs ! 2 > HeaderMaxVer \<or> hopts AND opts \<noteq> opts then None
         else do {
           payload \<leftarrow> (if opt_set hopts OptChecksum
                       then if length payload < 4 \<or> \<not> checksum_ok env bs then None
                            else Some (take (length payload - 4) payload)
                       else Some payload);
           payload \<leftarrow> unstage (opt_set hopts OptEncrypted) (decrypt (env_aes env) (env_alloc env) enckey) payload;
           payload \<leftarrow> unstage (opt_set hopts OptCompressed) (nv_decompress env) payload;
           if opt_set hopts OptEncrypted \<or> opt_set hopts OptCompressed \<or> buffer_available (env_alloc env) (length payload)
           then Some payload else None
         }))"

definition nv_read_node :: "('e, 'd) nvenv \<Rightarrow> string \<Rightarrow> byte \<Rightarrow> byte list option \<Rightarrow> nventry \<Rightarrow> byte list option" where
  "nv_read_node env key opts enckey e = do {
     bs \<leftarrow> nv_data key e;
     if bs = [] then None
     else if opt_set opts OptRaw then if buffer_available (env_alloc env) (length bs) then Some bs else None
     else nv_payload env opts enckey bs
   }"

definition NVStorage_read :: "('e, 'd) nvenv \<Rightarrow> string \<Rightarrow> byte \<Rightarrow> byte list option \<Rightarrow> nvstorage
    \<Rightarrow> byte list option option" where
  "NVStorage_read env key opts enckey st = map_option (nv_read_node env key opts enckey) (nv_node st)"

definition NVStorage_read_data :: "('e, 'd) nvenv \<Rightarrow> string \<Rightarrow> byte \<Rightarrow> byte list option \<Rightarrow> nvstorage
    \<Rightarrow> property option option" where
  "NVStorage_read_data env key opts enckey st =
     map_option (\<lambda>res. do { buf \<leftarrow> res; if env_alloc env (length buf) then Some (OSData buf) else None })
       (NVStorage_read env key opts enckey st)"

text \<open>The bytes that are stored for a value.\<close>

definition nv_record :: "('e, 'd) nvenv \<Rightarrow> byte \<Rightarrow> byte list option \<Rightarrow> byte list \<Rightarrow> byte list option option" where
  "nv_record env opts enckey src =
     (if opt_set opts OptRaw then Some (Some src)
      else
        (case stage (opt_set opts OptCompressed) (nv_compress env) src of
           None \<Rightarrow> None
         | Some None \<Rightarrow> Some None
         | Some (Some packed) \<Rightarrow>
             (case stage (opt_set opts OptEncrypted) (encrypt (env_aes env) (env_alloc env) (env_random env) enckey) packed of
                None \<Rightarrow> None
              | Some None \<Rightarrow> Some None
              | Some (Some payload) \<Rightarrow>
                  (let sum = (if opt_set opts OptChecksum then 4 else 0);
                       sz = unat (4 + of_nat (length payload) + of_nat sum :: u32);
                       buf = nv_header (opts AND NOT OptSensitive) @ payload
                   in if \<not> buffer_available (env_alloc env) sz then Some None
                      else if sz < length buf + sum then None
                      else Some (Some (if opt_set opts OptChecksum then buf @ le_bytes 4 (env_crc32 env buf) else buf))))))"

definition nv_set :: "('e, 'd) nvenv \<Rightarrow> string \<Rightarrow> byte list \<Rightarrow> nvstorage \<Rightarrow> bool \<times> nvstorage" where
  "nv_set env key bs st =
     (if env_accepts env key bs
      then (True, st\<lparr>nv_options := map_option (\<lambda>e. e\<lparr>nv_props := (nv_props e)(key \<mapsto> OSData bs)\<rparr>) (nv_options st)\<rparr>)
      else (False, st))"

definition NVStorage_write :: "('e, 'd) nvenv \<Rightarrow> string \<Rightarrow> byte list \<Rightarrow> byte \<Rightarrow> byte list option \<Rightarrow> nvstorage
    \<Rightarrow> (bool \<times> nvstorage) option" where
  "NVStorage_write env key src opts enckey st =
     (if src = [] then Some (False, st)
      else
        (case nv_record env opts enckey src of
           None \<Rightarrow> None
         | Some None \<Rightarrow> Some (False, st)
         | Some (Some bs) \<Rightarrow>
             if \<not> env_alloc env (length bs) then Some (False, st)
             else if nv_node st = None then None else Some (nv_set env key bs st)))"

definition NVStorage_write_data :: "('e, 'd) nvenv \<Rightarrow> string \<Rightarrow> byte list option \<Rightarrow> byte \<Rightarrow> byte list option \<Rightarrow> nvstorage
    \<Rightarrow> (bool \<times> nvstorage) option" where
  "NVStorage_write_data env key data opts enckey st =
     (case data of None \<Rightarrow> Some (False, st) | Some src \<Rightarrow> NVStorage_write env key src opts enckey st)"

section \<open>Removal\<close>

definition NVStorage_sync :: "nvstorage \<Rightarrow> bool \<times> nvstorage" where
  "NVStorage_sync st =
     (case nv_node st of
        None \<Rightarrow> (False, st)
      | Some e \<Rightarrow> if nv_is_dtnvram e \<and> nv_safe e then (True, st\<lparr>nv_options := Some (e\<lparr>nv_syncs := nv_props e # nv_syncs e\<rparr>)\<rparr>)
                  else (False, st))"

text \<open>A sensitive value is overwritten in place, so that the node holds zeros whether or not it takes them again.\<close>

definition nv_scrub :: "string \<Rightarrow> nvstorage \<Rightarrow> nvstorage" where
  "nv_scrub key st =
     (case nv_node st of
        None \<Rightarrow> st
      | Some e \<Rightarrow>
          (case nv_data key e of
             None \<Rightarrow> st
           | Some bs \<Rightarrow>
               if bs = [] then st
               else snd (NVStorage_sync (st\<lparr>nv_options :=
                      Some (e\<lparr>nv_props := (nv_props e)(key \<mapsto> OSData (replicate (length bs) 0))\<rparr>)\<rparr>))))"

definition NVStorage_remove :: "string \<Rightarrow> bool \<Rightarrow> nvstorage \<Rightarrow> (bool \<times> nvstorage) option" where
  "NVStorage_remove key sensitive st =
     (if nv_node st = None then None
      else
        (let st1 = (if sensitive then nv_scrub key st else st) in
         Some (True, st1\<lparr>nv_options := map_option (\<lambda>e. e\<lparr>nv_props := (nv_props e)(key := None)\<rparr>) (nv_options st1)\<rparr>)))"

definition NVStorage_exists :: "string \<Rightarrow> nvstorage \<Rightarrow> bool option" where
  "NVStorage_exists key st = map_option (\<lambda>e. nv_data key e \<noteq> None) (nv_node st)"

end
