(* ===== verification/Nv_Correct.thy ===== *)
theory Nv_Correct
  imports Nv_Storage
begin

text \<open>
  Values in NVRAM: compression of values is a codec, stored values can be read again, and what the options and the
  sizes make impossible. The codec locale of \<open>Crypto\<close> is interpreted on the compression here.
\<close>

section \<open>Compression of values is a codec\<close>

lemma nv_compress_parts:
  assumes "nv_compress env src = Some (Some y)"
  obtains out us where "y = le_bytes 4 (of_nat (length src) :: u32) @ out" "out = pack us" "covers src 0 us (length src)"
    "src \<noteq> []" "4 + length out < 2 ^ 32"
proof -
  define n where "n = unat (of_nat (length src) + 1024 :: u32)"
  define got where "got = buffer_available (env_alloc env) sizeof_encode_state"
  obtain out where out: "compress_lzss got n src = Some (Some out)" "4 + length out \<le> n"
    "y = le_bytes 4 (of_nat (length src) :: u32) @ out"
    using assms unfolding nv_compress_def n_def got_def
    by (auto simp: Let_def Compression_compress_def split: if_splits option.splits)
  have ne: "got \<and> src \<noteq> []" using out(1) by (auto simp: compress_lzss_def Let_def split: if_splits)
  then obtain us where "out = pack us" "covers src 0 us (length src)"
    using compress_lzss_pack [of src n] out(1) by auto
  moreover have "n < 2 ^ 32" unfolding n_def using unsigned_less [of "of_nat (length src) + 1024 :: u32", where 'a = nat] by simp
  ultimately show thesis using that out ne by auto
qed

lemma pack_not_empty: "us \<noteq> [] \<Longrightarrow> pack us \<noteq> []"
  by (simp add: pack.simps [of us])

interpretation lzss: codec "\<lambda>src. length src < 2 ^ 32 \<and> buffer_available (env_alloc env) (length src)" "nv_compress env" "nv_decompress env" for env
proof
  fix src y
  assume adm: "length src < 2 ^ 32 \<and> buffer_available (env_alloc env) (length src)" and "nv_compress env src = Some (Some y)"
  then obtain out us where y: "y = le_bytes 4 (of_nat (length src) :: u32) @ out" "out = pack us" "covers src 0 us (length src)"
    "src \<noteq> []" by (elim nv_compress_parts)
  have "us \<noteq> []" using y(3,4) by auto
  then have "out \<noteq> []" using y(2) pack_not_empty by simp
  moreover have "unat (le_word (take 4 y) :: u32) = length src"
    using adm y(1) by (simp add: le_word_le_bytes unat_of_nat)
  ultimately show "nv_decompress env y = Some src"
    using adm y(1) decompress_pack [OF y(3) order_refl] y(2)
    by (simp add: nv_decompress_def Let_def decompressInternal_def)
qed

section \<open>What is stored can be read\<close>

lemma nv_header_read:
  "length (nv_header opts) = 4" "le_word (take 2 (nv_header opts)) = HeaderMagic"
  "(nv_header opts @ bs) ! 2 = HeaderMaxVer" "(nv_header opts @ bs) ! 3 = opts" "drop 4 (nv_header opts @ bs) = bs"
  by (simp_all add: nv_header_def le_word_le_bytes nth_append)

lemma opt_set_plain:
  "opt_set (opts AND NOT OptSensitive) OptCompressed = opt_set opts OptCompressed"
  "opt_set (opts AND NOT OptSensitive) OptEncrypted = opt_set opts OptEncrypted"
  "opt_set (opts AND NOT OptSensitive) OptChecksum = opt_set opts OptChecksum"
  by (simp_all add: OptSensitive_def OptCompressed_def OptEncrypted_def OptChecksum_def and.assoc)

lemma checksum_ok_append: "checksum_ok env (buf @ le_bytes 4 (env_crc32 env buf))"
  by (simp add: checksum_ok_def le_word_le_bytes)

lemma nv_payload_record:
  assumes A: "aes_cbc (env_aes env)" "length (env_random env 16) = 16"
    and src: "length src < 2 ^ 32" "buffer_available (env_alloc env) (length src)"
    and W: "nv_record env opts enckey src = Some (Some bs)" "\<not> opt_set opts OptRaw"
    and R: "(opts AND NOT OptSensitive) AND ropts = ropts"
  shows "nv_payload env ropts enckey bs = Some src"
proof -
  let ?C = "opt_set opts OptCompressed" and ?E = "opt_set opts OptEncrypted" and ?S = "opt_set opts OptChecksum"
  let ?h = "nv_header (opts AND NOT OptSensitive)"
  from W obtain packed payload where P: "stage ?C (nv_compress env) src = Some (Some packed)"
    and Q: "stage ?E (encrypt (env_aes env) (env_alloc env) (env_random env) enckey) packed = Some (Some payload)"
    and bs: "bs = (if ?S then (?h @ payload) @ le_bytes 4 (env_crc32 env (?h @ payload)) else ?h @ payload)"
    unfolding nv_record_def by (auto simp: Let_def split: if_splits option.splits)
  have "length packed < 2 ^ 32"
    using P src(1) by (auto simp: stage_def split: if_splits elim!: nv_compress_parts)
  then have U: "unstage ?E (decrypt (env_aes env) (env_alloc env) enckey) payload = Some packed"
    using codec.unstage_stage [OF encrypt_codec [where read_random = "env_random env", OF A] _ Q] by blast
  have V: "unstage ?C (nv_decompress env) packed = Some src" using lzss.unstage_stage P src by blast
  show ?thesis
  proof (cases ?S)
    case True
    then have b: "bs = ?h @ (payload @ le_bytes 4 (env_crc32 env (?h @ payload)))" "checksum_ok env bs"
      using bs checksum_ok_append [of env "?h @ payload"] by auto
    show ?thesis
      unfolding nv_payload_def using U V True R b(2) src(2) unfolding b(1)
      by (simp add: Let_def nv_header_read opt_set_plain)
  next
    case False
    then have "bs = ?h @ payload" using bs by simp
    then show ?thesis
      unfolding nv_payload_def using U V False R src(2) by (simp add: Let_def nv_header_read opt_set_plain)
  qed
qed

text \<open>
  C7. A value that \<open>write\<close> stored is read again. With any options, over an AES whose decryption undoes its encryption
  and any checksum, when a write succeeds then a read of the same key returns exactly the bytes written, if it asks for
  raw data when the write did, and otherwise for none but options of the write other than \<open>OptSensitive\<close>.
\<close>

theorem NVStorage_write_read:
  assumes "aes_cbc (env_aes env)" "length (env_random env 16) = 16"
    "length src < 2 ^ 32" "buffer_available (env_alloc env) (length src)"
    "NVStorage_write env key src opts enckey st = Some (True, st')"
    "if opt_set opts OptRaw then opt_set ropts OptRaw else (opts AND NOT OptSensitive) AND ropts = ropts"
  shows "NVStorage_read env key ropts enckey st' = Some (Some src)"
proof -
  obtain bs e where B: "nv_record env opts enckey src = Some (Some bs)" "src \<noteq> []" and e: "nv_node st = Some e"
    and st': "nv_node st' = Some (e\<lparr>nv_props := (nv_props e)(key \<mapsto> OSData bs)\<rparr>)"
    using assms(5) unfolding NVStorage_write_def nv_set_def nv_node_def
    by (auto split: if_splits option.splits)
  have r: "nv_data key (e\<lparr>nv_props := (nv_props e)(key \<mapsto> OSData bs)\<rparr>) = Some bs" by (simp add: nv_data_def)
  show ?thesis
  proof (cases "opt_set opts OptRaw")
    case True
    then have "bs = src" using B(1) by (simp add: nv_record_def)
    then show ?thesis using True assms(4,6) B(2) r st' by (simp add: NVStorage_read_def nv_read_node_def)
  next
    case False
    then have R: "(opts AND NOT OptSensitive) AND ropts = ropts" using assms(6) by simp
    have "ropts AND OptRaw = (opts AND OptRaw) AND (NOT OptSensitive AND ropts)"
      by (subst R [symmetric]) (simp only: and.assoc and.commute and.left_commute)
    then have raw: "\<not> opt_set ropts OptRaw" using False by simp
    have P: "nv_payload env ropts enckey bs = Some src" by (rule nv_payload_record [OF assms(1-4) B(1) False R])
    then have "bs \<noteq> []" by (auto simp: nv_payload_def)
    then show ?thesis using P raw r st' by (simp add: NVStorage_read_def nv_read_node_def)
  qed
qed

text \<open>A connected node and a kernel that grants everything, for evaluation.\<close>

definition nv_env0 :: "(byte list, byte list) nvenv" where
  "nv_env0 = \<lparr>env_alloc = (\<lambda>_. True), env_random = (\<lambda>n. replicate n 9), env_aes = xor_cipher,
     env_crc32 = (\<lambda>bs. of_nat (length bs)), env_accepts = (\<lambda>_ _. True), env_junk = (\<lambda>_. 0)\<rparr>"

definition nv_st0 :: nvstorage where
  "nv_st0 = \<lparr>nv_options = Some \<lparr>nv_is_dtnvram = True, nv_props = Map.empty, nv_syncs = [], nv_safe = True, nv_refs = 1\<rparr>,
     dtEntry = True\<rparr>"

theorem NVStorage_write_read_witness:
  "\<exists>st'. NVStorage_write nv_env0 ''k'' [1, 2, 3] 12 (Some (replicate 16 5)) nv_st0 = Some (True, st') \<and>
     NVStorage_read nv_env0 ''k'' 4 (Some (replicate 16 5)) st' = Some (Some [1, 2, 3])"
proof -
  have "\<exists>st'. NVStorage_write nv_env0 ''k'' [1, 2, 3] 12 (Some (replicate 16 5)) nv_st0 = Some (True, st')"
    by (simp add: NVStorage_write_def nv_record_def nv_env0_def nv_st0_def OptRaw_def OptCompressed_def OptEncrypted_def
        OptChecksum_def stage_def encrypt_def encrypt_sizes_def Let_def buffer_available_def buffer_max_def xor_cipher_def
        nv_header_def nv_set_def nv_node_def BlockSize_def)
  moreover have "buffer_available (env_alloc nv_env0) (length [1 :: byte, 2, 3])"
    by (simp add: nv_env0_def buffer_available_def buffer_max_def)
  ultimately show ?thesis
    using NVStorage_write_read [of nv_env0 "[1, 2, 3]" "''k''" 12 "Some (replicate 16 5)" nv_st0 _ 4] xor_cipher_ok
    by (auto simp: nv_env0_def OptRaw_def OptSensitive_def)
qed

text \<open>
  C34. A value written with \<open>OptSensitive\<close> cannot be read with \<open>OptSensitive\<close>: \<open>write\<close> leaves the option out of the header, and
  \<open>read\<close> refuses headers that lack an option it was given. Whatever was stored this way, the read returns null.
\<close>

theorem NVStorage_sensitive_unreadable:
  assumes "NVStorage_write env key src opts enckey st = Some (True, st')" "opt_set opts OptSensitive"
    "\<not> opt_set opts OptRaw" "opt_set ropts OptSensitive" "\<not> opt_set ropts OptRaw"
  shows "NVStorage_read env key ropts enckey' st' = Some None"
proof -
  obtain bs e where B: "nv_record env opts enckey src = Some (Some bs)"
    and st': "nv_node st' = Some (e\<lparr>nv_props := (nv_props e)(key \<mapsto> OSData bs)\<rparr>)"
    using assms(1) unfolding NVStorage_write_def nv_set_def nv_node_def
    by (auto split: if_splits option.splits)
  from B obtain t where bs: "bs = nv_header (opts AND NOT OptSensitive) @ t"
    unfolding nv_record_def using assms(3) by (auto simp: Let_def split: if_splits option.splits)
  have "(opts AND NOT OptSensitive) AND ropts \<noteq> ropts"
  proof
    assume "(opts AND NOT OptSensitive) AND ropts = ropts"
    then have "ropts AND OptSensitive = opts AND ropts AND (NOT OptSensitive AND OptSensitive)"
      by (metis and.assoc and.commute)
    then show False using assms(4) by simp
  qed
  then have "nv_payload env ropts enckey' bs = None" unfolding bs by (simp add: nv_payload_def Let_def nv_header_read)
  then show ?thesis using st' assms(5) by (simp add: NVStorage_read_def nv_read_node_def nv_data_def bs nv_header_def)
qed

theorem NVStorage_sensitive_unreadable_witness:
  "\<exists>st'. NVStorage_write nv_env0 ''k'' [1, 2, 3] 16 None nv_st0 = Some (True, st') \<and>
     NVStorage_read nv_env0 ''k'' 16 None st' = Some None"
proof -
  have "\<exists>st'. NVStorage_write nv_env0 ''k'' [1, 2, 3] 16 None nv_st0 = Some (True, st')"
    by (simp add: NVStorage_write_def nv_record_def nv_env0_def nv_st0_def OptRaw_def OptCompressed_def OptEncrypted_def
        OptChecksum_def stage_def Let_def buffer_available_def buffer_max_def nv_header_def nv_set_def nv_node_def)
  then show ?thesis
    using NVStorage_sensitive_unreadable [of nv_env0 "''k''" "[1, 2, 3]" 16 None nv_st0 _ 16 None]
    by (auto simp: OptRaw_def OptSensitive_def)
qed

section \<open>How much room compression needs\<close>

lemma nv_dstSize: "n \<le> buffer_max - 1024 \<Longrightarrow> unat (of_nat n + 1024 :: u32) = n + 1024"
  by (simp add: buffer_max_def unat_word_ariths unat_of_nat)

lemma nv_compress_cases:
  assumes all: "\<And>k. env_alloc env k" and src: "src \<noteq> []" "length src \<le> buffer_max - 1024"
  obtains us where "covers src 0 us (length src)" "length (pack us) \<le> length src + 1024"
      "nv_compress env src = (if length (pack us) \<le> length src + 1020
         then Some (Some (le_bytes 4 (of_nat (length src) :: u32) @ pack us)) else None)"
    | "length src + 1024 < lzss_bound (length src)" "nv_compress env src = None"
proof -
  define n where "n = length src + 1024"
  have got: "buffer_available (env_alloc env) sizeof_encode_state" "buffer_available (env_alloc env) n"
    using all src(2) by (simp_all add: buffer_available_def buffer_max_def sizeof_encode_state_def n_def)
  obtain res where R: "compress_lzss True n src = Some res" "case res of
       None \<Rightarrow> n < lzss_bound (length src)
     | Some out \<Rightarrow> \<exists>us. out = pack us \<and> covers src 0 us (length src) \<and> length out \<le> n"
    using compress_lzss_pack [OF src(1)] by blast
  have e: "nv_compress env src = (case res of None \<Rightarrow> None
      | Some out \<Rightarrow> if 4 + length out \<le> n then Some (Some (le_bytes 4 (of_nat (length src) :: u32) @ out)) else None)"
    unfolding nv_compress_def nv_dstSize [OF src(2)] n_def [symmetric] Let_def
    using got R(1) src(1) by (auto simp: Compression_compress_def n_def split: option.splits)
  show thesis
  proof (cases res)
    case None
    then show thesis using that(2) e R(2) by (simp add: n_def)
  next
    case (Some out)
    then obtain us where "out = pack us" "covers src 0 us (length src)" "length out \<le> n" using R(2) by auto
    then show thesis using that(1) [of us] e Some by (auto simp: n_def)
  qed
qed

text \<open>A source in which no three bytes were seen before.\<close>

definition no_match :: "byte list \<Rightarrow> bool" where
  "no_match src \<longleftrightarrow> (\<forall>n a. n + 2 < length src \<and> a < lead + n \<longrightarrow> (\<exists>i < 3. padded src ! (a + i) \<noteq> src ! (n + i)))"

lemma no_match_lit: "no_match src \<Longrightarrow> token_at src n u \<Longrightarrow> is_lit u"
proof (cases u)
  case (Ref pos l)
  assume N: "no_match src" and T: "token_at src n u"
  then obtain a where l: "2 < l" "n + l \<le> length src" and a: "a < lead + n" "\<And>i. i < l \<Longrightarrow> padded src ! (a + i) = src ! (n + i)"
    using Ref by (auto simp: token_at_def THRESHOLD_def)
  have "n + 2 < length src \<and> a < lead + n" using l a(1) by simp
  then obtain i where "i < 3" "padded src ! (a + i) \<noteq> src ! (n + i)" using N unfolding no_match_def by blast
  then show ?thesis using a(2) [of i] l(1) by simp
qed simp

lemma no_match_size:
  assumes "no_match src" "covers src n us m"
  shows "n + length us = m \<and> length (concat (map token_bytes us)) = length us"
  using assms(2)
proof (induction us arbitrary: n)
  case (Cons u us)
  then have c: "token_at src n u" "covers src (n + width u) us m" by simp_all
  have "width u = 1" "length (token_bytes u) = 1" using no_match_lit [OF assms(1) c(1)] by (cases u; simp)+
  then show ?case using Cons.IH [OF c(2)] by simp
qed simp

lemma no_match_overruns:
  assumes "no_match src" "\<And>k. env_alloc env k" "8161 \<le> length src" "length src \<le> buffer_max - 1024"
  shows "nv_compress env src = None"
proof -
  have ne: "src \<noteq> []" using assms(3) by auto
  show ?thesis
  proof (cases rule: nv_compress_cases [OF assms(2) ne assms(4)])
    case (1 us)
    have "length (pack us) = length src + (length src + 7) div 8"
      using no_match_size [OF assms(1) 1(1)] by (simp add: pack_length)
    moreover have "1021 \<le> (length src + 7) div 8" using assms(3) by linarith
    ultimately show ?thesis using 1(3) by simp
  qed simp
qed

text \<open>A counter spread over pairs of bytes, whose first is below 128 and whose second is not.\<close>

definition counter_byte :: "nat \<Rightarrow> nat" where
  "counter_byte i = (if even i then i div 2 mod 128 else 128 + i div 256 mod 128)"

definition counter_bytes :: "nat \<Rightarrow> byte list" where
  "counter_bytes n = map (\<lambda>i. of_nat (counter_byte i)) [0..<n]"

lemma counter_byte_less: "counter_byte i < 256"
  using mod_less_divisor [of 128 "i div 2"] mod_less_divisor [of 128 "i div 256"]
  unfolding counter_byte_def by (simp del: mod_less_divisor)

lemma counter_pairs:
  assumes "i < 32768" "j < 32768" "counter_byte i = counter_byte j" "counter_byte (Suc i) = counter_byte (Suc j)"
  shows "i = j"
proof -
  have par: "even k \<longleftrightarrow> counter_byte k < 128" for k by (simp add: counter_byte_def)
  have even: "counter_byte (2 * k) = k mod 128" "counter_byte (Suc (2 * k)) = 128 + k div 128 mod 128" for k
  proof -
    have "Suc (2 * k) div 256 = k div 128" by linarith
    then show "counter_byte (Suc (2 * k)) = 128 + k div 128 mod 128" unfolding counter_byte_def by (simp only:) simp
    show "counter_byte (2 * k) = k mod 128" unfolding counter_byte_def by simp
  qed
  have join: "a = b" if "a mod 128 = b mod 128" "a div 128 = b div 128" for a b :: nat
    using that by (metis div_mult_mod_eq)
  show ?thesis
  proof (cases "even i")
    case True
    then obtain a b where ab: "i = 2 * a" "j = 2 * b" using assms(3) par [of i] par [of j] by (auto elim!: evenE)
    have "a div 128 < 128" "b div 128 < 128" using assms(1,2) ab by linarith+
    then have "a mod 128 = b mod 128" "a div 128 = b div 128" using assms(3,4) unfolding ab even by simp_all
    then show ?thesis using join ab by blast
  next
    case False
    then obtain a b where ab: "i = Suc (2 * a)" "j = Suc (2 * b)" using assms(3) par [of i] par [of j] by (auto elim!: oddE)
    have lt: "a div 128 < 128" "b div 128 < 128" using assms(1,2) ab by linarith+
    have q: "a div 128 = b div 128" using assms(3) lt unfolding ab even by simp
    have "counter_byte (2 * Suc a) = counter_byte (2 * Suc b)" using assms(4) ab by simp
    then have "Suc a mod 128 = Suc b mod 128" unfolding even .
    then have "a mod 128 = b mod 128" using mod_Suc [of a 128] mod_Suc [of b 128] by (auto split: if_splits)
    then show ?thesis using join q ab by blast
  qed
qed

lemma counter_no_match:
  assumes "n \<le> 32768"
  shows "no_match (counter_bytes n)"
  unfolding no_match_def
proof (intro allI impI, elim conjE)
  fix k a assume k: "k + 2 < length (counter_bytes n)" and a: "a < lead + k"
  have at: "unat (counter_bytes n ! i) = counter_byte i" if "i < n" for i
    using that counter_byte_less [of i] by (simp add: counter_bytes_def unat_of_nat)
  have kn: "k + 2 < n" using k by (simp add: counter_bytes_def)
  have pair: "\<not> (counter_byte k < 128 \<and> counter_byte (Suc k) < 128)" by (auto simp: counter_byte_def)
  show "\<exists>i < 3. padded (counter_bytes n) ! (a + i) \<noteq> counter_bytes n ! (k + i)"
  proof (rule ccontr)
    assume "\<not> ?thesis"
    then have eq: "padded (counter_bytes n) ! (a + i) = counter_bytes n ! (k + i)" if "i < 3" for i using that by blast
    have e0: "padded (counter_bytes n) ! a = counter_bytes n ! k" "padded (counter_bytes n) ! Suc a = counter_bytes n ! Suc k"
      using eq [of 0] eq [of 1] by simp_all
    show False
    proof (cases "a < lead")
      case True
      have "padded (counter_bytes n) ! i = (if i < lead then 0x20 else counter_bytes n ! (i - lead))" for i
        by (simp add: padded_def nth_append)
      then have "counter_bytes n ! k = 0x20" "counter_bytes n ! Suc k = 0x20 \<or> counter_bytes n ! Suc k = counter_bytes n ! 0"
        using e0 True by (auto split: if_splits simp: not_less less_Suc_eq le_less_Suc_eq)
      then have "counter_byte k = 32" "counter_byte (Suc k) = 32 \<or> counter_byte (Suc k) = counter_byte 0"
        using at [of k] at [of "Suc k"] at [of 0] kn by auto
      then show False using pair by (auto simp: counter_byte_def)
    next
      case False
      then obtain b where b: "a = lead + b" "b < k" using a le_Suc_ex [of lead a] by auto
      have "counter_bytes n ! b = counter_bytes n ! k" "counter_bytes n ! Suc b = counter_bytes n ! Suc k"
        using e0 padded_nth [of "counter_bytes n" b] padded_nth [of "counter_bytes n" "Suc b"] by (simp_all add: b)
      then have "counter_byte b = counter_byte k" "counter_byte (Suc b) = counter_byte (Suc k)"
        using at [of b] at [of k] at [of "Suc b"] at [of "Suc k"] kn b(2) by auto
      then have "b = k" using counter_pairs [of b k] kn b(2) assms by simp
      then show False using b(2) by simp
    qed
  qed
qed

text \<open>
  C33. How much \<open>NVStorage::compress\<close> can take. With memory at hand, up to 8160 bytes are always compressed inside the
  buffer, and decompression gives them again. From 8161 bytes on this fails: on a counter, which does not compress,
  the encoder writes past the end of the buffer, because the size in front of the output is not counted.
\<close>

theorem nv_compress_capacity:
  assumes "\<And>k. env_alloc env k"
  shows "(src = [] \<or> 8160 < length src \<or> (\<exists>y. nv_compress env src = Some (Some y) \<and> nv_decompress env y = Some src)) \<and>
    (n \<in> {8161..32768} \<longrightarrow> nv_compress env (counter_bytes n) = None)"
proof (intro conjI impI)
  show "src = [] \<or> 8160 < length src \<or> (\<exists>y. nv_compress env src = Some (Some y) \<and> nv_decompress env y = Some src)"
  proof (cases "src = [] \<or> 8160 < length src")
    case False
    then have s: "src \<noteq> []" "length src \<le> 8160" by auto
    have b: "(length src + 7) div 8 \<le> 1020" using s(2) by linarith
    have m: "length src \<le> buffer_max - 1024" using s(2) by (simp add: buffer_max_def)
    have "\<exists>y. nv_compress env src = Some (Some y)"
    proof (cases rule: nv_compress_cases [OF assms s(1) m])
      case (1 us)
      then show ?thesis using pack_bound [OF 1(1)] b by (simp add: lzss_bound_def)
    next
      case 2
      then show ?thesis using b by (simp add: lzss_bound_def)
    qed
    moreover have "buffer_available (env_alloc env) (length src)" using s(2) assms by (simp add: buffer_available_def buffer_max_def)
    ultimately show ?thesis using lzss.dec_enc [of src env] s(2) by auto
  qed blast
next
  assume n: "n \<in> {8161..32768}"
  then show "nv_compress env (counter_bytes n) = None"
    by (intro no_match_overruns counter_no_match assms) (auto simp: counter_bytes_def buffer_max_def)
qed

theorem nv_compress_capacity_witness:
  "(\<exists>y. nv_compress nv_env0 [1, 2, 3] = Some (Some y) \<and> nv_decompress nv_env0 y = Some [1, 2, 3]) \<and>
   nv_compress nv_env0 (counter_bytes 8161) = None"
  using nv_compress_capacity [of nv_env0 "[1, 2, 3]" 8161] by (simp add: nv_env0_def)

section \<open>Connection and removal\<close>

text \<open>
  C35. Removal on any node that is connected: the property is gone, every other one and the references are as before. The
  value is zeroed and the node asked to sync, once and with the zeros in place of the value, exactly when the removal is
  sensitive, there are bytes, and the node is an \<open>IODTNVRAM\<close> that is safe to sync. Connecting succeeds exactly on an
  \<open>IODTNVRAM\<close>; when it fails the references are as before, and so they are after disconnecting.
\<close>

theorem NVStorage_remove_scrubs:
  assumes "nv_node st = Some e"
  shows "(\<exists>st' e'. NVStorage_remove key sensitive st = Some (True, st') \<and> nv_node st' = Some e' \<and>
      NVStorage_exists key st' = Some False \<and> nv_props e' = (nv_props e)(key := None) \<and> nv_refs e' = nv_refs e \<and>
      nv_syncs e' = (case nv_data key e of
          Some bs \<Rightarrow> if sensitive \<and> bs \<noteq> [] \<and> nv_is_dtnvram e \<and> nv_safe e
                     then (nv_props e)(key \<mapsto> OSData (replicate (length bs) 0)) # nv_syncs e else nv_syncs e
        | None \<Rightarrow> nv_syncs e)) \<and>
    fst (NVStorage_init st0) = (\<exists>e0. nv_options st0 = Some e0 \<and> nv_is_dtnvram e0) \<and>
    (fst (NVStorage_init st0) \<or> nv_options (snd (NVStorage_init st0)) = nv_options st0) \<and>
    nv_options (NVStorage_deinit (snd (NVStorage_init st0))) = nv_options st0"
proof (intro conjI)
  show "\<exists>st' e'. NVStorage_remove key sensitive st = Some (True, st') \<and> nv_node st' = Some e' \<and>
      NVStorage_exists key st' = Some False \<and> nv_props e' = (nv_props e)(key := None) \<and> nv_refs e' = nv_refs e \<and>
      nv_syncs e' = (case nv_data key e of
          Some bs \<Rightarrow> if sensitive \<and> bs \<noteq> [] \<and> nv_is_dtnvram e \<and> nv_safe e
                     then (nv_props e)(key \<mapsto> OSData (replicate (length bs) 0)) # nv_syncs e else nv_syncs e
        | None \<Rightarrow> nv_syncs e)"
    using assms by (auto simp: NVStorage_remove_def nv_scrub_def NVStorage_sync_def nv_node_def NVStorage_exists_def
        nv_data_def Let_def split: if_splits option.splits property.splits)
qed (auto simp: NVStorage_init_def NVStorage_deinit_def Let_def split: option.splits)

theorem NVStorage_remove_scrubs_witness:
  "\<exists>st' e'. NVStorage_remove ''k'' True (nv_st0\<lparr>nv_options := Some \<lparr>nv_is_dtnvram = True, nv_props = [''k'' \<mapsto> OSData [1, 2]],
       nv_syncs = [], nv_safe = True, nv_refs = 1\<rparr>\<rparr>) = Some (True, st') \<and> NVStorage_exists ''k'' st' = Some False \<and>
     nv_node st' = Some e' \<and> nv_syncs e' = [[''k'' \<mapsto> OSData [0, 0]]]"
proof -
  let ?e = "\<lparr>nv_is_dtnvram = True, nv_props = [''k'' \<mapsto> OSData [1, 2]], nv_syncs = [], nv_safe = True, nv_refs = 1\<rparr>"
  let ?st = "nv_st0\<lparr>nv_options := Some ?e\<rparr>"
  have n: "nv_node ?st = Some ?e" and d: "nv_data ''k'' ?e = Some [1, 2]" by (simp_all add: nv_st0_def nv_node_def nv_data_def)
  show ?thesis using NVStorage_remove_scrubs [OF n, of "''k''" True nv_st0] unfolding d by (auto simp: numeral_2_eq_2)
qed

end
