(* ===== verification/Lzvn_Correct.thy ===== *)
theory Lzvn_Correct
  imports Compression
begin

text \<open>
  The LZVN decoder stays inside its buffers, ends on every source, and gives the bytes that a decoder without wide copies gives.
\<close>

section \<open>Copies\<close>

lemma load_bytes_Some: "i + n \<le> length bs \<Longrightarrow> load_bytes bs i n = Some (take n (drop i bs))"
  by (simp add: load_bytes_def)

lemma store_at_Some:
  assumes "i + length x \<le> length bs"
  obtains c where "store_at bs i x = Some c" "length c = length bs" "take (i + length x) c = take i bs @ x"
  using assms by (simp add: store_at_def)

lemma store_at_take:
  assumes "store_at bs i x = Some c" "j \<le> i"
  shows "take j c = take j bs"
  using assms by (auto simp: store_at_def min_def split: if_splits)

lemma literal_copy_ok:
  assumes "0 < w" "pos + n + w \<le> length d + 1" "n + w \<le> length s + 1" "take (pos + i) d = p @ take i s" "length p = pos"
    "i < n + w"
  shows "\<exists>c. literal_copy w s d pos n i = Some c \<and> length c = length d \<and> take (pos + n) c = p @ take n s"
  using assms
proof (induction w s d pos n i rule: literal_copy.induct)
  case (1 w s d pos n i)
  show ?case
  proof (cases "i < n")
    case True
    define x where "x = take w (drop i s)"
    have x: "load_bytes s i w = Some x" "length x = w"
      using True 1(2-) by (auto simp: x_def load_bytes_def)
    obtain c where c: "store_at d (pos + i) x = Some c" "length c = length d" "take (pos + i + w) c = take (pos + i) d @ x"
      using store_at_Some [of "pos + i" x d] x True 1(2-) by auto
    have t: "take (pos + (i + w)) c = p @ take (i + w) s"
      using c(3) 1(5) by (simp add: x_def take_add add.assoc)
    show ?thesis
      using 1(1) [OF _ x(1) c(1)] t c(2) True 1(2-) x(1) c(1)
      by (subst literal_copy.simps) auto
  next
    case False
    have "take (pos + n) d = take (pos + n) (take (pos + i) d)"
      using False by (simp add: min_def)
    also have "\<dots> = p @ take n s"
      using False 1(5,6) by (simp add: min_def)
    finally show ?thesis
      using False by (subst literal_copy.simps) simp
  qed
qed

text \<open>What a match means: byte by byte, each the one \<open>D\<close> bytes before the end of what is there.\<close>

primrec repeat_match :: "byte list \<Rightarrow> nat \<Rightarrow> nat \<Rightarrow> byte list" where
  "repeat_match out D 0 = out"
| "repeat_match out D (Suc n) = (let e = repeat_match out D n in e @ [e ! (length e - D)])"

lemma length_repeat_match [simp]: "length (repeat_match out D n) = length out + n"
  by (induction n) (auto simp: Let_def)

lemma repeat_match_add: "repeat_match out D (i + n) = repeat_match (repeat_match out D i) D n"
  by (induction n) (auto simp: Let_def)

lemma take_repeat_match: "n \<le> i \<Longrightarrow> take (length out + n) (repeat_match out D i) = repeat_match out D n"
proof (induction i)
  case (Suc i)
  then show ?case
    by (cases "n = Suc i") (auto simp: Let_def)
qed simp

lemma take_repeat_match_base: "j \<le> length out \<Longrightarrow> take j (repeat_match out D n) = take j out"
  using arg_cong [OF take_repeat_match [of 0 n out D], of "take j"] by (simp add: min_def)

lemma repeat_match_block:
  assumes "w \<le> D" "D \<le> length out"
  shows "repeat_match out D w = out @ take w (drop (length out - D) out)"
  using assms
proof (induction w)
  case (Suc w)
  then show ?case
    by (auto simp: Let_def nth_append take_Suc_conv_app_nth)
qed simp

lemma match_copy_runs:
  assumes "0 < w" "pos + n + w \<le> length d + 1" "D \<le> pos" "i < n + w"
  shows "\<exists>c. match_copy w d pos D n i = Some c \<and> length c = length d \<and> take pos c = take pos d"
  using assms
proof (induction w d pos D n i rule: match_copy.induct)
  case (1 w d pos D n i)
  show ?case
  proof (cases "i < n")
    case True
    define x where "x = take w (drop (pos + i - D) d)"
    have x: "load_back d (pos + i) D w = Some x" "length x = w"
      using True 1(2-) by (auto simp: x_def load_back_def load_bytes_def)
    obtain c where c: "store_at d (pos + i) x = Some c" "length c = length d"
      using store_at_Some [of "pos + i" x d] x True 1(2-) by auto
    show ?thesis
      using 1(1) [OF _ x(1) c(1)] c True 1(2-) x(1) store_at_take [OF c(1), of pos]
      by (subst match_copy.simps) auto
  next
    case False
    then show ?thesis
      by (subst match_copy.simps) simp
  qed
qed

lemma match_copy_extends:
  assumes "0 < w" "w \<le> D" "D \<le> pos" "take (pos + i) d = repeat_match p D i" "length p = pos" "match_copy w d pos D n i = Some c"
  shows "take (pos + n) c = repeat_match p D n"
  using assms
proof (induction w d pos D n i rule: match_copy.induct)
  case (1 w d pos D n i)
  show ?case
  proof (cases "i < n")
    case True
    define e where "e = repeat_match p D i"
    obtain x d1 where x: "load_back d (pos + i) D w = Some x" and d1: "store_at d (pos + i) x = Some d1"
      and r: "match_copy w d1 pos D n (i + w) = Some c"
      using 1(7) True 1(2) by (subst (asm) match_copy.simps) (auto split: bind_splits)
    have "x = take w (drop (pos + i - D) d)" and lx: "length x = w"
      using x by (auto simp: load_back_def load_bytes_def split: if_splits)
    then have "x = take w (drop (pos + i - D) (take (pos + i) d))"
      using 1(3,4) by (simp add: drop_take min_def)
    then have "repeat_match e D w = e @ x"
      using 1(3-6) repeat_match_block [of w D e] by (simp add: e_def)
    then have "take (pos + (i + w)) d1 = repeat_match p D (i + w)"
      using d1 lx 1(5,6)
      by (auto simp: repeat_match_add e_def store_at_def split: if_splits)
    then show ?thesis
      using 1(1) [OF _ x d1] True 1(2-6) r by auto
  next
    case False
    then have "c = d"
      using 1(7) by (subst (asm) match_copy.simps) simp
    moreover have "take (pos + n) d = take (pos + n) (take (pos + i) d)"
      using False by (simp add: min_def)
    ultimately show ?thesis
      using False 1(5,6) take_repeat_match [of n i p D] by simp
  qed
qed

section \<open>Opcodes\<close>

lemma opc_tbl_length: "length opc_tbl = 256"
  by code_simp

lemma extract_bits_le_3: "extract_bits c l 2 \<le> 3"
  by (simp add: extract_bits_def less_Suc_eq_le [symmetric])

lemma lzvn_op_Both:
  assumes "lzvn_op s D = Some (Both k L M D1)"
  shows "1 \<le> k" "k + L < length s" "L \<le> 3"
  using assms extract_bits_le_3 [of _ 6] extract_bits_le_3 [of _ 3]
  by (auto simp: lzvn_op_def Let_def split: opcode.splits if_splits bind_splits)

lemma lzvn_op_Match: "lzvn_op s D = Some (Match k M) \<Longrightarrow> 1 \<le> k \<and> k < length s"
  by (auto simp: lzvn_op_def Let_def split: opcode.splits if_splits bind_splits)

lemma lzvn_op_Literal: "lzvn_op s D = Some (Literal k L) \<Longrightarrow> 1 \<le> k"
  by (auto simp: lzvn_op_def Let_def split: opcode.splits if_splits bind_splits)

lemma lzvn_op_Skip: "lzvn_op s D = Some Skip \<Longrightarrow> 1 < length s"
  by (auto simp: lzvn_op_def Let_def split: opcode.splits if_splits bind_splits)

text \<open>The checks of the length come before the loads of the operand bytes.\<close>

lemma lzvn_op_loads:
  assumes "s \<noteq> []"
  obtains act where "lzvn_op s D = Some act"
proof -
  have b: "load_byte s i = Some (unat (s ! i))" if "i < length s" for i
    using that by (simp add: load_byte_def load_bytes_def take_Suc_conv_app_nth hd_drop_conv_nth)
  have w: "\<exists>x. load2 s 1 = Some x" if "2 < length s"
    using that by (simp add: load2_def load_bytes_def)
  have "\<exists>act. lzvn_op s D = Some act"
    using assms b [of 0] b [of 1] w by (auto simp: lzvn_op_def Let_def split: opcode.splits)
  with that show thesis
    by blast
qed

section \<open>The decoder stays inside its buffers and ends\<close>

text \<open>What a step may give, for a buffer of \<open>cap\<close> bytes: an end within it, or a shorter source and a distance within the output.\<close>

fun step_safe :: "nat \<Rightarrow> byte list \<Rightarrow> nat \<Rightarrow> lzvn_decoder_state + byte list \<times> byte list \<times> nat \<Rightarrow> bool" where
  "step_safe cap s D (Inl st) = (length (v_buf st) = cap \<and> v_dst st \<le> cap)"
| "step_safe cap s D (Inr (s1, d1, pos1)) =
     (s1 \<noteq> [] \<and> length s1 < length s \<and> length d1 = cap \<and> pos1 \<le> cap \<and> D \<le> pos1)"

lemma copy_match_safe:
  assumes "D \<le> pos" "pos \<le> length d" "s1 \<noteq> []" "length s1 < length s"
  shows "\<exists>r. copy_match st s1 d pos M D = Some r \<and> step_safe (length d) s D r"
proof -
  let ?room = "length d - pos"
  consider "?room \<ge> M + 7 \<and> D \<ge> 8" | "\<not> (?room \<ge> M + 7 \<and> D \<ge> 8)" "M \<le> ?room" | "?room < M"
    by linarith
  then show ?thesis
  proof cases
    case 1
    then have "pos + M + 8 \<le> length d + 1"
      by linarith
    then show ?thesis
      using 1 match_copy_runs [of 8 pos M d D 0] assms by (auto simp: copy_match_def Let_def)
  next
    case 2
    then have "pos + M + 1 \<le> length d + 1"
      using assms by linarith
    then show ?thesis
      using 2 match_copy_runs [of 1 pos M d D 0] assms by (auto simp: copy_match_def Let_def)
  next
    case 3
    then show ?thesis
      using match_copy_runs [of 1 pos ?room d D 0] assms by (auto simp: copy_match_def Let_def lzvn_stop_def)
  qed
qed

text \<open>The literal before a match, copied wide or not.\<close>

lemma short_literal_ok:
  assumes "pos + L \<le> length d" "L \<le> length s" "L \<le> 3" "wide = (length d - pos \<ge> 4 \<and> length s \<ge> 4)"
  shows "\<exists>c. (if wide then load_bytes s 0 4 \<bind> store_at d pos else literal_copy 1 s d pos L 0) = Some c \<and> length c = length d
    \<and> take (pos + L) c = take pos d @ take L s"
proof (cases wide)
  case True
  define x where "x = take 4 s"
  have x: "load_bytes s 0 4 = Some x" "length x = 4"
    using True assms by (auto simp: x_def load_bytes_def)
  have "pos + 4 \<le> length d"
    using True assms by linarith
  then obtain c where c: "store_at d pos x = Some c" "length c = length d" "take (pos + 4) c = take pos d @ x"
    using store_at_Some [of pos x d] x by auto
  have "take (pos + L) c = take (pos + L) (take (pos + 4) c)"
    using assms by (simp add: min_def)
  also have "\<dots> = take pos d @ take L s"
    using assms True by (simp add: c(3) x_def min_def)
  finally show ?thesis
    using True x c by auto
next
  case False
  then show ?thesis
    using literal_copy_ok [of 1 pos L d s 0 "take pos d"] assms by auto
qed

lemma part_literal_ok:
  assumes "pos \<le> length d" "length d - pos \<le> length s"
  shows "\<exists>c. literal_copy 1 s d pos (length d - pos) 0 = Some c \<and> length c = length d
    \<and> take (length d) c = take pos d @ take (length d - pos) s"
  using literal_copy_ok [of 1 pos "length d - pos" d s 0 "take pos d"] assms by auto

lemma long_literal_ok:
  assumes "pos + L \<le> length d" "L \<le> length s"
  shows "\<exists>c. (if length d - pos \<ge> L + 7 \<and> length s \<ge> L + 7 then literal_copy 8 s d pos L 0 else literal_copy 1 s d pos L 0) = Some c
    \<and> length c = length d \<and> take (pos + L) c = take pos d @ take L s"
  using literal_copy_ok [of 1 pos L d s 0 "take pos d"] literal_copy_ok [of 8 pos L d s 0 "take pos d"] assms by auto

lemma copy_both_full:
  assumes "pos + L \<le> length d" "k + L < length s" "L \<le> 3"
  shows "\<exists>c. copy_literal_and_match st s d pos k L M D =
      (if D > pos + L \<or> D = 0 then Some (Inl (st\<lparr>v_buf := c\<rparr>)) else copy_match st (drop (k + L) s) c (pos + L) M D)
    \<and> length c = length d \<and> take (pos + L) c = take pos d @ take L (drop k s)"
proof -
  define wide where "wide = (length d - pos \<ge> 4 \<and> length (drop k s) \<ge> 4)"
  have l: "L \<le> length (drop k s)" "L \<le> length d - pos"
    using assms by auto
  obtain c where c: "(if wide then load_bytes (drop k s) 0 4 \<bind> store_at d pos else literal_copy 1 (drop k s) d pos L 0) = Some c"
    "length c = length d" "take (pos + L) c = take pos d @ take L (drop k s)"
    using short_literal_ok [OF assms(1) l(1) assms(3) wide_def] by auto
  have "copy_literal_and_match st s d pos k L M D =
      (if D > pos + L \<or> D = 0 then Some (Inl (st\<lparr>v_buf := c\<rparr>)) else copy_match st (drop (k + L) s) c (pos + L) M D)"
    unfolding copy_literal_and_match_def Let_def wide_def [symmetric] c(1) using l by (simp add: add.commute)
  then show ?thesis
    using c(2,3) by blast
qed

lemma copy_both_part:
  assumes "pos \<le> length d" "length d < pos + L" "k + L < length s" "L \<le> 3"
  shows "\<exists>c. copy_literal_and_match st s d pos k L M D =
      lzvn_stop st (drop (length d - pos) (drop k s)) c (length d) (L - (length d - pos)) M D
    \<and> length c = length d \<and> take (length d) c = take pos d @ take (length d - pos) (drop k s)"
proof -
  have "length d - pos \<le> length (drop k s)" "\<not> 4 \<le> length d - pos" "\<not> L \<le> length d - pos"
    using assms by auto
  then show ?thesis
    using part_literal_ok [of pos d "drop k s"] assms by (auto simp: copy_literal_and_match_def Let_def)
qed

lemma copy_literal_and_match_safe:
  assumes "pos \<le> length d" "1 \<le> k" "k + L < length s" "L \<le> 3" "v_dst st \<le> length d"
  shows "\<exists>r. copy_literal_and_match st s d pos k L M D = Some r \<and> step_safe (length d) s D r"
proof (cases "pos + L \<le> length d")
  case True
  then obtain c where c: "copy_literal_and_match st s d pos k L M D =
      (if D > pos + L \<or> D = 0 then Some (Inl (st\<lparr>v_buf := c\<rparr>)) else copy_match st (drop (k + L) s) c (pos + L) M D)"
    "length c = length d"
    using copy_both_full [of pos L d k s st M D] assms by auto
  then show ?thesis
    using copy_match_safe [of D "pos + L" c "drop (k + L) s" s st M] True assms by auto
next
  case False
  then show ?thesis
    using copy_both_part [of pos d L k s st M D] assms by (auto simp: lzvn_stop_def)
qed

lemma copy_literal_full:
  assumes "k + L < length s" "pos + L \<le> length d"
  shows "\<exists>c. copy_literal st s d pos k L D = Some (Inr (drop (k + L) s, c, pos + L)) \<and> length c = length d
    \<and> take (pos + L) c = take pos d @ take L (drop k s)"
proof -
  have "L \<le> length (drop k s)"
    using assms by simp
  then show ?thesis
    using long_literal_ok [of pos L d "drop k s"] assms
    by (auto simp: copy_literal_def Let_def add.commute split: if_splits)
qed

lemma copy_literal_part:
  assumes "k + L < length s" "pos \<le> length d" "length d < pos + L"
  shows "\<exists>c. copy_literal st s d pos k L D = lzvn_stop st (drop (length d - pos) (drop k s)) c (length d) (L - (length d - pos)) 0 D
    \<and> length c = length d \<and> take (length d) c = take pos d @ take (length d - pos) (drop k s)"
proof -
  have "length d - pos \<le> length (drop k s)"
    using assms by simp
  then show ?thesis
    using part_literal_ok [of pos d "drop k s"] assms by (auto simp: copy_literal_def Let_def)
qed

lemma copy_literal_safe:
  assumes "pos \<le> length d" "1 \<le> k" "D \<le> pos" "v_dst st \<le> length d"
  shows "\<exists>r. copy_literal st s d pos k L D = Some r \<and> step_safe (length d) s D r"
proof -
  consider "length s \<le> k + L" | "k + L < length s" "pos + L \<le> length d" | "k + L < length s" "length d < pos + L"
    by linarith
  then show ?thesis
  proof cases
    case 1
    then show ?thesis
      using assms by (auto simp: copy_literal_def)
  next
    case 2
    then show ?thesis
      using copy_literal_full [of k L s pos d st D] assms by auto
  next
    case 3
    then show ?thesis
      using copy_literal_part [of k L s pos d st D] assms by (auto simp: lzvn_stop_def)
  qed
qed

lemma lzvn_step_safe:
  assumes "s \<noteq> []" "pos \<le> length d" "D \<le> pos" "v_dst st \<le> length d"
  shows "\<exists>r. lzvn_step st s d pos D = Some r \<and> step_safe (length d) s (lzvn_dist s D) r"
proof -
  obtain act where op: "lzvn_op s D = Some act"
    using lzvn_op_loads [OF assms(1)] .
  show ?thesis
  proof (cases act)
    case (Both k L M D1)
    then show ?thesis
      using lzvn_op_Both [OF op [unfolded Both]] assms op
        copy_literal_and_match_safe [of pos d k L s "st\<lparr>v_src := s, v_buf := d, v_dst := pos, d_prev := D\<rparr>" M D1]
      by (simp add: lzvn_step_def lzvn_dist_def)
  next
    case (Match k M)
    then show ?thesis
      using lzvn_op_Match [OF op [unfolded Match]] assms op
        copy_match_safe [of D pos d "drop k s" s "st\<lparr>v_src := s, v_buf := d, v_dst := pos, d_prev := D\<rparr>" M]
      by (simp add: lzvn_step_def lzvn_dist_def)
  next
    case (Literal k L)
    then show ?thesis
      using lzvn_op_Literal [OF op [unfolded Literal]] assms op
        copy_literal_safe [of pos d k D "st\<lparr>v_src := s, v_buf := d, v_dst := pos, d_prev := D\<rparr>" s L]
      by (simp add: lzvn_step_def lzvn_dist_def)
  next
    case Skip
    then show ?thesis
      using lzvn_op_Skip [OF op [unfolded Skip]] assms op by (simp add: lzvn_step_def lzvn_dist_def)
  qed (use assms op in \<open>simp_all add: lzvn_step_def lzvn_dist_def\<close>)
qed

lemma lzvn_loop_safe:
  assumes "s \<noteq> []" "pos \<le> length d" "D \<le> pos" "v_dst st \<le> length d"
  shows "\<exists>r. lzvn_loop st s d pos D = Some r \<and> length (v_buf r) = length d \<and> v_dst r \<le> length d"
  using assms
proof (induction "length s" arbitrary: st s d pos D rule: less_induct)
  case less
  obtain r where r: "lzvn_step st s d pos D = Some r" "step_safe (length d) s (lzvn_dist s D) r"
    using lzvn_step_safe [OF less.prems] by auto
  show ?case
  proof (cases r)
    case (Inl a)
    then show ?thesis
      using r less.prems by (subst lzvn_loop.simps) auto
  next
    case (Inr b)
    obtain s1 d1 pos1 where b: "b = (s1, d1, pos1)"
      by (cases b)
    show ?thesis
      using less.hyps [of s1 pos1 d1 "lzvn_dist s D" "st\<lparr>v_src := s, v_buf := d, v_dst := pos, d_prev := D\<rparr>"] r less.prems
      by (subst lzvn_loop.simps) (auto simp: Inr b)
  qed
qed

section \<open>A decoder without wide copies\<close>

text \<open>
  What an LZVN stream means, for at most \<open>cap\<close> bytes: \<open>out\<close> is the output so far, \<open>good\<close> the output at the start of the
  instruction before, which is what the code reports for an undefined opcode and a cut end of stream. A match before any
  distance has no meaning.
\<close>

definition emit :: "nat \<Rightarrow> byte list \<Rightarrow> byte list \<Rightarrow> (byte list + byte list \<times> byte list) option" where
  "emit cap s out = Some (if cap < length out then Inl (take cap out) else Inr (s, out))"

definition lzvn_emit :: "nat \<Rightarrow> byte list \<Rightarrow> byte list \<Rightarrow> byte list \<Rightarrow> nat \<Rightarrow> (byte list + byte list \<times> byte list) option" where
  "lzvn_emit cap good s out D =
     lzvn_op s D \<bind> (\<lambda>act. case act of
        Both k L M D1 \<Rightarrow>
          (let lit = out @ take L (drop k s) in
           if cap < length lit then Some (Inl (take cap lit))
           else if D1 > length lit \<or> D1 = 0 then Some (Inl out)
           else emit cap (drop (k + L) s) (repeat_match lit D1 M))
      | Match k M \<Rightarrow> if D = 0 then None else emit cap (drop k s) (repeat_match out D M)
      | Literal k L \<Rightarrow>
          if length s \<le> k + L then Some (Inl out) else emit cap (drop (k + L) s) (out @ take L (drop k s))
      | Skip \<Rightarrow> Some (Inr (drop 1 s, out))
      | Finish \<Rightarrow> Some (Inl out)
      | Stop \<Rightarrow> Some (Inl out)
      | Undone \<Rightarrow> Some (Inl good))"

partial_function (option) lzvn_meaning :: "nat \<Rightarrow> byte list \<Rightarrow> byte list \<Rightarrow> byte list \<Rightarrow> nat \<Rightarrow> byte list option" where
  "lzvn_meaning cap good s out D =
     lzvn_emit cap good s out D \<bind> (\<lambda>r. case r of Inl res \<Rightarrow> Some res | Inr (s1, out1) \<Rightarrow> lzvn_meaning cap out s1 out1 (lzvn_dist s D))"

declare lzvn_meaning.simps [code]

definition lzvn_text :: "nat \<Rightarrow> byte list \<Rightarrow> byte list option" where
  "lzvn_text cap src = (if src = [] \<or> cap = 0 then Some [] else lzvn_meaning cap [] src [] 0)"

fun agree :: "lzvn_decoder_state + byte list \<times> byte list \<times> nat \<Rightarrow> byte list + byte list \<times> byte list \<Rightarrow> bool" where
  "agree (Inl st) (Inl out) = (v_dst st = length out \<and> take (length out) (v_buf st) = out)"
| "agree (Inr (s1, d1, pos1)) (Inr (s2, out)) = (s1 = s2 \<and> pos1 = length out \<and> take pos1 d1 = out)"
| "agree _ _ = False"

lemma copy_match_agrees:
  assumes "0 < D" "D \<le> pos" "pos \<le> length d" "emit (length d) s (repeat_match (take pos d) D M) = Some e"
  shows "\<exists>r. copy_match st s d pos M D = Some r \<and> agree r e"
proof -
  let ?room = "length d - pos" and ?p = "take pos d"
  have p: "length ?p = pos"
    using assms by simp
  consider "?room \<ge> M + 7 \<and> D \<ge> 8" | "\<not> (?room \<ge> M + 7 \<and> D \<ge> 8)" "M \<le> ?room" | "?room < M"
    by linarith
  then show ?thesis
  proof cases
    case 1
    then have l: "pos + M + 8 \<le> length d + 1"
      by linarith
    then obtain c where "match_copy 8 d pos D M 0 = Some c"
      using match_copy_runs [of 8 pos M d D 0] assms by auto
    then show ?thesis
      using 1 l match_copy_extends [of 8 D pos 0 d ?p M c] assms p by (auto simp: copy_match_def Let_def emit_def)
  next
    case 2
    then have l: "pos + M + 1 \<le> length d + 1"
      using assms by linarith
    then obtain c where "match_copy 1 d pos D M 0 = Some c"
      using match_copy_runs [of 1 pos M d D 0] assms by auto
    then show ?thesis
      using 2 l match_copy_extends [of 1 D pos 0 d ?p M c] assms p by (auto simp: copy_match_def Let_def emit_def)
  next
    case 3
    then obtain c where "match_copy 1 d pos D ?room 0 = Some c"
      using match_copy_runs [of 1 pos ?room d D 0] assms by auto
    then show ?thesis
      using 3 match_copy_extends [of 1 D pos 0 d ?p ?room c] take_repeat_match [of ?room M ?p D] assms p
      by (auto simp: copy_match_def Let_def emit_def lzvn_stop_def)
  qed
qed

lemma copy_both_agrees:
  assumes "pos \<le> length d" "k + L < length s" "L \<le> 3" "v_dst st = pos"
    "lit = take pos d @ take L (drop k s)"
    "(if length d < length lit then Some (Inl (take (length d) lit))
      else if D > length lit \<or> D = 0 then Some (Inl (take pos d))
      else emit (length d) (drop (k + L) s) (repeat_match lit D M)) = Some e"
  shows "\<exists>r. copy_literal_and_match st s d pos k L M D = Some r \<and> agree r e"
proof -
  have lit: "length lit = pos + L"
    using assms by simp
  show ?thesis
  proof (cases "pos + L \<le> length d")
    case True
    then obtain c where c: "copy_literal_and_match st s d pos k L M D =
        (if D > pos + L \<or> D = 0 then Some (Inl (st\<lparr>v_buf := c\<rparr>)) else copy_match st (drop (k + L) s) c (pos + L) M D)"
      "length c = length d" "take (pos + L) c = lit"
      using copy_both_full [of pos L d k s st M D] assms by auto
    have "take pos c = take pos lit"
      by (simp add: c(3) [symmetric] min_def)
    then have "take pos c = take pos d"
      using assms(1,5) by simp
    then show ?thesis
      using True c copy_match_agrees [of D "pos + L" c "drop (k + L) s" M e st] assms(1,4,6) lit
      by (auto split: if_splits)
  next
    case False
    then obtain c where c: "copy_literal_and_match st s d pos k L M D =
        lzvn_stop st (drop (length d - pos) (drop k s)) c (length d) (L - (length d - pos)) M D"
      "take (length d) c = take pos d @ take (length d - pos) (drop k s)" "length c = length d"
      using copy_both_part [of pos d L k s st M D] assms by auto
    have "take (length d) lit = take (length d) c"
      using False assms(1) by (simp add: assms(5) c(2) min_def)
    then show ?thesis
      using False c(1,3) assms(6) lit by (auto simp: lzvn_stop_def)
  qed
qed

lemma copy_literal_agrees:
  assumes "pos \<le> length d" "v_dst st = pos"
    "(if length s \<le> k + L then Some (Inl (take pos d)) else emit (length d) (drop (k + L) s) (take pos d @ take L (drop k s))) = Some e"
  shows "\<exists>r. copy_literal st s d pos k L D = Some r \<and> agree r e"
proof -
  consider "length s \<le> k + L" | "k + L < length s" "pos + L \<le> length d" | "k + L < length s" "length d < pos + L"
    by linarith
  then show ?thesis
  proof cases
    case 1
    then show ?thesis
      using assms by (auto simp: copy_literal_def)
  next
    case 2
    then have "e = Inr (drop (k + L) s, take pos d @ take L (drop k s))"
      using assms by (auto simp: emit_def)
    then show ?thesis
      using 2 copy_literal_full [OF 2, of st D] assms(1) by auto
  next
    case 3
    then have "e = Inl (take pos d @ take (length d - pos) (drop k s))"
      using assms by (auto simp: emit_def min_def)
    then show ?thesis
      using 3 copy_literal_part [OF 3(1) assms(1) 3(2), of st D] assms(1) by (auto simp: lzvn_stop_def)
  qed
qed

lemma lzvn_step_agrees:
  assumes "s \<noteq> []" "pos \<le> length d" "D \<le> pos" "v_dst st \<le> length d"
    "lzvn_emit (length d) (take (v_dst st) d) s (take pos d) D = Some e"
  shows "\<exists>r. lzvn_step st s d pos D = Some r \<and> agree r e"
proof -
  let ?st = "st\<lparr>v_src := s, v_buf := d, v_dst := pos, d_prev := D\<rparr>"
  obtain act where op: "lzvn_op s D = Some act"
    using lzvn_op_loads [OF assms(1)] .
  show ?thesis
  proof (cases act)
    case (Both k L M D1)
    then show ?thesis
      using copy_both_agrees [of pos d k L s ?st "take pos d @ take L (drop k s)" D1 M e] lzvn_op_Both [OF op [unfolded Both]] assms op
      by (simp add: lzvn_step_def lzvn_emit_def Let_def)
  next
    case (Match k M)
    then show ?thesis
      using copy_match_agrees [of D pos d "drop k s" M e ?st] assms op
      by (auto simp: lzvn_step_def lzvn_emit_def split: if_splits)
  next
    case (Literal k L)
    then show ?thesis
      using copy_literal_agrees [of pos d ?st s k L e D] assms op by (simp add: lzvn_step_def lzvn_emit_def)
  qed (use assms op in \<open>auto simp: lzvn_step_def lzvn_emit_def\<close>)
qed

lemma lzvn_emit_extends:
  assumes "lzvn_emit cap good s out D = Some (Inr (s1, out1))"
  shows "length out \<le> length out1 \<and> take (length out) out1 = out"
  using assms
  by (auto simp: lzvn_emit_def emit_def Let_def take_repeat_match_base split: action.splits if_splits bind_splits)

lemma lzvn_loop_agrees:
  assumes "s \<noteq> []" "pos \<le> length d" "D \<le> pos" "v_dst st \<le> pos"
    "lzvn_meaning (length d) (take (v_dst st) d) s (take pos d) D = Some res"
  shows "\<exists>r. lzvn_loop st s d pos D = Some r \<and> v_dst r = length res \<and> take (length res) (v_buf r) = res"
  using assms
proof (induction "length s" arbitrary: st s d pos D rule: less_induct)
  case less
  obtain e where e: "lzvn_emit (length d) (take (v_dst st) d) s (take pos d) D = Some e"
    using less.prems(5) by (subst (asm) lzvn_meaning.simps) (auto split: bind_splits)
  obtain r where r: "lzvn_step st s d pos D = Some r" "agree r e" "step_safe (length d) s (lzvn_dist s D) r"
    using lzvn_step_agrees [OF less.prems(1-3) _ e] lzvn_step_safe [OF less.prems(1-3), of st] less.prems(2,4) by fastforce
  show ?case
  proof (cases r)
    case (Inl a)
    then show ?thesis
      using r e less.prems by (cases e) (auto simp: lzvn_loop.simps lzvn_meaning.simps)
  next
    case (Inr b)
    obtain s1 d1 pos1 where b: "b = (s1, d1, pos1)"
      by (cases b)
    then have e': "e = Inr (s1, take pos1 d1)"
      using r Inr by (cases e) auto
    let ?st = "st\<lparr>v_src := s, v_buf := d, v_dst := pos, d_prev := D\<rparr>"
    have g: "pos \<le> pos1" "take pos d1 = take pos d"
      using lzvn_emit_extends [OF e [unfolded e']] less.prems(2) r Inr b by (auto simp: min_def split: if_splits)
    have "lzvn_meaning (length d1) (take (v_dst ?st) d1) s1 (take pos1 d1) (lzvn_dist s D) = Some res"
      using less.prems(5) e e' g r Inr b by (subst (asm) lzvn_meaning.simps) simp
    then show ?thesis
      using less.hyps [of s1 pos1 d1 "lzvn_dist s D" ?st] r g less.prems by (subst lzvn_loop.simps) (simp add: Inr b)
  qed
qed

section \<open>Properties\<close>

text \<open>
  C14. The LZVN decoder ends on every source and every destination, never loads or stores outside of them, and reports no more
  bytes than the destination has.
\<close>

theorem lzvn_decode_buffer_safe:
  "\<exists>n buf. lzvn_decode_buffer dst src = Some (n, buf) \<and> n \<le> length dst \<and> length buf = length dst"
proof (cases "src = [] \<or> dst = []")
  case True
  then show ?thesis
    by (auto simp: lzvn_decode_buffer_def lzvn_decode_def)
next
  case False
  then show ?thesis
    using lzvn_loop_safe [of src 0 dst 0 "\<lparr>v_src = src, v_buf = dst, v_dst = 0, v_L = 0, v_M = 0, v_D = 0, d_prev = 0, end_of_stream = False\<rparr>"]
    by (auto simp: lzvn_decode_buffer_def lzvn_decode_def)
qed

lemma lzvn_buffer_agrees:
  assumes "lzvn_text (length dst) src = Some out"
  shows "\<exists>buf. lzvn_decode_buffer dst src = Some (length out, buf) \<and> take (length out) buf = out"
proof (cases "src = [] \<or> dst = []")
  case True
  then show ?thesis
    using assms by (auto simp: lzvn_decode_buffer_def lzvn_decode_def lzvn_text_def)
next
  case False
  then show ?thesis
    using assms lzvn_loop_agrees [of src 0 dst 0
        "\<lparr>v_src = src, v_buf = dst, v_dst = 0, v_L = 0, v_M = 0, v_D = 0, d_prev = 0, end_of_stream = False\<rparr>" out]
    by (auto simp: lzvn_decode_buffer_def lzvn_decode_def lzvn_text_def)
qed

text \<open>
  C13. The wide copies of the LZVN decoder are invisible: where no match comes before a distance, decompression gives the bytes
  of the decoder that copies byte by byte, whatever was in the destination, and fails only on the wrong number of them when
  it is asked to check.
\<close>

theorem decompress_lzvn_text:
  assumes "lzvn_text dstlen src = Some out"
  shows "decompressInternal zlib junk ModeLZVN dstlen src checkResult =
    (if checkResult \<and> length out \<noteq> dstlen then None else Some out)"
proof -
  have "lzvn_output junk dstlen src = out"
    using lzvn_buffer_agrees [of "map junk [0..<dstlen]" src out] assms by (auto simp: lzvn_output_def)
  then show ?thesis
    by (simp add: decompressInternal_def ModeLZVN_def ModeLZSS_def)
qed

theorem decompress_lzvn_text_witness:
  "decompressInternal (\<lambda>_ _. []) (\<lambda>_. 99) ModeLZVN 14
     [0xE3, 1, 2, 3, 0x38, 3, 0xE1, 9, 6, 0, 0, 0, 0, 0, 0, 0] True = Some [1, 2, 3, 1, 2, 3, 1, 2, 3, 1, 2, 3, 1, 9]"
proof -
  have "lzvn_text 14 [0xE3, 1, 2, 3, 0x38, 3, 0xE1, 9, 6, 0, 0, 0, 0, 0, 0, 0] = Some [1, 2, 3, 1, 2, 3, 1, 2, 3, 1, 2, 3, 1, 9]"
    by code_simp
  from decompress_lzvn_text [OF this, of "\<lambda>_ _. []" "\<lambda>_. 99" True] show ?thesis
    by simp
qed

text \<open>A match before any distance is not refused: what was in the destination counts as decoded.\<close>

lemma lzvn_stale_bytes:
  assumes "length dst = 3"
  shows "lzvn_decode_buffer dst [0xF3, 6, 0, 0, 0, 0, 0, 0, 0] = Some (3, dst)"
proof -
  obtain a b c where "dst = [a, b, c]"
    using assms by (auto simp: numeral_3_eq_3 length_Suc_conv)
  moreover have "opc_tbl ! 243 = sml_m" "opc_tbl ! 6 = eos"
    by code_simp+
  ultimately show ?thesis
    by (simp add: lzvn_decode_buffer_def lzvn_decode_def lzvn_loop.simps lzvn_step_def lzvn_op_def lzvn_dist_def Let_def
        extract_bits_def load_byte_def copy_match_def match_copy.simps load_back_def load_bytes_def store_at_def)
qed

text \<open>An undefined opcode takes back the instruction before it: the three bytes copied are not reported.\<close>

lemma lzvn_udef_takes_back:
  "map_option fst (lzvn_decode_buffer [9, 9, 9, 9] [0xE3, 1, 2, 3, 0x70]) = Some 0"
  by code_simp

end
