(* ===== verification/Spec2Isabelle.thy ===== *)
theory Spec2Isabelle
  imports Patches_Correct Route_Correct Memmem_Correct Qsort_Correct Nv_Correct Lzvn_Correct
begin

text \<open>
  Kryptonite is a kernel extension that patches macOS kexts so that external graphics cards work on
  Macs that are not meant to have them. It is a plugin of Lilu, a library that finds the running kernel
  and its kexts in memory, solves their symbols, and changes their code. The development models both:
  \<open>src/Kryptonite/Kryptonite\<close> is the plugin, \<open>src/Kryptonite/Lilu.kext\<close> the library.

  \<^bold>\<open>The parts and how they work together.\<close> At boot Lilu reads its arguments and the kernel image, and
  listens for kexts that are loaded. A plugin registers, while it holds the API, the kexts it wants to
  change. When one of them is in memory, the kernel patcher fills in where it runs and calls the
  plugin, which applies its lookup patches (find some bytes, put others there) and its routes (a jump
  at the entry of a function to a replacement, with a trampoline through which the replacement still
  reaches the original). All writes happen in a window in which write protection and interrupts are off.
  Beside this Lilu offers plugins a storage in NVRAM, which compresses, encrypts and checks values.

  \<^bold>\<open>Theories.\<close>
  \<^item> \<open>Prelude\<close>: byte-addressed memory with 64-bit addresses that wrap, little-endian loads and stores, lemmas.
  \<^item> \<open>Machine\<close>: CR0, interrupt flag, spin lock and heap as a record; \<open>setInterrupts\<close>, \<open>setWPBit\<close> and
    \<open>setKernelWriting\<close> of \<open>kern_mach.cpp\<close>. A locale states what a write window promises; it is interpreted on them.
  \<^item> \<open>Containers\<close>: \<open>evector\<close>, \<open>CircularBuffer\<close>, \<open>ThreadLocal\<close> of \<open>kern_util.hpp\<close>, each with the locale of its contract.
  \<^item> \<open>Hde64\<close>: the length disassembler \<open>hde64.c\<close> with its tables, and \<open>quickInstructionSize\<close>.
  \<^item> \<open>Mach_Info\<close>, \<open>Mach_Load\<close>: \<open>MachInfo\<close> of \<open>kern_mach.cpp\<close>: load commands, kernel base, address slots, symbols;
    reading, decompressing and splitting of image files.
  \<^item> \<open>Kern_Util\<close>: strings and bit fields.
  \<^item> \<open>Compression\<close>, \<open>Lzss_Encode\<close>: \<open>kern_compression.cpp\<close>, the LZSS decoder, the encoder with its search trees in arrays, and
    the choice of the format. \<open>Lzss_Trees\<close>, \<open>Lzss_Format\<close>, \<open>Lzss_Roundtrip\<close>: their proofs.
  \<^item> \<open>Lzvn\<close>, \<open>Lzvn_Correct\<close>: the LZVN decoder \<open>lzvn.c\<close>, and its proof against a decoder that copies byte by byte.
  \<^item> \<open>Sha256\<close>: \<open>sha256.c\<close> and its specification. \<open>Crypto\<close>: \<open>kern_crypto.cpp\<close>, and the locale of what a codec promises.
  \<^item> \<open>Nv_Storage\<close>, \<open>Nv_Correct\<close>: \<open>kern_nvram.cpp\<close> over these, and its proofs; the codec locale is interpreted on its compression.
  \<^item> \<open>Memmem\<close>, \<open>Two_Way\<close>, \<open>Memmem_Correct\<close>: \<open>kern_memmem.cpp\<close> and its proof. \<open>Qsort\<close>, \<open>Qsort_Correct\<close>: \<open>kern_qsort.cpp\<close>.
  \<^item> \<open>Patcher_State\<close>, \<open>Patcher_Route\<close>, \<open>Patcher_Lookup\<close>, \<open>Patcher_Kexts\<close>: \<open>kern_patcher.cpp\<close>. The state is the record
    \<open>patcher\<close>, extensible by the fields of the API and of a plugin. \<open>Route_Jumps\<close>, \<open>Route_Correct\<close>, \<open>Patcher_Frame\<close>: its proofs.
  \<^item> \<open>Lilu_Config\<close>, \<open>Lilu_Api\<close>: boot arguments and registration (\<open>kern_start.cpp\<close>, \<open>kern_api.cpp\<close>).
  \<^item> \<open>Nvram_Args\<close>, \<open>Hooks\<close>, \<open>Patches\<close>, \<open>Patch_Set\<close>: the plugin. \<open>Patches_Correct\<close>: what two of its patches do to memory.

  \<^bold>\<open>What the lemmas show.\<close> Routing, with an address slot or without, sends calls to the replacement and keeps the original
  reachable, and unloading puts every changed byte back. Lookup patches refine a specification, stay inside the image and always return when they have a
  count. The LZVN decoder never leaves its buffers, and its wide copies
  are invisible. The dispatch over kexts runs the actions of a table. Containers, substring search, sorting, symbol lookup, hashing
  and the disassembler's lengths agree with reference definitions. Compression, encryption and the NVRAM storage give
  again what was put in. Several theorems state what the code does not do: a match at the end of an image that is
  missed, loops that do not end, a buffer that is too small by four bytes, values that cannot be
  read, old contents of a buffer that are taken for decoded bytes.

  \<^bold>\<open>Conventions and bounds.\<close> Code that may fail to return (a panic, a wait that nobody ends, a fault on a read-only
  page) gives \<open>None\<close>; in \<open>Crypto\<close>, \<open>Nv_Storage\<close>, \<open>Lzvn\<close> and \<open>Lzss_Encode\<close> an outer \<open>None\<close> is also an access outside a buffer or
  an array, and in \<open>Qsort\<close> a distance that does not fit an \<open>int\<close>, so that sorting is shown for arrays of less than \<open>2 ^ 31\<close>
  bytes. Error codes are values.
  Loops that may not end are partial functions in the option type, and where they are claimed to end this is proved;
  there is no fuel. Machine integers have their width; lengths of lists stand for sizes where the code checks them before it
  subtracts. What the kernel, the firmware or the file system answers is a parameter (\<open>kern_env\<close>, \<open>nvenv\<close>, the fields of
  \<open>machine\<close>), and so is what C++ leaves undefined and the code reads: an uninitialised stack buffer, a local array behind its
  block (\<open>dead_array\<close>). Of the kernel's NVRAM \<open>sync\<close> the model keeps when it is called and with what. Link-time addresses are fields of the state.

  \<^bold>\<open>Not modelled.\<close> Input and output with hardware and kernel: the I/O registry (\<open>kern_devinfo.cpp\<close>, \<open>kern_iokit.cpp\<close>),
  processor, clock and firmware services (\<open>kern_cpu.cpp\<close>, \<open>kern_rtc.cpp\<close>, \<open>kern_efi.cpp\<close>), policy registration, logging, and
  saving NVRAM to a file. The user patcher (\<open>kern_user.cpp\<close>), which works on the memory of processes through kernel interfaces
  that are not in the sources and which Kryptonite does not use. Third-party code that is only called: Capstone with its
  allocator, zlib and AES. The 32-bit disassembler, as the model is of the
  64-bit build. The installer scripts, and the wiping of freed memory, which no caller can observe.
\<close>

end
